(* ===== verification/CM_Prelude.thy ===== *)
theory CM_Prelude
  imports Main "HOL-Library.Word"
begin

section \<open>Prelude: machine integers, byte strings, fallible and stateful computations\<close>

text \<open>
  What the component theories share. Machine integers are words of their width, with the
  checked and saturating operations of Rust's integers stated through \<open>unat\<close>. A Rust
  \<open>String\<close> is a \<open>string\<close>, read as its UTF-8 bytes. \<open>Result\<close> is a sum with the error
  on the left, and a method that mutates its receiver and may fail is a function from the
  state to a result and the state left behind, composed by \<open>and_then\<close> as the
  question-mark operator composes them.
\<close>

named_theorems word_arith \<open>unat readings of the checked and saturating operations\<close>
named_theorems exec_simps \<open>evaluation rules of fallible and stateful computations\<close>

subsection \<open>Machine integers\<close>

type_synonym u8 = "8 word"
type_synonym u16 = "16 word"
type_synonym u32 = "32 word"
type_synonym u64 = "64 word"

definition max_value :: "'a::len word" where
  "max_value = - 1"

definition checked_add :: "'a::len word \<Rightarrow> 'a word \<Rightarrow> 'a word option" where
  "checked_add a b = (if unat a + unat b < 2 ^ LENGTH('a) then Some (a + b) else None)"

definition checked_mul :: "'a::len word \<Rightarrow> 'a word \<Rightarrow> 'a word option" where
  "checked_mul a b = (if unat a * unat b < 2 ^ LENGTH('a) then Some (a * b) else None)"

definition saturating_add :: "'a::len word \<Rightarrow> 'a word \<Rightarrow> 'a word" where
  "saturating_add a b = (if unat a + unat b < 2 ^ LENGTH('a) then a + b else max_value)"

definition saturating_sub :: "'a::len word \<Rightarrow> 'a word \<Rightarrow> 'a word" where
  "saturating_sub a b = (if b \<le> a then a - b else 0)"

definition saturating_mul :: "'a::len word \<Rightarrow> 'a word \<Rightarrow> 'a word" where
  "saturating_mul a b = (if unat a * unat b < 2 ^ LENGTH('a) then a * b else max_value)"

lemma unat_max_value [word_arith]: "unat (max_value :: 'a::len word) = 2 ^ LENGTH('a) - 1"
  by (simp add: max_value_def unsigned_minus_1_eq_mask mask_eq_exp_minus_1)

lemma unat_lt_len: "unat (a :: 'a::len word) < 2 ^ LENGTH('a)"
  by (rule unsigned_less)

lemma unat_le_max: "unat (a :: 'a::len word) \<le> 2 ^ LENGTH('a) - 1"
  using unat_lt_len [of a] by linarith

lemma unat_add_exact:
  "unat a + unat b < 2 ^ LENGTH('a) \<Longrightarrow> unat (a + b :: 'a::len word) = unat a + unat b"
  by (simp add: unat_word_ariths)

lemma unat_mul_exact:
  "unat a * unat b < 2 ^ LENGTH('a) \<Longrightarrow> unat (a * b :: 'a::len word) = unat a * unat b"
  by (simp add: unat_word_ariths)

lemma unat_saturating_add [word_arith]:
  "unat (saturating_add a b :: 'a::len word) = min (unat a + unat b) (2 ^ LENGTH('a) - 1)"
  by (auto simp: saturating_add_def unat_add_exact unat_max_value)

lemma unat_saturating_mul [word_arith]:
  "unat (saturating_mul a b :: 'a::len word) = min (unat a * unat b) (2 ^ LENGTH('a) - 1)"
  by (auto simp: saturating_mul_def unat_mul_exact unat_max_value)

lemma unat_saturating_sub [word_arith]:
  "unat (saturating_sub a b :: 'a::len word) = unat a - unat b"
  by (simp add: saturating_sub_def unat_sub word_le_nat_alt)

lemma checked_add_Some_iff:
  "checked_add a b = Some (c :: 'a::len word) \<longleftrightarrow> unat c = unat a + unat b"
proof
  assume "checked_add a b = Some c"
  then show "unat c = unat a + unat b"
    by (auto simp: checked_add_def unat_add_exact split: if_splits)
next
  assume eq: "unat c = unat a + unat b"
  with unat_lt_len [of c] have "unat a + unat b < 2 ^ LENGTH('a)" by simp
  with eq show "checked_add a b = Some c"
    by (simp add: checked_add_def unat_add_exact word_unat_eq_iff)
qed

lemma checked_add_None_iff:
  "checked_add a (b :: 'a::len word) = None \<longleftrightarrow> 2 ^ LENGTH('a) \<le> unat a + unat b"
  by (simp add: checked_add_def)

lemma checked_mul_Some_iff:
  "checked_mul a b = Some (c :: 'a::len word) \<longleftrightarrow> unat c = unat a * unat b"
proof
  assume "checked_mul a b = Some c"
  then show "unat c = unat a * unat b"
    by (auto simp: checked_mul_def unat_mul_exact split: if_splits)
next
  assume eq: "unat c = unat a * unat b"
  with unat_lt_len [of c] have "unat a * unat b < 2 ^ LENGTH('a)" by simp
  with eq show "checked_mul a b = Some c"
    by (simp add: checked_mul_def unat_mul_exact word_unat_eq_iff)
qed

lemma checked_mul_None_iff:
  "checked_mul a (b :: 'a::len word) = None \<longleftrightarrow> 2 ^ LENGTH('a) \<le> unat a * unat b"
  by (simp add: checked_mul_def)

lemma unat_of_nat_exact: "n < 2 ^ LENGTH('a) \<Longrightarrow> unat (of_nat n :: 'a::len word) = n"
  by (simp add: unat_of_nat take_bit_nat_eq_self_iff)

subsection \<open>Bytes and byte strings\<close>

text \<open>
  The character classes are those of \<open>char::is_ascii_digit\<close> and its kin, on the byte's
  value; whitespace is ASCII whitespace, and \<open>to_uppercase\<close> changes ASCII letters only
  (currency codes, the one use, are ASCII).
\<close>

definition byte_of :: "char \<Rightarrow> nat" where
  "byte_of c = of_char c"

definition is_ascii_digit :: "char \<Rightarrow> bool" where
  "is_ascii_digit c \<longleftrightarrow> 48 \<le> byte_of c \<and> byte_of c \<le> 57"

definition is_ascii_upper :: "char \<Rightarrow> bool" where
  "is_ascii_upper c \<longleftrightarrow> 65 \<le> byte_of c \<and> byte_of c \<le> 90"

definition is_ascii_lower :: "char \<Rightarrow> bool" where
  "is_ascii_lower c \<longleftrightarrow> 97 \<le> byte_of c \<and> byte_of c \<le> 122"

definition is_ascii_alphanumeric :: "char \<Rightarrow> bool" where
  "is_ascii_alphanumeric c \<longleftrightarrow> is_ascii_digit c \<or> is_ascii_upper c \<or> is_ascii_lower c"

definition is_ascii_hexdigit :: "char \<Rightarrow> bool" where
  "is_ascii_hexdigit c \<longleftrightarrow>
     is_ascii_digit c \<or> (65 \<le> byte_of c \<and> byte_of c \<le> 70) \<or> (97 \<le> byte_of c \<and> byte_of c \<le> 102)"

definition is_space :: "char \<Rightarrow> bool" where
  "is_space c \<longleftrightarrow> (9 \<le> byte_of c \<and> byte_of c \<le> 13) \<or> byte_of c = 32"

definition upper_char :: "char \<Rightarrow> char" where
  "upper_char c = (if is_ascii_lower c then char_of (byte_of c - 32) else c)"

definition lower_char :: "char \<Rightarrow> char" where
  "lower_char c = (if is_ascii_upper c then char_of (byte_of c + 32) else c)"

definition to_uppercase :: "string \<Rightarrow> string" where
  "to_uppercase s = map upper_char s"

definition to_lowercase :: "string \<Rightarrow> string" where
  "to_lowercase s = map lower_char s"

definition trim :: "string \<Rightarrow> string" where
  "trim s = rev (dropWhile is_space (rev (dropWhile is_space s)))"

lemma byte_of_lt [simp]: "byte_of c < 256"
  by (simp add: byte_of_def)

lemma byte_of_char_of: "n < 256 \<Longrightarrow> byte_of (char_of n) = n"
  by (simp add: byte_of_def)

lemma char_of_byte_of [simp]: "char_of (byte_of c) = c"
  by (simp add: byte_of_def)

lemma byte_of_inj: "byte_of a = byte_of b \<Longrightarrow> a = b"
  by (metis char_of_byte_of)

lemma upper_char_idem [simp]: "upper_char (upper_char c) = upper_char c"
  by (auto simp: upper_char_def is_ascii_lower_def byte_of_char_of)

lemma to_uppercase_idem [simp]: "to_uppercase (to_uppercase s) = to_uppercase s"
  by (simp add: to_uppercase_def)

text \<open>\<open>split_once\<close> cuts at the first separator; \<open>split_on\<close> at every one, so it never
  returns the empty list; \<open>join_with\<close> is \<open>[_].join\<close>.\<close>

fun split_once :: "char \<Rightarrow> string \<Rightarrow> (string \<times> string) option" where
  "split_once sep [] = None"
| "split_once sep (c # s) =
     (if c = sep then Some ([], s)
      else map_option (\<lambda>(a, b). (c # a, b)) (split_once sep s))"

fun split_on :: "char \<Rightarrow> string \<Rightarrow> string list" where
  "split_on sep [] = [[]]"
| "split_on sep (c # s) =
     (if c = sep then [] # split_on sep s
      else (case split_on sep s of [] \<Rightarrow> [[c]] | w # ws \<Rightarrow> (c # w) # ws))"

fun join_with :: "string \<Rightarrow> string list \<Rightarrow> string" where
  "join_with sep [] = []"
| "join_with sep [w] = w"
| "join_with sep (w # ws) = w @ sep @ join_with sep ws"

definition strip_prefix :: "string \<Rightarrow> string \<Rightarrow> string option" where
  "strip_prefix p s = (if take (length p) s = p then Some (drop (length p) s) else None)"

definition strip_suffix :: "string \<Rightarrow> string \<Rightarrow> string option" where
  "strip_suffix p s = map_option rev (strip_prefix (rev p) (rev s))"

lemma strip_prefix_Some_iff: "strip_prefix p s = Some r \<longleftrightarrow> s = p @ r"
  by (auto simp: strip_prefix_def) (metis append_take_drop_id)

lemma strip_suffix_Some_iff: "strip_suffix p s = Some r \<longleftrightarrow> s = r @ p"
proof -
  have "strip_suffix p s = Some r \<longleftrightarrow> strip_prefix (rev p) (rev s) = Some (rev r)"
    by (auto simp: strip_suffix_def)
  also have "\<dots> \<longleftrightarrow> rev s = rev p @ rev r" by (rule strip_prefix_Some_iff)
  also have "\<dots> \<longleftrightarrow> s = r @ p" by (metis rev_append rev_rev_ident)
  finally show ?thesis .
qed

lemma split_on_nonempty [simp]: "split_on sep s \<noteq> []"
  by (induction s) (auto split: list.splits)

lemma split_once_Some: "split_once sep s = Some (a, b) \<Longrightarrow> s = a @ sep # b \<and> sep \<notin> set a"
  by (induction s arbitrary: a b) (auto split: if_splits)

lemma split_once_append: "sep \<notin> set a \<Longrightarrow> split_once sep (a @ sep # b) = Some (a, b)"
  by (induction a) auto

lemma split_once_None: "split_once sep s = None \<longleftrightarrow> sep \<notin> set s"
  by (induction s) auto

lemma join_split: "join_with [sep] (split_on sep s) = s"
proof (induction s)
  case Nil
  then show ?case by simp
next
  case (Cons c s)
  obtain w ws where w: "split_on sep s = w # ws"
    using split_on_nonempty by (meson neq_Nil_conv)
  have "join_with [sep] ((c # w) # ws) = c # join_with [sep] (w # ws)" by (cases ws) auto
  with Cons w show ?case by auto
qed

subsection \<open>Decimal text\<close>

definition digit_char :: "nat \<Rightarrow> char" where
  "digit_char d = char_of (48 + d)"

definition digit_val :: "char \<Rightarrow> nat" where
  "digit_val c = byte_of c - 48"

fun show_nat :: "nat \<Rightarrow> string" where
  "show_nat n = (if n < 10 then [digit_char n] else show_nat (n div 10) @ [digit_char (n mod 10)])"

declare show_nat.simps [simp del]

definition digits_val :: "string \<Rightarrow> nat" where
  "digits_val s = foldl (\<lambda>a c. 10 * a + digit_val c) 0 s"

definition all_digits :: "string \<Rightarrow> bool" where
  "all_digits s \<longleftrightarrow> list_all is_ascii_digit s"

text \<open>\<open>str::parse\<close> for an unsigned integer: an optional plus sign, at least one digit,
  and \<open>None\<close> when the value does not fit the width.\<close>

definition parse_uint :: "string \<Rightarrow> 'a::len word option" where
  "parse_uint s =
     (let ds = (case s of c # r \<Rightarrow> (if c = CHR ''+'' then r else s) | [] \<Rightarrow> s)
      in if ds = [] \<or> \<not> all_digits ds \<or> 2 ^ LENGTH('a) \<le> digits_val ds then None
         else Some (of_nat (digits_val ds)))"

lemma digit_char_digit [simp]: "d < 10 \<Longrightarrow> is_ascii_digit (digit_char d)"
  by (simp add: is_ascii_digit_def digit_char_def byte_of_char_of)

lemma digit_val_char [simp]: "d < 10 \<Longrightarrow> digit_val (digit_char d) = d"
  by (simp add: digit_val_def digit_char_def byte_of_char_of)

lemma digit_val_lt: "is_ascii_digit c \<Longrightarrow> digit_val c < 10"
  by (auto simp: is_ascii_digit_def digit_val_def)

lemma digits_val_Nil [simp]: "digits_val [] = 0"
  by (simp add: digits_val_def)

lemma digits_val_snoc [simp]: "digits_val (s @ [c]) = 10 * digits_val s + digit_val c"
  by (simp add: digits_val_def)

lemma digits_val_append: "digits_val (s @ t) = digits_val s * 10 ^ length t + digits_val t"
proof (induction t rule: rev_induct)
  case Nil
  then show ?case by simp
next
  case (snoc c t)
  then show ?case
    by (simp only: append_assoc [symmetric] digits_val_snoc) (simp add: algebra_simps)
qed

lemma digits_val_lt: "all_digits s \<Longrightarrow> digits_val s < 10 ^ length s"
proof (induction s rule: rev_induct)
  case Nil
  then show ?case by simp
next
  case (snoc c s)
  then have "digits_val s < 10 ^ length s" "digit_val c < 10"
    by (auto simp: all_digits_def digit_val_lt)
  then show ?case by simp
qed

lemma digits_val_replicate0: "digits_val (replicate n (CHR ''0'')) = 0"
  by (induction n) (simp_all add: replicate_append_same [symmetric] digit_val_def byte_of_def)

lemma all_digits_append [simp]: "all_digits (s @ t) \<longleftrightarrow> all_digits s \<and> all_digits t"
  by (simp add: all_digits_def)

lemma show_nat_digits: "all_digits (show_nat n)"
proof (induction n rule: show_nat.induct)
  case (1 n)
  then show ?case by (subst show_nat.simps) (simp add: all_digits_def)
qed

lemma show_nat_nonempty [simp]: "show_nat n \<noteq> []"
  by (subst show_nat.simps) simp

lemma digits_val_show_nat [simp]: "digits_val (show_nat n) = n"
proof (induction n rule: show_nat.induct)
  case (1 n)
  show ?case
  proof (cases "n < 10")
    case True
    then have "show_nat n = [] @ [digit_char n]" by (subst show_nat.simps) simp
    then show ?thesis using True by (simp only: digits_val_snoc) simp
  next
    case False
    with 1 show ?thesis by (subst show_nat.simps) simp
  qed
qed

lemma plus_not_digit: "all_digits s \<Longrightarrow> CHR ''+'' \<notin> set s"
  by (auto simp: all_digits_def list_all_iff is_ascii_digit_def byte_of_def)

lemma dot_not_digit: "all_digits s \<Longrightarrow> CHR ''.'' \<notin> set s"
  by (auto simp: all_digits_def list_all_iff is_ascii_digit_def byte_of_def)

lemma parse_uint_digits:
  assumes "all_digits s" "s \<noteq> []"
  shows "(parse_uint s :: 'a::len word option) =
    (if digits_val s < 2 ^ LENGTH('a) then Some (of_nat (digits_val s)) else None)"
proof -
  have "(case s of c # r \<Rightarrow> (if c = CHR ''+'' then r else s) | [] \<Rightarrow> s) = s"
    using plus_not_digit [OF assms(1)] by (auto split: list.splits)
  then show ?thesis using assms by (simp add: parse_uint_def Let_def)
qed

subsection \<open>Identifiers and ordered maps\<close>

datatype uuid = Uuid nat

text \<open>A \<open>BTreeMap\<close> is the list of its entries in key order.\<close>

type_synonym ('k, 'v) btree = "('k \<times> 'v) list"

fun bt_insert :: "'k::linorder \<Rightarrow> 'v \<Rightarrow> ('k, 'v) btree \<Rightarrow> ('k, 'v) btree" where
  "bt_insert k v [] = [(k, v)]"
| "bt_insert k v ((k', v') # m) =
     (if k < k' then (k, v) # (k', v') # m
      else if k = k' then (k, v) # m
      else (k', v') # bt_insert k v m)"

definition bt_extend :: "('k::linorder, 'v) btree \<Rightarrow> ('k \<times> 'v) list \<Rightarrow> ('k, 'v) btree" where
  "bt_extend m kvs = foldl (\<lambda>m (k, v). bt_insert k v m) m kvs"

definition bt_ok :: "('k::linorder, 'v) btree \<Rightarrow> bool" where
  "bt_ok m \<longleftrightarrow> sorted_wrt (<) (map fst m)"

lemma bt_insert_lookup [simp]: "bt_ok m \<Longrightarrow> map_of (bt_insert k v m) = (map_of m)(k \<mapsto> v)"
proof (induction m)
  case (Cons kv m)
  obtain k' v' where kv: "kv = (k', v')" by fastforce
  from Cons have ok: "bt_ok m" by (simp add: bt_ok_def)
  show ?case
  proof (cases "k < k'")
    case True
    with Cons.prems kv show ?thesis by (auto simp: fun_eq_iff)
  next
    case False
    with Cons.IH [OF ok] kv show ?thesis by (auto simp: fun_eq_iff)
  qed
qed (simp add: fun_eq_iff)

lemma bt_insert_keys [simp]: "fst ` set (bt_insert k v m) = insert k (fst ` set m)"
  by (induction k v m rule: bt_insert.induct) (simp_all add: insert_commute)

lemma bt_insert_ok [simp]: "bt_ok m \<Longrightarrow> bt_ok (bt_insert k v m)"
proof (induction m)
  case (Cons kv m)
  obtain k' v' where kv: "kv = (k', v')" by fastforce
  from Cons.prems have ok: "bt_ok m" and lt: "\<And>x. x \<in> fst ` set m \<Longrightarrow> k' < x"
    by (auto simp: bt_ok_def kv)
  show ?case
  proof (cases "k < k'")
    case True
    with Cons.prems kv lt show ?thesis by (fastforce simp: bt_ok_def)
  next
    case False
    have "k' < x" if "k \<noteq> k'" "x \<in> fst ` set (bt_insert k v m)" for x
      using that lt False by auto
    with Cons.IH [OF ok] Cons.prems kv False show ?thesis
      by (auto simp: bt_ok_def)
  qed
qed (simp add: bt_ok_def)

lemma bt_extend_ok [simp]: "bt_ok m \<Longrightarrow> bt_ok (bt_extend m kvs)"
  unfolding bt_extend_def by (induction kvs arbitrary: m) auto

lemma bt_extend_lookup: "bt_ok m \<Longrightarrow> map_of (bt_extend m kvs) = map_of m ++ map_of (rev kvs)"
  unfolding bt_extend_def
proof (induction kvs arbitrary: m)
  case (Cons kv kvs)
  obtain k v where kv: "kv = (k, v)" by fastforce
  from Cons.IH [of "bt_insert k v m"] Cons.prems show ?case
    by (simp add: kv map_add_def fun_eq_iff split: option.splits)
qed simp

lemma bt_extend_keys: "fst ` set (bt_extend m kvs) = fst ` set m \<union> fst ` set kvs"
  unfolding bt_extend_def by (induction kvs arbitrary: m) (simp_all add: case_prod_beta')

lemma bt_extend_append: "bt_extend m (xs @ ys) = bt_extend (bt_extend m xs) ys"
  by (simp add: bt_extend_def)

lemma bt_filter_ok: "bt_ok m \<Longrightarrow> bt_ok (filter P m)"
  by (auto simp: bt_ok_def sorted_wrt_map sorted_wrt_filter)

lemma bt_ok_Nil [simp]: "bt_ok []"
  by (simp add: bt_ok_def)

lemma bt_ok_distinct: "bt_ok m \<Longrightarrow> distinct (map fst m)"
  by (simp add: bt_ok_def strict_sorted_iff)

text \<open>Two ordered maps with the same lookups are the same map.\<close>

lemma bt_eqI:
  assumes "bt_ok m" "bt_ok m'" "map_of m = map_of m'"
  shows "m = m'"
proof -
  have rebuild: "n = map (\<lambda>k. (k, the (map_of n k))) (map fst n)" if "bt_ok n" for n :: "('a, 'b) btree"
    using bt_ok_distinct [OF that] by (auto simp: comp_def intro!: map_idI [symmetric])
  have "set (map fst m) = set (map fst m')"
    using arg_cong [OF assms(3), of dom] by (simp add: dom_map_of_conv_image_fst)
  then have "map fst m = map fst m'"
    using assms(1,2) by (intro strict_sorted_equal) (simp_all add: bt_ok_def)
  with rebuild [OF assms(1)] rebuild [OF assms(2)] assms(3) show ?thesis by metis
qed

text \<open>A quotient rounded to the nearest, halves to the even neighbour.\<close>

definition half_even :: "nat \<Rightarrow> nat \<Rightarrow> nat" where
  "half_even a b = (let q = a div b; r = a mod b in if 2 * r < b \<or> 2 * r = b \<and> even q then q else Suc q)"

subsection \<open>Fallible and stateful computations\<close>

type_synonym ('s, 'e, 'a) exec = "'s \<Rightarrow> ('e + 'a) \<times> 's"

definition res_bind :: "'e + 'a \<Rightarrow> ('a \<Rightarrow> 'e + 'b) \<Rightarrow> 'e + 'b" where
  "res_bind r f = (case r of Inl e \<Rightarrow> Inl e | Inr a \<Rightarrow> f a)"

definition res_map :: "('a \<Rightarrow> 'b) \<Rightarrow> 'e + 'a \<Rightarrow> 'e + 'b" where
  "res_map f r = (case r of Inl e \<Rightarrow> Inl e | Inr a \<Rightarrow> Inr (f a))"

text \<open>\<open>iter().map(f).collect::<Result<Vec<_>, _>>()\<close>: the first error, else every value.\<close>

fun traverse :: "('a \<Rightarrow> 'e + 'b) \<Rightarrow> 'a list \<Rightarrow> 'e + 'b list" where
  "traverse f [] = Inr []"
| "traverse f (x # xs) = res_bind (f x) (\<lambda>y. res_map (Cons y) (traverse f xs))"

definition ret :: "'a \<Rightarrow> ('s, 'e, 'a) exec" where
  "ret a s = (Inr a, s)"

definition fail :: "'e \<Rightarrow> ('s, 'e, 'a) exec" where
  "fail e s = (Inl e, s)"

definition lift :: "'e + 'a \<Rightarrow> ('s, 'e, 'a) exec" where
  "lift r s = (r, s)"

definition and_then :: "('s, 'e, 'a) exec \<Rightarrow> ('a \<Rightarrow> ('s, 'e, 'b) exec) \<Rightarrow> ('s, 'e, 'b) exec" where
  "and_then m k s = (case m s of (Inl e, s') \<Rightarrow> (Inl e, s') | (Inr a, s') \<Rightarrow> k a s')"

lemma res_bind_simps [simp]: "res_bind (Inl e) f = Inl e" "res_bind (Inr a) f = f a"
  by (simp_all add: res_bind_def)

lemma res_map_simps [simp]: "res_map f (Inl e) = Inl e" "res_map f (Inr a) = Inr (f a)"
  by (simp_all add: res_map_def)

lemma res_bind_Inr_iff: "res_bind r f = Inr b \<longleftrightarrow> (\<exists>a. r = Inr a \<and> f a = Inr b)"
  by (cases r) auto

lemma res_map_Inr_iff: "res_map f r = Inr b \<longleftrightarrow> (\<exists>a. r = Inr a \<and> f a = b)"
  by (cases r) auto

lemma res_bindE: "res_bind r f = Inr b \<Longrightarrow> (\<And>a. r = Inr a \<Longrightarrow> f a = Inr b \<Longrightarrow> P) \<Longrightarrow> P"
  by (auto simp: res_bind_Inr_iff)

lemma res_mapE: "res_map f r = Inr b \<Longrightarrow> (\<And>a. r = Inr a \<Longrightarrow> f a = b \<Longrightarrow> P) \<Longrightarrow> P"
  by (auto simp: res_map_Inr_iff)

lemma pair_caseE: "case_prod f p = c \<Longrightarrow> (\<And>a b. p = (a, b) \<Longrightarrow> f a b = c \<Longrightarrow> P) \<Longrightarrow> P"
  by (cases p) simp

lemma traverse_Inr_iff:
  "traverse f xs = Inr ys \<longleftrightarrow> list_all2 (\<lambda>x y. f x = Inr y) xs ys"
proof (induction xs arbitrary: ys)
  case Nil
  then show ?case by auto
next
  case (Cons x xs)
  then show ?case
    by (cases ys) (auto simp: res_bind_Inr_iff res_map_Inr_iff)
qed

lemma traverse_Inr_nth:
  "traverse f xs = Inr ys \<Longrightarrow> i < length xs \<Longrightarrow> f (xs ! i) = Inr (ys ! i)"
  by (auto simp: traverse_Inr_iff list_all2_conv_all_nth)

lemma traverse_Inr_mem:
  "traverse f xs = Inr ys \<Longrightarrow> y \<in> set ys \<Longrightarrow> \<exists>x \<in> set xs. f x = Inr y"
  by (induction xs arbitrary: ys) (auto simp: res_bind_Inr_iff res_map_Inr_iff)

lemma traverse_total: "(\<And>x. x \<in> set xs \<Longrightarrow> f x = Inr (g x)) \<Longrightarrow> traverse f xs = Inr (map g xs)"
  by (induction xs) auto

lemma exec_run [exec_simps]:
  "ret a s = (Inr a, s)" "fail e s = (Inl e, s)" "lift r s = (r, s)"
  by (simp_all add: ret_def fail_def lift_def)

lemma and_then_run [exec_simps]:
  "and_then m k s = (case m s of (r, s') \<Rightarrow> (case r of Inl e \<Rightarrow> (Inl e, s') | Inr a \<Rightarrow> k a s'))"
  by (auto simp: and_then_def split: prod.splits sum.splits)

lemma and_then_Inr_iff:
  "and_then m k s = (Inr b, s') \<longleftrightarrow> (\<exists>a s1. m s = (Inr a, s1) \<and> k a s1 = (Inr b, s'))"
  by (auto simp: and_then_def split: prod.splits sum.splits)

lemma and_thenE:
  assumes "and_then m k s = (r, s')"
  obtains (err) e where "m s = (Inl e, s')" "r = Inl e"
    | (ok) a s1 where "m s = (Inr a, s1)" "k a s1 = (r, s')"
  using assms by (auto simp: and_then_def split: prod.splits sum.splits)

lemma and_then_ok: "m s = (Inr a, s1) \<Longrightarrow> and_then m k s = k a s1"
  by (simp add: and_then_def)

lemma and_then_err: "m s = (Inl e, s1) \<Longrightarrow> and_then m k s = (Inl e, s1)"
  by (simp add: and_then_def)

end
