(* ===== verification/Money.thy ===== *)
theory Money
  imports CM_Prelude
begin

section \<open>Exact money in a named currency\<close>

text \<open>
  \<open>crates/commonmeasure-types/src/money.rs\<close>. An amount is a count of millionth units held
  in 64 bits, and the currency code is upper case in every value the module can build. The
  lemmas show that decimal text is read exactly or not at all, that printing and reading an
  amount gives it back, and that no operation mixes currencies or wraps around.
\<close>

record money =
  currency :: string
  micros :: u64

datatype ordering = Ord_Less | Ord_Equal | Ord_Greater

definition uppercase_currency :: "string \<Rightarrow> string" where
  "uppercase_currency written = to_uppercase written"

definition money_new :: "string \<Rightarrow> u64 \<Rightarrow> money" where
  "money_new c m = \<lparr>currency = to_uppercase c, micros = m\<rparr>"

text \<open>Deserialising reads both fields and upper-cases the code on the way in.\<close>

definition money_deserialize :: "string \<Rightarrow> u64 \<Rightarrow> money" where
  "money_deserialize c m = \<lparr>currency = uppercase_currency c, micros = m\<rparr>"

definition from_decimal_str :: "string \<Rightarrow> string \<Rightarrow> money option" where
  "from_decimal_str c decimal =
     (let (whole, fraction) =
        (case split_once (CHR ''.'') decimal of Some p \<Rightarrow> p | None \<Rightarrow> (decimal, []))
      in if whole = [] \<or> \<not> all_digits whole \<or> 6 < length fraction \<or> \<not> all_digits fraction
         then None
         else Option.bind
           (if fraction = [] then Some 0
            else parse_uint (fraction @ replicate (6 - length fraction) (CHR ''0'')))
           (\<lambda>fraction_micros. Option.bind (parse_uint whole)
           (\<lambda>w. Option.bind (checked_mul w 1000000)
           (\<lambda>units. Option.bind (checked_add units fraction_micros)
           (\<lambda>m. Some (money_new c m))))))"

definition pad_zeros :: "nat \<Rightarrow> string \<Rightarrow> string" where
  "pad_zeros w s = replicate (w - length s) (CHR ''0'') @ s"

definition as_decimal_string :: "money \<Rightarrow> string" where
  "as_decimal_string m =
     show_nat (unat (micros m div 1000000)) @ ''.'' @ pad_zeros 6 (show_nat (unat (micros m mod 1000000)))"

definition try_add :: "money \<Rightarrow> money \<Rightarrow> money option" where
  "try_add a b =
     (if currency a \<noteq> currency b then None
      else Option.bind (checked_add (micros a) (micros b))
        (\<lambda>m. Some \<lparr>currency = currency a, micros = m\<rparr>))"

definition cmp_u64 :: "u64 \<Rightarrow> u64 \<Rightarrow> ordering" where
  "cmp_u64 a b = (if a < b then Ord_Less else if a = b then Ord_Equal else Ord_Greater)"

definition money_compare :: "money \<Rightarrow> money \<Rightarrow> ordering option" where
  "money_compare a b = (if currency a = currency b then Some (cmp_u64 (micros a) (micros b)) else None)"

subsection \<open>The currency invariant\<close>

definition money_ok :: "money \<Rightarrow> bool" where
  "money_ok m \<longleftrightarrow> to_uppercase (currency m) = currency m"

lemma money_new_ok [simp]: "money_ok (money_new c m)"
  by (simp add: money_ok_def money_new_def)

lemma money_new_fields [simp]:
  "currency (money_new c m) = to_uppercase c" "micros (money_new c m) = m"
  by (simp_all add: money_new_def)

lemma money_new_own [simp]: "money_ok a \<Longrightarrow> currency (money_new (currency a) m) = currency a"
  by (simp add: money_ok_def)

lemma from_decimal_str_ok: "from_decimal_str c d = Some m \<Longrightarrow> money_ok m"
  by (auto simp: from_decimal_str_def Let_def Option.bind_eq_Some_conv split: if_splits prod.splits)

lemma money_deserialize_ok: "money_ok (money_deserialize c m)"
  by (simp add: money_deserialize_def uppercase_currency_def money_ok_def)

lemma try_add_ok: "try_add a b = Some m \<Longrightarrow> money_ok a \<Longrightarrow> money_ok m"
  by (auto simp: try_add_def money_ok_def Option.bind_eq_Some_conv split: if_splits)

subsection \<open>Reading decimal text\<close>

text \<open>The value a plain decimal states in millionth units, with no width: the reference the
  64-bit reader is compared with.\<close>

definition plain_decimal :: "string \<Rightarrow> nat option" where
  "plain_decimal d =
     (let (whole, fraction) =
        (case split_once (CHR ''.'') d of Some p \<Rightarrow> p | None \<Rightarrow> (d, []))
      in if whole \<noteq> [] \<and> all_digits whole \<and> length fraction \<le> 6 \<and> all_digits fraction
         then Some (digits_val whole * 1000000 + digits_val fraction * 10 ^ (6 - length fraction))
         else None)"

lemma padded_fraction:
  assumes "all_digits f" "length f \<le> 6"
  shows "(if f = [] then Some 0
          else parse_uint (f @ replicate (6 - length f) (CHR ''0'')) :: u64 option)
         = Some (of_nat (digits_val f * 10 ^ (6 - length f)))"
    and "digits_val f * 10 ^ (6 - length f) < 1000000"
proof -
  have pad: "all_digits (replicate (6 - length f) (CHR ''0''))"
    by (simp add: all_digits_def list_all_iff is_ascii_digit_def byte_of_def)
  have v: "digits_val (f @ replicate (6 - length f) (CHR ''0'')) = digits_val f * 10 ^ (6 - length f)"
    by (simp add: digits_val_append digits_val_replicate0)
  have "digits_val (f @ replicate (6 - length f) (CHR ''0'')) < 10 ^ length (f @ replicate (6 - length f) (CHR ''0''))"
    by (rule digits_val_lt) (use assms pad in simp)
  then show lt: "digits_val f * 10 ^ (6 - length f) < 1000000"
    using assms(2) by (simp add: v)
  show "(if f = [] then Some 0
          else parse_uint (f @ replicate (6 - length f) (CHR ''0'')) :: u64 option)
         = Some (of_nat (digits_val f * 10 ^ (6 - length f)))"
    using assms pad lt by (auto simp: parse_uint_digits v)
qed

lemma scaled_sum:
  fixes w f :: u64
  shows "Option.bind (checked_mul w 1000000) (\<lambda>u. Option.bind (checked_add u f) (\<lambda>m. Some (g m))) =
    (if unat w * 1000000 + unat f < 2 ^ 64
     then Some (g (of_nat (unat w * 1000000 + unat f))) else None)"
proof (cases "unat w * 1000000 < 2 ^ 64")
  case True
  then have m: "checked_mul w 1000000 = Some (w * 1000000)" "unat (w * 1000000) = unat w * 1000000"
    using unat_mul_exact [of w 1000000] by (simp_all add: checked_mul_def)
  show ?thesis
  proof (cases "unat w * 1000000 + unat f < 2 ^ 64")
    case True
    then have "checked_add (w * 1000000) f = Some (w * 1000000 + f)" by (simp add: checked_add_def m)
    with True m show ?thesis by simp
  next
    case False
    then have "checked_add (w * 1000000) f = None" by (simp add: checked_add_def m)
    with False m show ?thesis by simp
  qed
next
  case False
  then have "checked_mul w 1000000 = None" by (simp add: checked_mul_def)
  with False show ?thesis by simp
qed

lemma whole_and_fraction:
  assumes "all_digits w" "w \<noteq> []" "f < 1000000"
  shows "Option.bind (parse_uint w) (\<lambda>w. Option.bind (checked_mul w 1000000)
           (\<lambda>u. Option.bind (checked_add u (of_nat f)) (\<lambda>m. Some (g m)))) =
    (if digits_val w * 1000000 + f < 2 ^ 64
     then Some (g (of_nat (digits_val w * 1000000 + f) :: u64)) else None)"
proof (cases "digits_val w < 2 ^ 64")
  case True
  then have u: "unat (of_nat (digits_val w) :: u64) = digits_val w" "unat (of_nat f :: u64) = f"
    using assms(3) by (simp_all add: unat_of_nat_exact)
  from True have "(parse_uint w :: u64 option) = Some (of_nat (digits_val w))"
    by (simp add: parse_uint_digits assms)
  then show ?thesis by (simp only: Option.bind.simps scaled_sum u)
next
  case False
  then have "(parse_uint w :: u64 option) = None" by (simp add: parse_uint_digits assms)
  with False show ?thesis by simp
qed

lemma from_decimal_str_eq:
  "from_decimal_str c d =
     (case plain_decimal d of None \<Rightarrow> None
      | Some v \<Rightarrow> if v < 2 ^ 64 then Some (money_new c (of_nat v)) else None)"
proof -
  obtain w f where wf: "(case split_once (CHR ''.'') d of Some p \<Rightarrow> p | None \<Rightarrow> (d, [])) = (w, f)"
    by fastforce
  show ?thesis
  proof (cases "w \<noteq> [] \<and> all_digits w \<and> length f \<le> 6 \<and> all_digits f")
    case True
    then show ?thesis
      by (simp add: from_decimal_str_def plain_decimal_def wf padded_fraction whole_and_fraction
          del: of_nat_add of_nat_mult)
  next
    case False
    then show ?thesis
      by (auto simp: from_decimal_str_def plain_decimal_def wf)
  qed
qed

text \<open>
  C40. A decimal text is read exactly or not at all: the 64-bit reader returns the number of millionth units
  the text states when it is a plain decimal of at most six fractional digits whose value fits 64 bits, and
  nothing otherwise; the currency is upper case.
\<close>

theorem decimal_is_read_exactly:
  "from_decimal_str c d =
     (case plain_decimal d of None \<Rightarrow> None
      | Some v \<Rightarrow> if v < 2 ^ 64 then Some (money_new c (of_nat v)) else None)"
  by (rule from_decimal_str_eq)

subsection \<open>Printing and reading back\<close>

lemma length_show_nat_le: "n < 10 ^ k \<Longrightarrow> 0 < k \<Longrightarrow> length (show_nat n) \<le> k"
proof (induction k arbitrary: n)
  case 0
  then show ?case by simp
next
  case (Suc k)
  show ?case
  proof (cases "n < 10")
    case True
    then show ?thesis by (subst show_nat.simps) simp
  next
    case False
    then have "0 < k" using Suc.prems by (cases k) auto
    moreover have "n div 10 < 10 ^ k" using Suc.prems by simp
    ultimately have "length (show_nat (n div 10)) \<le> k" using Suc.IH by blast
    then show ?thesis using False by (subst show_nat.simps) simp
  qed
qed

lemma pad_zeros_digits:
  assumes "n < 10 ^ k" "0 < k"
  shows "length (pad_zeros k (show_nat n)) = k" "all_digits (pad_zeros k (show_nat n))"
    "digits_val (pad_zeros k (show_nat n)) = n"
proof -
  show "length (pad_zeros k (show_nat n)) = k"
    using length_show_nat_le [OF assms] by (simp add: pad_zeros_def)
  have "all_digits (replicate j (CHR ''0''))" for j
    by (simp add: all_digits_def list_all_iff is_ascii_digit_def byte_of_def)
  then show "all_digits (pad_zeros k (show_nat n))"
    by (simp add: pad_zeros_def show_nat_digits)
  show "digits_val (pad_zeros k (show_nat n)) = n"
    by (simp add: pad_zeros_def digits_val_append digits_val_replicate0)
qed

lemma plain_decimal_print: "plain_decimal (as_decimal_string m) = Some (unat (micros m))"
proof -
  let ?q = "unat (micros m div 1000000)" and ?r = "unat (micros m mod 1000000)"
  have r: "?r < 10 ^ 6" by (simp add: unat_mod)
  note pad = pad_zeros_digits [OF r, simplified]
  have "split_once (CHR ''.'') (as_decimal_string m) = Some (show_nat ?q, pad_zeros 6 (show_nat ?r))"
    using split_once_append [OF dot_not_digit [OF show_nat_digits [of ?q]]]
    by (simp add: as_decimal_string_def)
  then have "plain_decimal (as_decimal_string m) = Some (?q * 1000000 + ?r)"
    by (simp add: plain_decimal_def show_nat_digits pad)
  then show ?thesis by (simp add: unat_div unat_mod)
qed

text \<open>
  Printing an amount as a decimal and reading it back gives the amount, for every 64-bit count of units
  and every currency code the module can hold.
\<close>

theorem decimal_round_trip:
  "money_ok m \<Longrightarrow> from_decimal_str (currency m) (as_decimal_string m) = Some m"
  using unat_lt_len [of "micros m"]
  by (simp add: from_decimal_str_eq plain_decimal_print money_new_def money_ok_def)

lemma decimal_round_trip_witness:
  "from_decimal_str ''USD'' (as_decimal_string \<lparr>currency = ''USD'', micros = 7000\<rparr>)
     = Some \<lparr>currency = ''USD'', micros = 7000\<rparr>"
  using decimal_round_trip [of "\<lparr>currency = ''USD'', micros = 7000\<rparr>"]
  by (simp add: money_ok_def to_uppercase_def upper_char_def is_ascii_lower_def byte_of_def)

subsection \<open>Sums and comparisons\<close>

text \<open>
  Two amounts add up exactly or not at all: never across currencies and never past 64 bits.
\<close>

theorem try_add_is_exact:
  "try_add a b = Some c \<longleftrightarrow>
     currency a = currency b \<and> currency c = currency a \<and> unat (micros c) = unat (micros a) + unat (micros b)"
  by (cases c) (auto simp: try_add_def Option.bind_eq_Some_conv checked_add_Some_iff)

lemma money_compare_None_iff: "money_compare a b = None \<longleftrightarrow> currency a \<noteq> currency b"
  by (simp add: money_compare_def)

lemma money_compare_Greater_iff:
  "money_compare a b = Some Ord_Greater \<longleftrightarrow> currency a = currency b \<and> micros b < micros a"
  by (auto simp: money_compare_def cmp_u64_def)

lemma money_compare_antisym:
  "money_compare a b = Some Ord_Less \<longleftrightarrow> money_compare b a = Some Ord_Greater"
  by (auto simp: money_compare_def cmp_u64_def)

end
