(* ===== verification/Ruling.thy ===== *)
theory Ruling
  imports Money
begin

section \<open>Gaps, rulings and the text an agent reads\<close>

text \<open>
  \<open>crates/commonmeasure-runtime/src/agent_text.rs\<close>, the ruling type of
  \<open>crates/commonmeasure-runtime/src/policy.rs\<close>, and the gap and charge types of
  \<open>crates/commonmeasure-types\<close>. An agent text is kept as the parts it was built from, one
  constructor per door of the source's sealed \<open>Part\<close> trait, and rendered by \<open>as_str\<close>; the
  provenance of each part is then visible to the theorems. The locales state what policy
  checks share: a breach is always recorded with a gap, and the mode alone decides whether
  it refuses.
\<close>

subsection \<open>Agent text\<close>

datatype part =
    Fixed string
  | Given string
  | Number int
  | Instant int
  | Millis nat
  | Amount money

type_synonym agent_text = "part list"

definition trim_end_zeros :: "string \<Rightarrow> string" where
  "trim_end_zeros s = rev (dropWhile (\<lambda>c. c = CHR ''0'') (rev s))"

text \<open>Milliseconds as seconds for a reader, with up to three decimals.\<close>

definition seconds_text :: "nat \<Rightarrow> string" where
  "seconds_text ms =
     (let whole = ms div 1000; fraction = ms mod 1000
      in if fraction = 0 then show_nat whole
         else trim_end_zeros (show_nat whole @ ''.'' @ pad_zeros 3 (show_nat fraction)))"

definition show_int :: "int \<Rightarrow> string" where
  "show_int i = (if i < 0 then CHR ''-'' # show_nat (nat (- i)) else show_nat (nat i))"

definition three_letter_code :: "string \<Rightarrow> bool" where
  "three_letter_code c \<longleftrightarrow> length c = 3 \<and> list_all is_ascii_upper c"

definition amount_text :: "money \<Rightarrow> string" where
  "amount_text m =
     (if three_letter_code (currency m) then as_decimal_string m @ '' '' @ currency m
      else ''an amount in a currency that is not a three-letter code'')"

text \<open>\<open>rfc3339\<close> is \<open>DateTime::to_rfc3339\<close> of the chrono crate.\<close>

fun append_part :: "(int \<Rightarrow> string) \<Rightarrow> part \<Rightarrow> string" where
  "append_part rfc3339 (Fixed t) = t"
| "append_part rfc3339 (Given g) = g"
| "append_part rfc3339 (Number n) = show_int n"
| "append_part rfc3339 (Instant i) = rfc3339 i"
| "append_part rfc3339 (Millis ms) = seconds_text ms"
| "append_part rfc3339 (Amount m) = amount_text m"

definition as_str :: "(int \<Rightarrow> string) \<Rightarrow> agent_text \<Rightarrow> string" where
  "as_str rfc3339 t = concat (map (append_part rfc3339) t)"

definition fixed_text :: "string \<Rightarrow> agent_text" where
  "fixed_text t = [Fixed t]"

fun agent_list :: "agent_text list \<Rightarrow> string \<Rightarrow> agent_text" where
  "agent_list [] sep = []"
| "agent_list [item] sep = item"
| "agent_list (item # items) sep = item @ Fixed sep # agent_list items sep"

fun given_of :: "part \<Rightarrow> string option" where
  "given_of (Given g) = Some g"
| "given_of _ = None"

definition givens :: "agent_text \<Rightarrow> string set" where
  "givens t = {g. Given g \<in> set t}"

lemma givens_simps [simp]:
  "givens [] = {}" "givens (p # t) = (case given_of p of Some g \<Rightarrow> insert g (givens t) | None \<Rightarrow> givens t)"
  "givens (s @ t) = givens s \<union> givens t" "givens (fixed_text f) = {}"
  by (cases p; auto simp: givens_def fixed_text_def)+

lemma givens_agent_list: "givens (agent_list items sep) = (\<Union>i \<in> set items. givens i)"
  by (induction items sep rule: agent_list.induct) auto

text \<open>\<open>format!("{:?}")\<close> of a string: quotes around it, and the escapes of \<open>str\<close>'s
  \<open>Debug\<close> for ASCII text. Bytes of multi-byte characters are kept.\<close>

definition hex_digit :: "nat \<Rightarrow> char" where
  "hex_digit n = char_of (if n < 10 then 48 + n else 87 + n)"

definition debug_char :: "char \<Rightarrow> string" where
  "debug_char c =
     (let b = byte_of c
      in if b = 34 then [CHR 0x5C, CHR 0x22]
         else if b = 92 then [CHR 0x5C, CHR 0x5C]
         else if b = 10 then [CHR 0x5C, CHR ''n'']
         else if b = 13 then [CHR 0x5C, CHR ''r'']
         else if b = 9 then [CHR 0x5C, CHR ''t'']
         else if b = 0 then [CHR 0x5C, CHR ''0'']
         else if b < 16 then [CHR 0x5C, CHR ''u'', CHR 0x7B, hex_digit b, CHR 0x7D]
         else if b < 32 \<or> b = 127
           then [CHR 0x5C, CHR ''u'', CHR 0x7B, hex_digit (b div 16), hex_digit (b mod 16), CHR 0x7D]
         else [c])"

definition debug_str :: "string \<Rightarrow> string" where
  "debug_str s = CHR 0x22 # concat (map debug_char s) @ [CHR 0x22]"

subsection \<open>Gaps and charges\<close>

datatype gap_reason =
    ProviderUnavailable
  | CapabilityUnavailable
  | PolicyRefused
  | BudgetExhausted
  | EvidenceMissing
  | CoverageGap
  | InferenceUnavailable
  | WriteFailed

record gap =
  gap_reason :: gap_reason
  gap_detail :: string

definition gap_new :: "gap_reason \<Rightarrow> string \<Rightarrow> gap" where
  "gap_new r d = \<lparr>gap_reason = r, gap_detail = d\<rparr>"

datatype charge_basis = Observed | Quoted

text \<open>\<open>native_amount\<close> is the provider's own number as it was written.\<close>

record native_charge =
  native_unit :: string
  native_amount :: string
  native_basis :: charge_basis
  native_note :: "string option"

record acquisition_charge =
  charge_money :: "money option"
  charge_native :: "native_charge option"

subsection \<open>Rulings\<close>

datatype policy_mode = Observe | Prefer | Strict

datatype ruling =
    Allowed
  | Refused string agent_text gap
  | AllowedWithBreach string agent_text gap

fun is_refusal :: "ruling \<Rightarrow> bool" where
  "is_refusal (Refused _ _ _) = True"
| "is_refusal _ = False"

fun ruling_gap :: "ruling \<Rightarrow> gap option" where
  "ruling_gap Allowed = None"
| "ruling_gap (Refused _ _ g) = Some g"
| "ruling_gap (AllowedWithBreach _ _ g) = Some g"

fun ruling_reason :: "ruling \<Rightarrow> string option" where
  "ruling_reason Allowed = None"
| "ruling_reason (Refused r _ _) = Some r"
| "ruling_reason (AllowedWithBreach r _ _) = Some r"

fun ruling_agent_reason :: "ruling \<Rightarrow> agent_text option" where
  "ruling_agent_reason Allowed = None"
| "ruling_agent_reason (Refused _ a _) = Some a"
| "ruling_agent_reason (AllowedWithBreach _ a _) = Some a"

fun breach :: "policy_mode \<Rightarrow> string \<Rightarrow> agent_text \<Rightarrow> gap \<Rightarrow> ruling" where
  "breach Strict r a g = Refused r a g"
| "breach Prefer r a g = AllowedWithBreach r a g"
| "breach Observe r a g = AllowedWithBreach r a g"

lemma breach_simps [simp]:
  "breach m r a g \<noteq> Allowed"
  "is_refusal (breach m r a g) \<longleftrightarrow> m = Strict"
  "ruling_gap (breach m r a g) = Some g"
  "ruling_reason (breach m r a g) = Some r"
  "ruling_agent_reason (breach m r a g) = Some a"
  by (cases m; simp)+

lemma ruling_gap_None_iff [simp]: "ruling_gap r = None \<longleftrightarrow> r = Allowed"
  by (cases r) auto

subsection \<open>What policy checks promise\<close>

text \<open>A check whose every departure from \<open>Allowed\<close> is recorded, and which refuses in
  strict mode alone.\<close>

locale recorded_check =
  fixes check :: "policy_mode \<Rightarrow> ruling"
  assumes refuses_only_strict: "is_refusal (check m) \<Longrightarrow> m = Strict"
begin

lemma observe_carries: "\<not> is_refusal (check Observe)"
  using refuses_only_strict [of Observe] by blast

lemma prefer_carries: "\<not> is_refusal (check Prefer)"
  using refuses_only_strict [of Prefer] by blast

lemma departure_has_gap: "check m \<noteq> Allowed \<Longrightarrow> \<exists>g. ruling_gap (check m) = Some g"
  by (cases "check m") auto

end

text \<open>A check that finds a breach or none without reading the mode, and hands it to
  \<open>breach\<close>.\<close>

definition enforce :: "policy_mode \<Rightarrow> (string \<times> agent_text \<times> gap) option \<Rightarrow> ruling" where
  "enforce m found = (case found of None \<Rightarrow> Allowed | Some (r, a, g) \<Rightarrow> breach m r a g)"

lemma enforce_simps [simp]:
  "enforce m None = Allowed" "enforce m (Some (r, a, g)) = breach m r a g"
  by (simp_all add: enforce_def)

locale moded_check =
  fixes check :: "policy_mode \<Rightarrow> ruling"
    and found :: "(string \<times> agent_text \<times> gap) option"
  assumes by_mode: "check m = enforce m found"
begin

lemma strict_refuses_iff: "is_refusal (check Strict) \<longleftrightarrow> found \<noteq> None"
  by (simp add: by_mode enforce_def split: option.splits)

lemma allowed_in_every_mode: "check m = Allowed \<longleftrightarrow> check m' = Allowed"
  by (simp add: by_mode enforce_def split: option.splits)

lemma same_record:
  "ruling_gap (check m) = ruling_gap (check m')"
  "ruling_reason (check m) = ruling_reason (check m')"
  "ruling_agent_reason (check m) = ruling_agent_reason (check m')"
  by (auto simp: by_mode enforce_def split: option.splits)

lemma refusal_iff: "is_refusal (check m) \<longleftrightarrow> m = Strict \<and> check Observe \<noteq> Allowed"
  by (auto simp: by_mode enforce_def split: option.splits)

end

sublocale moded_check \<subseteq> recorded_check check
  by unfold_locales (simp add: refusal_iff)

end
