(* ===== verification/Job.thy ===== *)
theory Job
  imports Ruling "HOL-Library.List_Lexorder"
begin

section \<open>Jobs, constraints and host patterns\<close>

text \<open>
  \<open>crates/commonmeasure-types/src/job.rs\<close>, the part an operator writes: the constraints of a
  job, host patterns and the normal form hosts are compared in, release-signer keys, and the
  validation that refuses a job whose policy contradicts itself. The url crate's
  \<open>Url::parse(..).host_str()\<close> and the base64 crate's decoder are arguments. An objective's
  weights are IEEE 754 doubles, kept as their 64 bits.
\<close>

subsection \<open>Hosts and host patterns\<close>

type_synonym url_host = "string \<Rightarrow> string option"

definition trim_end_dots :: "string \<Rightarrow> string" where
  "trim_end_dots s = rev (dropWhile (\<lambda>c. c = CHR ''.'') (rev s))"

definition parsed_host :: "url_host \<Rightarrow> string \<Rightarrow> string option" where
  "parsed_host url_host entry =
     (case url_host (''https://'' @ trim entry @ ''/'') of
        None \<Rightarrow> None
      | Some h \<Rightarrow> (let host = trim_end_dots h in if host = [] then None else Some host))"

definition normalised_host :: "url_host \<Rightarrow> string \<Rightarrow> string" where
  "normalised_host url_host entry =
     (case parsed_host url_host entry of Some h \<Rightarrow> h | None \<Rightarrow> to_lowercase (trim entry))"

record host_pattern =
  hp_host :: string
  hp_wildcard :: bool

definition pattern_parse :: "url_host \<Rightarrow> string \<Rightarrow> string + host_pattern" where
  "pattern_parse url_host pattern =
     (let written = trim pattern
      in if written = [] then Inl ''an access rule's host pattern cannot be empty''
         else if written = ''*'' then Inr \<lparr>hp_host = [], hp_wildcard = True\<rparr>
         else
           (let (wildcard, host) = (case strip_prefix ''*.'' written of Some r \<Rightarrow> (True, r) | None \<Rightarrow> (False, written))
            in if CHR ''*'' \<in> set host then
                 Inl (''access rule host pattern '' @ debug_str written
                   @ '' is not a host, \"*.host\" or \"*\"; a wildcard stands only at the front'')
               else (case parsed_host url_host host of
                   None \<Rightarrow> Inl (''access rule host pattern '' @ debug_str written @ '' does not name a host'')
                 | Some h \<Rightarrow> Inr \<lparr>hp_host = h, hp_wildcard = wildcard\<rparr>)))"

definition pattern_matches :: "host_pattern \<Rightarrow> string \<Rightarrow> bool" where
  "pattern_matches p host =
     (if host = [] then False
      else if \<not> hp_wildcard p then host = hp_host p
      else if hp_host p = [] then True
      else host = hp_host p \<or>
        (case strip_suffix (hp_host p) host of
           None \<Rightarrow> False
         | Some prefix \<Rightarrow> prefix \<noteq> [] \<and> last prefix = CHR ''.''))"

definition as_written :: "host_pattern \<Rightarrow> string" where
  "as_written p =
     (if hp_wildcard p then (if hp_host p = [] then ''*'' else ''*.'' @ hp_host p) else hp_host p)"

subsection \<open>Release signers\<close>

datatype signer_key = SignerKey "u8 list"

instantiation signer_key :: linorder
begin

fun less_eq_signer_key :: "signer_key \<Rightarrow> signer_key \<Rightarrow> bool" where
  "less_eq_signer_key (SignerKey a) (SignerKey b) \<longleftrightarrow> a \<le> b"

definition less_signer_key :: "signer_key \<Rightarrow> signer_key \<Rightarrow> bool" where
  "less_signer_key a b \<longleftrightarrow> a \<le> b \<and> \<not> b \<le> a"

instance
proof
  fix a b c :: signer_key
  show "a < b \<longleftrightarrow> a \<le> b \<and> \<not> b \<le> a" by (rule less_signer_key_def)
  show "a \<le> a" by (cases a) simp
  show "a \<le> b \<Longrightarrow> b \<le> c \<Longrightarrow> a \<le> c" by (cases a; cases b; cases c) auto
  show "a \<le> b \<Longrightarrow> b \<le> a \<Longrightarrow> a = b" by (cases a; cases b) auto
  show "a \<le> b \<or> b \<le> a" by (cases a; cases b) (auto simp: linear)
qed

end

definition signer_key_parse :: "(string \<Rightarrow> u8 list option) \<Rightarrow> string \<Rightarrow> string + signer_key" where
  "signer_key_parse b64_decode written =
     (case b64_decode written of
        Some bytes \<Rightarrow>
          (if length bytes = 32 then Inr (SignerKey bytes)
           else Inl (''release_signer key '' @ debug_str written
             @ '' is not an Ed25519 public key: 32 bytes in standard base64''))
      | None \<Rightarrow> Inl (''release_signer key '' @ debug_str written
             @ '' is not an Ed25519 public key: 32 bytes in standard base64''))"

definition non_empty_keys :: "signer_key list \<Rightarrow> string + signer_key list" where
  "non_empty_keys keys =
     (if keys = [] then Inl ''a release_signer term must name at least one key'' else Inr keys)"

subsection \<open>Constraints\<close>

datatype access_action = Allow | Refuse | RequireLicence string | RequireMediation

fun action_str :: "access_action \<Rightarrow> string" where
  "action_str Allow = ''allow''"
| "action_str Refuse = ''refuse''"
| "action_str (RequireLicence _) = ''require_licence''"
| "action_str RequireMediation = ''require_mediation''"

fun action_validate :: "access_action \<Rightarrow> string + unit" where
  "action_validate (RequireLicence licence) =
     (if trim licence = [] then Inl ''a require_licence access rule must name the licence it requires'' else Inr ())"
| "action_validate _ = Inr ()"

datatype constraint =
    ProcessorEgress string string
  | AllowedProvider string
  | DeniedProvider string
  | AllowedSourceProvider string
  | AllowedSourceHost string
  | DeniedSourceHost string
  | RequiredLicence string
  | MaximumAcquisitionCost money
  | MaximumContextTokens u64
  | MaximumLatencyMs u64
  | AccessRule host_pattern access_action
  | ReleaseSigner host_pattern "signer_key list"

fun signer_term :: "string \<Rightarrow> constraint \<Rightarrow> (host_pattern \<times> signer_key list) option" where
  "signer_term host (ReleaseSigner p keys) = (if pattern_matches p host then Some (p, keys) else None)"
| "signer_term host _ = None"

fun find_map :: "('a \<Rightarrow> 'b option) \<Rightarrow> 'a list \<Rightarrow> 'b option" where
  "find_map f [] = None"
| "find_map f (x # xs) = (case f x of Some y \<Rightarrow> Some y | None \<Rightarrow> find_map f xs)"

definition release_signer_for :: "constraint list \<Rightarrow> string \<Rightarrow> (host_pattern \<times> signer_key list) option" where
  "release_signer_for constraints host = find_map (signer_term host) constraints"

subsection \<open>Jobs\<close>

type_synonym f64 = "64 word"

text \<open>\<open>w < 0.0\<close> on the bits of a double: the sign is set, the rest is not zero and not past
  the infinity's, which a NaN's is.\<close>

definition f64_negative :: "f64 \<Rightarrow> bool" where
  "f64_negative w \<longleftrightarrow> (let m = unat w mod 2 ^ 63 in 2 ^ 63 \<le> unat w \<and> m \<noteq> 0 \<and> m \<le> 2047 * 2 ^ 52)"

datatype objective =
    MaximiseQuality
  | MinimiseCost
  | MinimiseLatency
  | Weighted f64 f64 f64 f64 f64 f64

record evidence_requirement =
  er_description :: string
  er_required :: bool

record context_job =
  job_id :: nat
  job_kind :: string
  job_prompt :: string
  job_mode :: policy_mode
  job_objective :: objective
  job_constraints :: "constraint list"
  job_evidence :: "evidence_requirement list"

datatype job_error =
    EmptyKind
  | EmptyPrompt
  | ConflictingProviderPolicy string
  | ConflictingSourcePolicy string
  | MixedBudgetCurrencies
  | DuplicateConstraint string
  | NegativeObjectiveWeight string
  | InvalidAccessRule nat string

fun allowed_provider_of where
  "allowed_provider_of (AllowedProvider p) = Some p" | "allowed_provider_of _ = None"
fun denied_provider_of where
  "denied_provider_of (DeniedProvider p) = Some p" | "denied_provider_of _ = None"
fun allowed_host_of where
  "allowed_host_of (AllowedSourceHost h) = Some h" | "allowed_host_of _ = None"
fun denied_host_of where
  "denied_host_of (DeniedSourceHost h) = Some h" | "denied_host_of _ = None"
fun cost_of where
  "cost_of (MaximumAcquisitionCost m) = Some m" | "cost_of _ = None"
fun tokens_of where
  "tokens_of (MaximumContextTokens t) = Some t" | "tokens_of _ = None"
fun latency_of where
  "latency_of (MaximumLatencyMs m) = Some m" | "latency_of _ = None"
fun licence_of where
  "licence_of (RequiredLicence l) = Some l" | "licence_of _ = None"

definition allowed_providers :: "context_job \<Rightarrow> string list" where
  "allowed_providers job = List.map_filter allowed_provider_of (job_constraints job)"

definition denied_providers :: "context_job \<Rightarrow> string list" where
  "denied_providers job = List.map_filter denied_provider_of (job_constraints job)"

definition allowed_source_hosts :: "context_job \<Rightarrow> string list" where
  "allowed_source_hosts job = List.map_filter allowed_host_of (job_constraints job)"

definition denied_source_hosts :: "context_job \<Rightarrow> string list" where
  "denied_source_hosts job = List.map_filter denied_host_of (job_constraints job)"

definition required_licences :: "context_job \<Rightarrow> string list" where
  "required_licences job = List.map_filter licence_of (job_constraints job)"

definition maximum_acquisition_cost :: "context_job \<Rightarrow> money option" where
  "maximum_acquisition_cost job = find_map cost_of (job_constraints job)"

definition maximum_context_tokens :: "context_job \<Rightarrow> u64 option" where
  "maximum_context_tokens job = find_map tokens_of (job_constraints job)"

definition maximum_latency_ms :: "context_job \<Rightarrow> u64 option" where
  "maximum_latency_ms job = find_map latency_of (job_constraints job)"

definition allows_provider_sources :: "context_job \<Rightarrow> string \<Rightarrow> bool" where
  "allows_provider_sources job provider \<longleftrightarrow>
     list_ex (\<lambda>c. c = AllowedSourceProvider provider) (job_constraints job) \<and>
     \<not> list_ex (\<lambda>d. d = provider) (denied_providers job) \<and>
     (allowed_providers job = [] \<or> list_ex (\<lambda>a. a = provider) (allowed_providers job))"

fun access_rule_at :: "nat \<times> constraint \<Rightarrow> (nat \<times> host_pattern \<times> access_action) option" where
  "access_rule_at (i, AccessRule p a) = Some (i, p, a)"
| "access_rule_at _ = None"

definition access_rules :: "context_job \<Rightarrow> (nat \<times> host_pattern \<times> access_action) list" where
  "access_rules job = List.map_filter access_rule_at (List.enumerate 0 (job_constraints job))"

definition access_rule_for :: "context_job \<Rightarrow> string \<Rightarrow> (nat \<times> host_pattern \<times> access_action) option" where
  "access_rule_for job host = find (\<lambda>(_, p, _). pattern_matches p host) (access_rules job)"

subsection \<open>Validation\<close>

definition weight_names :: "objective \<Rightarrow> (string \<times> f64) list" where
  "weight_names o1 = (case o1 of
      Weighted q c f k l r \<Rightarrow> [(''quality'', q), (''coverage'', c), (''freshness'', f), (''cost'', k),
        (''latency'', l), (''policy_risk'', r)]
    | _ \<Rightarrow> [])"

fun scalar_name :: "constraint \<Rightarrow> string option" where
  "scalar_name (MaximumAcquisitionCost _) = Some ''maximum_acquisition_cost''"
| "scalar_name (MaximumContextTokens _) = Some ''maximum_context_tokens''"
| "scalar_name (MaximumLatencyMs _) = Some ''maximum_latency_ms''"
| "scalar_name _ = None"

fun check_weights :: "(string \<times> f64) list \<Rightarrow> job_error + unit" where
  "check_weights [] = Inr ()"
| "check_weights ((name, w) # ws) = (if f64_negative w then Inl (NegativeObjectiveWeight name) else check_weights ws)"

text \<open>The validation loop over the constraints, with the budget's currency and the scalar
  kinds seen so far.\<close>

fun check_constraints :: "nat \<Rightarrow> string option \<Rightarrow> string list \<Rightarrow> constraint list \<Rightarrow> job_error + unit" where
  "check_constraints i budget declared [] = Inr ()"
| "check_constraints i budget declared (c # cs) =
     (case (case c of AccessRule _ a \<Rightarrow> action_validate a | _ \<Rightarrow> Inr ()) of
        Inl reason \<Rightarrow> Inl (InvalidAccessRule i reason)
      | Inr _ \<Rightarrow>
          (case (case c of MaximumAcquisitionCost m \<Rightarrow>
                   (case budget of Some cur \<Rightarrow> if cur \<noteq> currency m then Inl MixedBudgetCurrencies else Inr budget
                    | None \<Rightarrow> Inr (Some (currency m)))
                 | _ \<Rightarrow> Inr budget) of
             Inl e \<Rightarrow> Inl e
           | Inr budget' \<Rightarrow>
               (case scalar_name c of
                  None \<Rightarrow> check_constraints (Suc i) budget' declared cs
                | Some name \<Rightarrow>
                    if name \<in> set declared then Inl (DuplicateConstraint name)
                    else check_constraints (Suc i) budget' (declared @ [name]) cs)))"

definition validate_job :: "context_job \<Rightarrow> job_error + unit" where
  "validate_job job =
     (if trim (job_kind job) = [] then Inl EmptyKind
      else if trim (job_prompt job) = [] then Inl EmptyPrompt
      else res_bind (check_weights (weight_names (job_objective job))) (\<lambda>_.
        res_bind (check_constraints 0 None [] (job_constraints job)) (\<lambda>_.
          case find (\<lambda>p. p \<in> set (denied_providers job)) (allowed_providers job) of
            Some p \<Rightarrow> Inl (ConflictingProviderPolicy p)
          | None \<Rightarrow>
              (case find (\<lambda>h. h \<in> set (denied_source_hosts job)) (allowed_source_hosts job) of
                 Some h \<Rightarrow> Inl (ConflictingSourcePolicy h)
               | None \<Rightarrow> Inr ()))))"

subsection \<open>What a pattern matches\<close>

lemma trim_end_dots_idem [simp]: "trim_end_dots (trim_end_dots s) = trim_end_dots s"
  by (simp add: trim_end_dots_def)

text \<open>
  A pattern matches exactly its own host, for a wildcard also every host beneath it (a label boundary
  before the suffix, so no sibling that merely ends alike), every host for the bare star, and never the
  absence of a host.
\<close>

theorem pattern_matches_exactly:
  "pattern_matches p host = (host \<noteq> [] \<and>
     (host = hp_host p \<or> (hp_wildcard p \<and> (hp_host p = [] \<or> (\<exists>sub. host = sub @ ''.'' @ hp_host p)))))"
proof -
  have "(\<exists>pre. host = pre @ hp_host p \<and> pre \<noteq> [] \<and> last pre = CHR ''.'') \<longleftrightarrow> (\<exists>sub. host = sub @ ''.'' @ hp_host p)"
  proof
    assume "\<exists>pre. host = pre @ hp_host p \<and> pre \<noteq> [] \<and> last pre = CHR ''.''"
    then obtain pre where "host = pre @ hp_host p" "pre \<noteq> []" "last pre = CHR ''.''" by blast
    then have "host = butlast pre @ ''.'' @ hp_host p" by (metis append.assoc append_butlast_last_id)
    then show "\<exists>sub. host = sub @ ''.'' @ hp_host p" by blast
  next
    assume "\<exists>sub. host = sub @ ''.'' @ hp_host p"
    then obtain sub where "host = (sub @ ''.'') @ hp_host p" by auto
    then show "\<exists>pre. host = pre @ hp_host p \<and> pre \<noteq> [] \<and> last pre = CHR ''.''"
      by (intro exI [of _ "sub @ ''.''"]) simp
  qed
  moreover have "(case strip_suffix (hp_host p) host of None \<Rightarrow> False
      | Some pre \<Rightarrow> pre \<noteq> [] \<and> last pre = CHR ''.'') \<longleftrightarrow>
      (\<exists>pre. host = pre @ hp_host p \<and> pre \<noteq> [] \<and> last pre = CHR ''.'')"
    by (auto simp: strip_suffix_Some_iff split: option.splits)
      (metis option.distinct(1) strip_suffix_Some_iff)
  ultimately show ?thesis by (simp add: pattern_matches_def)
qed

text \<open>What \<open>Url::host_str\<close> promises of a host it returned: written into a URL again, without
  trailing dots, it is parsed to itself, and it holds no star and no space.\<close>

definition stable_hosts :: "url_host \<Rightarrow> bool" where
  "stable_hosts url_host \<longleftrightarrow> (\<forall>u h. url_host u = Some h \<longrightarrow>
     (let host = trim_end_dots h in host \<noteq> [] \<longrightarrow>
        url_host (''https://'' @ host @ ''/'') = Some host \<and> trim host = host \<and>
        strip_prefix ''*.'' host = None \<and> CHR ''*'' \<notin> set host))"

lemma parsed_host_stable:
  assumes "stable_hosts url_host" "parsed_host url_host e = Some h"
  shows "parsed_host url_host h = Some h" "trim h = h" "h \<noteq> []" "CHR ''*'' \<notin> set h"
    "strip_prefix ''*.'' h = None"
proof -
  from assms(2) obtain g where g: "url_host (''https://'' @ trim e @ ''/'') = Some g" "h = trim_end_dots g" "h \<noteq> []"
    by (auto simp: parsed_host_def Let_def split: option.splits if_splits)
  then have "url_host (''https://'' @ h @ ''/'') = Some h \<and> trim h = h \<and> strip_prefix ''*.'' h = None \<and> CHR ''*'' \<notin> set h"
    using assms(1) [unfolded stable_hosts_def, THEN spec, THEN spec, THEN mp, OF g(1)] by (simp add: Let_def)
  with g(3) show "parsed_host url_host h = Some h" "trim h = h" "h \<noteq> []" "CHR ''*'' \<notin> set h" "strip_prefix ''*.'' h = None"
    by (simp_all add: parsed_host_def Let_def g(2))
qed

lemma trim_last: "trim h \<noteq> [] \<Longrightarrow> \<not> is_space (last (trim h))"
  by (simp add: trim_def last_rev hd_dropWhile)

lemma trim_star: "trim h = h \<Longrightarrow> h \<noteq> [] \<Longrightarrow> trim (''*.'' @ h) = ''*.'' @ h"
proof -
  assume h: "trim h = h" "h \<noteq> []"
  from trim_last [of h] h have "\<not> is_space (last h)" by simp
  then have "dropWhile is_space (rev h @ ''.*'') = rev h @ ''.*''" using h(2) by (cases h rule: rev_cases) auto
  moreover have "dropWhile is_space (''*.'' @ h) = ''*.'' @ h" by (simp add: is_space_def byte_of_def)
  ultimately show ?thesis by (simp add: trim_def)
qed



subsection \<open>First match wins\<close>

lemma find_map_Some_iff:
  "find_map f xs = Some y \<longleftrightarrow> (\<exists>i < length xs. f (xs ! i) = Some y \<and> (\<forall>j < i. f (xs ! j) = None))"
proof (induction xs)
  case (Cons x xs)
  show ?case
  proof (cases "f x")
    case None
    with Cons show ?thesis by (simp add: Ex_less_Suc2 All_less_Suc2)
  next
    case (Some z)
    then show ?thesis by (simp add: Ex_less_Suc2 All_less_Suc2)
  qed
qed simp

lemma find_map_None_iff: "find_map f xs = None \<longleftrightarrow> (\<forall>x \<in> set xs. f x = None)"
  by (induction xs) (auto split: option.splits)

lemma find_map_filter: "find P (List.map_filter f xs) = find_map (\<lambda>x. case f x of Some y \<Rightarrow> if P y then Some y else None | None \<Rightarrow> None) xs"
  by (induction xs) (auto simp: List.map_filter_def split: option.splits)

fun rule_matching :: "string \<Rightarrow> constraint \<Rightarrow> access_action option" where
  "rule_matching host (AccessRule p a) = (if pattern_matches p host then Some a else None)"
| "rule_matching host _ = None"

text \<open>
  Among access rules the first whose pattern matches decides, whatever stands between them: the
  rule chosen is a matching rule at the index reported, and no rule before it matches.
\<close>

theorem first_access_rule_decides:
  "access_rule_for job host = Some (i, p, a) \<longleftrightarrow>
     i < length (job_constraints job) \<and> job_constraints job ! i = AccessRule p a \<and> pattern_matches p host \<and>
     list_all (\<lambda>c. rule_matching host c = None) (take i (job_constraints job))"
proof -
  let ?f = "\<lambda>ic. case access_rule_at ic of Some y \<Rightarrow> if pattern_matches (fst (snd y)) host then Some y else None | None \<Rightarrow> None"
  have f: "?f (n, c) = (case rule_matching host c of None \<Rightarrow> None | Some a \<Rightarrow> access_rule_at (n, c))" for n c
    by (cases c) auto
  have rm: "(?f (n, c) = Some (m, p, a)) = (m = n \<and> c = AccessRule p a \<and> pattern_matches p host)" for n c m
    by (cases c) auto
  have none: "(?f (n, c) = None) = (rule_matching host c = None)" for n c
    by (cases c) auto
  let ?cs = "job_constraints job"
  have "access_rule_for job host = find_map ?f (List.enumerate 0 ?cs)"
    by (simp add: access_rule_for_def access_rules_def find_map_filter case_prod_beta')
  also have "(\<dots> = Some (i, p, a)) \<longleftrightarrow> (\<exists>k < length ?cs. ?f (k, ?cs ! k) = Some (i, p, a) \<and>
      (\<forall>j < k. ?f (j, ?cs ! j) = None))"
    by (simp add: find_map_Some_iff nth_enumerate_eq cong: conj_cong)
  also have "\<dots> \<longleftrightarrow> (i < length ?cs \<and> ?cs ! i = AccessRule p a \<and> pattern_matches p host \<and>
      (\<forall>j < i. rule_matching host (?cs ! j) = None))"
    unfolding rm none by blast
  finally show ?thesis by (auto simp: list_all_length)
qed

text \<open>
  The keys a host's signed releases are checked against are those of the first release_signer term
  that matches it; with no matching term there are none.
\<close>

theorem first_release_signer_decides:
  "release_signer_for cs host = (case dropWhile (\<lambda>c. signer_term host c = None) cs of
      [] \<Rightarrow> None | c # _ \<Rightarrow> signer_term host c) \<and>
   (release_signer_for cs host = Some (p, keys) \<longleftrightarrow>
      (\<exists>before after. cs = before @ ReleaseSigner p keys # after \<and> pattern_matches p host \<and>
         list_all (\<lambda>c. signer_term host c = None) before))"
proof
  show "release_signer_for cs host = (case dropWhile (\<lambda>c. signer_term host c = None) cs of
      [] \<Rightarrow> None | c # _ \<Rightarrow> signer_term host c)"
    unfolding release_signer_for_def by (induction cs) (auto split: option.splits)
  have st: "signer_term host c = Some (p, keys) \<longleftrightarrow> c = ReleaseSigner p keys \<and> pattern_matches p host" for c
    by (cases c) auto
  show "release_signer_for cs host = Some (p, keys) \<longleftrightarrow>
      (\<exists>before after. cs = before @ ReleaseSigner p keys # after \<and> pattern_matches p host \<and>
         list_all (\<lambda>c. signer_term host c = None) before)"
    unfolding release_signer_for_def
  proof (induction cs)
    case (Cons c cs)
    show ?case
    proof (cases "signer_term host c")
      case None
      then have ne: "c \<noteq> ReleaseSigner p keys \<or> \<not> pattern_matches p host" using st [of c] by auto
      have "(\<exists>before after. c # cs = before @ ReleaseSigner p keys # after \<and> pattern_matches p host \<and>
           list_all (\<lambda>c. signer_term host c = None) before) \<longleftrightarrow>
         (\<exists>before after. cs = before @ ReleaseSigner p keys # after \<and> pattern_matches p host \<and>
           list_all (\<lambda>c. signer_term host c = None) before)" (is "?l \<longleftrightarrow> ?r")
      proof
        assume ?r
        then obtain before after where "cs = before @ ReleaseSigner p keys # after" "pattern_matches p host"
          "list_all (\<lambda>c. signer_term host c = None) before" by blast
        then show ?l using None by (intro exI [of _ "c # before"] exI [of _ after]) simp
      qed (use ne in \<open>auto simp: Cons_eq_append_conv\<close>)
      then show ?thesis using Cons None by simp
    next
      case (Some y)
      with st [of c] show ?thesis by (auto simp: Cons_eq_append_conv)
    qed
  qed simp
qed

subsection \<open>What validation accepts\<close>

lemma check_weights_ok: "check_weights ws = Inr () \<longleftrightarrow> list_all (\<lambda>(n, w). \<not> f64_negative w) ws"
  by (induction ws rule: check_weights.induct) auto

lemma map_filter_Cons:
  "List.map_filter f (x # xs) = (case f x of None \<Rightarrow> List.map_filter f xs | Some y \<Rightarrow> y # List.map_filter f xs)"
  by (simp add: List.map_filter_def split: option.splits)

lemma check_constraints_ok:
  assumes "distinct declared" "budget = None \<longleftrightarrow> ''maximum_acquisition_cost'' \<notin> set declared"
  shows "check_constraints i budget declared cs = Inr () \<longleftrightarrow>
    list_all (\<lambda>c. case c of AccessRule _ a \<Rightarrow> action_validate a = Inr () | _ \<Rightarrow> True) cs \<and>
    distinct (declared @ List.map_filter scalar_name cs)"
  using assms
proof (induction cs arbitrary: i budget declared)
  case Nil
  then show ?case by (simp add: List.map_filter_def)
next
  case (Cons c cs)
  show ?case
  proof (cases c)
    case (MaximumAcquisitionCost m)
    show ?thesis
    proof (cases budget)
      case None
      with Cons.prems have "''maximum_acquisition_cost'' \<notin> set declared" by simp
      with Cons.IH [of "declared @ [''maximum_acquisition_cost'']" "Some (currency m)" "Suc i"] Cons.prems None
      show ?thesis by (simp add: MaximumAcquisitionCost map_filter_Cons)
    next
      case (Some cur)
      with Cons.prems show ?thesis by (simp add: MaximumAcquisitionCost map_filter_Cons)
    qed
  next
    case (MaximumContextTokens t)
    with Cons.IH [of "declared @ [''maximum_context_tokens'']" budget "Suc i"] Cons.prems
    show ?thesis by (simp add: map_filter_Cons)
  next
    case (MaximumLatencyMs t)
    with Cons.IH [of "declared @ [''maximum_latency_ms'']" budget "Suc i"] Cons.prems
    show ?thesis by (simp add: map_filter_Cons)
  next
    case (AccessRule p a)
    with Cons.IH [of declared budget "Suc i"] Cons.prems show ?thesis
      by (simp add: map_filter_Cons split: sum.splits)
  qed (use Cons.IH [of declared budget "Suc i"] Cons.prems in \<open>simp_all add: map_filter_Cons\<close>)
qed

text \<open>
  Validation accepts a job exactly when its kind and prompt say something, no objective weight is
  negative, every access rule can be met as written, no cap, token ceiling or latency ceiling is declared
  twice, and no provider and no source host is written both as allowed and as denied.
\<close>

theorem validate_accepts_exactly:
  "validate_job job = Inr () \<longleftrightarrow>
     trim (job_kind job) \<noteq> [] \<and> trim (job_prompt job) \<noteq> [] \<and>
     list_all (\<lambda>(_, w). \<not> f64_negative w) (weight_names (job_objective job)) \<and>
     list_all (\<lambda>c. case c of AccessRule _ a \<Rightarrow> action_validate a = Inr () | _ \<Rightarrow> True) (job_constraints job) \<and>
     distinct (List.map_filter scalar_name (job_constraints job)) \<and>
     set (allowed_providers job) \<inter> set (denied_providers job) = {} \<and>
     set (allowed_source_hosts job) \<inter> set (denied_source_hosts job) = {}"
proof -
  have conflict: "(case find (\<lambda>p. p \<in> ds) as of Some p \<Rightarrow> Inl (e p) | None \<Rightarrow> r) = Inr () \<longleftrightarrow>
      set as \<inter> ds = {} \<and> r = Inr ()" for ds and as :: "string list" and e :: "string \<Rightarrow> job_error" and r
    by (induction as) auto
  have cc: "check_constraints 0 None [] (job_constraints job) = Inr () \<longleftrightarrow>
    list_all (\<lambda>c. case c of AccessRule _ a \<Rightarrow> action_validate a = Inr () | _ \<Rightarrow> True) (job_constraints job) \<and>
    distinct (List.map_filter scalar_name (job_constraints job))"
    using check_constraints_ok [of "[]" None 0] by simp
  show ?thesis
    by (simp add: validate_job_def res_bind_Inr_iff check_weights_ok cc conflict)
qed

end
