(* ===== verification/Policy.thy ===== *)
theory Policy
  imports Job
begin

section \<open>The policy engine\<close>

text \<open>
  \<open>crates/commonmeasure-runtime/src/policy.rs\<close>: which providers may be used, which sources
  may enter the context window, what may be bought, and which sources fit the context budget.
  Every check is a function to a ruling. An envelope is reduced to what admission reads of it.
\<close>

subsection \<open>Providers\<close>

definition provider_eligibility :: "context_job \<Rightarrow> string \<Rightarrow> ruling" where
  "provider_eligibility job provider =
     (if provider \<in> set (denied_providers job) then
        breach (job_mode job)
          (''The job denies provider '' @ provider @ ''.'')
          [Fixed ''The job denies provider '', Given provider, Fixed ''.'']
          (gap_new PolicyRefused (''Provider '' @ provider @ '' is on the job's denied list, so no request was sent.''))
      else if allowed_providers job \<noteq> [] \<and> provider \<notin> set (allowed_providers job) then
        breach (job_mode job)
          (''The job's allowed-provider list does not include '' @ provider @ ''.'')
          [Fixed ''The job's allowed-provider list does not include '', Given provider, Fixed ''.'']
          (gap_new PolicyRefused (''Provider '' @ provider
            @ '' is outside the job's allowed-provider list, so no request was sent.''))
      else Allowed)"

subsection \<open>Sources\<close>

datatype licence_state = Declared string | Unknown

record envelope =
  env_text :: "string option"
  env_host :: string
  env_source_url :: string
  env_licence :: licence_state

definition rule_text :: "nat \<Rightarrow> host_pattern \<Rightarrow> string" where
  "rule_text index p = ''access rule '' @ show_nat (index + 1) @ '' ('' @ as_written p @ '')''"

text \<open>What the matching access rule says of a host: it ends in a ruling, or it passes the host, or
  there is none.\<close>

definition access_rule_ruling :: "context_job \<Rightarrow> string \<Rightarrow> string \<Rightarrow> licence_state option
    \<Rightarrow> nat \<times> host_pattern \<times> access_action \<Rightarrow> ruling" where
  "access_rule_ruling job host source_url declared r =
     (case r of (index, p, action) \<Rightarrow>
        let rule = rule_text index p in
        case action of
          Allow \<Rightarrow> Allowed
        | RequireMediation \<Rightarrow> Allowed
        | Refuse \<Rightarrow>
            breach (job_mode job)
              (rule @ '' refuses host '' @ host @ ''.'')
              [Given rule, Fixed '' refuses this source's host.'']
              (gap_new PolicyRefused (source_url @ '' is refused by '' @ rule @ ''.''))
        | RequireLicence licence \<Rightarrow>
            (case declared of
               None \<Rightarrow> Allowed
             | Some (Declared reference) \<Rightarrow>
                 (if reference = licence then Allowed
                  else breach (job_mode job)
                    (rule @ '' requires licence '' @ debug_str licence @ '' for host '' @ host
                      @ '', and the supplier declared '' @ debug_str reference @ ''.'')
                    [Given rule, Fixed '' requires licence '', Given (debug_str licence),
                     Fixed '' for this source's host, and the supplier declared another.'']
                    (gap_new PolicyRefused (source_url @ '' was declared under licence '' @ debug_str reference
                      @ '', not the '' @ debug_str licence @ '' that '' @ rule @ '' requires.'')))
             | Some Unknown \<Rightarrow>
                 breach (job_mode job)
                    (rule @ '' requires licence '' @ debug_str licence @ '' for host '' @ host
                      @ '', and no supplier declared one.'')
                    [Given rule, Fixed '' requires licence '', Given (debug_str licence),
                     Fixed '' for this source's host, and no supplier declared one.'']
                    (gap_new EvidenceMissing (source_url
                      @ '' arrived with no machine-readable licence, and absent licence evidence is unknown rather than the ''
                      @ debug_str licence @ '' that '' @ rule @ '' requires.''))))"

definition host_list_ruling :: "url_host \<Rightarrow> context_job \<Rightarrow> string \<Rightarrow> string \<Rightarrow> string option \<Rightarrow> ruling" where
  "host_list_ruling url_host job host source_url provider =
     (if \<not> (case provider of None \<Rightarrow> False | Some name \<Rightarrow> allows_provider_sources job name)
         \<and> allowed_source_hosts job \<noteq> []
         \<and> host \<notin> normalised_host url_host ` set (allowed_source_hosts job)
      then breach (job_mode job)
        (if host = [] then ''This source has no host, and the job's allowed-host list admits only the hosts it names.''
         else ''Host '' @ host @ '' is outside the job's allowed-host list.'')
        (if host = [] then fixed_text ''This source has no host, and the job's allowed-host list admits only the hosts it names.''
         else fixed_text ''This source's host is outside the job's allowed-host list.'')
        (gap_new PolicyRefused
          (if host = [] then source_url @ '' has no host to match against the job's allowed-host list, so it is not a permitted source under this job's source policy.''
           else source_url @ '' is not a permitted source under this job's source policy.''))
      else Allowed)"

definition source_host_admission :: "url_host \<Rightarrow> context_job \<Rightarrow> string \<Rightarrow> string \<Rightarrow> string option
    \<Rightarrow> licence_state option \<Rightarrow> ruling" where
  "source_host_admission url_host job host source_url provider declared =
     (if host \<in> normalised_host url_host ` set (denied_source_hosts job) then
        breach (job_mode job)
          (''The job denies host '' @ host @ ''.'')
          (fixed_text ''The job denies this source's host.'')
          (gap_new PolicyRefused (source_url @ '' is on the job's denied-host list.''))
      else case access_rule_for job host of
        Some r \<Rightarrow> access_rule_ruling job host source_url declared r
      | None \<Rightarrow> host_list_ruling url_host job host source_url provider)"

definition required_licence_ruling :: "context_job \<Rightarrow> envelope \<Rightarrow> ruling" where
  "required_licence_ruling job e =
     (if required_licences job = [] then Allowed
      else if (case env_licence e of Declared reference \<Rightarrow> reference \<in> set (required_licences job) | Unknown \<Rightarrow> False)
      then Allowed
      else breach (job_mode job) ''No supplier declared a licence this job accepts.''
        (fixed_text ''No supplier declared a licence this job accepts.'')
        (gap_new EvidenceMissing (env_source_url e
          @ '' arrived with no machine-readable licence, and absent licence evidence is unknown rather than permitted.'')))"

definition source_admission_from :: "url_host \<Rightarrow> context_job \<Rightarrow> envelope \<Rightarrow> string option \<Rightarrow> ruling" where
  "source_admission_from url_host job e provider =
     (let provider_ruling = (case provider of None \<Rightarrow> Allowed | Some name \<Rightarrow> provider_eligibility job name)
      in if is_refusal provider_ruling then provider_ruling
         else if env_text e = None then
           Refused ''The provider returned no excerpt for this result.''
             (fixed_text ''The provider returned no excerpt for this result.'')
             (gap_new EvidenceMissing (env_source_url e @ '' was discovered but carried no text, so it could not ground anything.''))
         else
           (let host_ruling = source_host_admission url_host job (env_host e) (env_source_url e) provider (Some (env_licence e))
            in if host_ruling \<noteq> Allowed then host_ruling
               else if required_licence_ruling job e \<noteq> Allowed then required_licence_ruling job e
               else provider_ruling))"

definition source_admission :: "url_host \<Rightarrow> context_job \<Rightarrow> envelope \<Rightarrow> ruling" where
  "source_admission url_host job e = source_admission_from url_host job e None"

definition fetch_target_admission :: "url_host \<Rightarrow> context_job \<Rightarrow> string \<Rightarrow> string \<Rightarrow> ruling" where
  "fetch_target_admission url_host job target provider =
     (let provider_ruling = provider_eligibility job provider
      in if is_refusal provider_ruling then provider_ruling
         else
           (let host = (case url_host target of None \<Rightarrow> '''' | Some h \<Rightarrow> normalised_host url_host h);
                ruling = source_host_admission url_host job host target (Some provider) None
            in if ruling \<noteq> Allowed then ruling else provider_ruling))"

subsection \<open>Costs\<close>

definition money_words :: "money \<Rightarrow> string" where
  "money_words m = as_decimal_string m @ '' '' @ currency m"

definition acquisition_cost :: "context_job \<Rightarrow> acquisition_charge \<Rightarrow> ruling" where
  "acquisition_cost job charge = (case maximum_acquisition_cost job of
      None \<Rightarrow> Allowed
    | Some cap \<Rightarrow>
        (case charge_money charge of
           None \<Rightarrow>
             AllowedWithBreach
               (case charge_native charge of
                  Some native \<Rightarrow> ''The provider disclosed '' @ native_amount native @ '' '' @ native_unit native
                    @ '', which this runtime could not express at micro precision, so the acquisition cost cap could not be enforced.''
                | None \<Rightarrow> ''The provider disclosed no charge, so the acquisition cost cap could not be enforced.'')
               [Fixed ''The provider disclosed no charge in a currency comparable to the cap of '', Amount cap,
                Fixed '', so the acquisition cost cap could not be enforced.'']
               (gap_new EvidenceMissing
                 (case charge_native charge of
                    Some native \<Rightarrow> native_amount native @ '' '' @ native_unit native
                      @ '' was disclosed but no comparable amount was derived''
                      @ (case native_note native of Some note \<Rightarrow> '' ('' @ note @ '')'' | None \<Rightarrow> '''')
                      @ '', so the cap of '' @ money_words cap @ '' was not enforceable for this plan.''
                  | None \<Rightarrow> ''No charge was disclosed, so the cap of '' @ money_words cap
                      @ '' was not enforceable for this plan.''))
         | Some observed \<Rightarrow>
             (case money_compare observed cap of
                Some Ord_Greater \<Rightarrow>
                  breach (job_mode job)
                    (''The observed charge '' @ money_words observed @ '' exceeds the cap of '' @ money_words cap @ ''.'')
                    [Fixed ''The observed charge '', Amount observed, Fixed '' exceeds the cap of '', Amount cap, Fixed ''.'']
                    (gap_new BudgetExhausted ''The acquired content was refused admission because its charge exceeded the job's acquisition cap.'')
              | Some _ \<Rightarrow> Allowed
              | None \<Rightarrow>
                  AllowedWithBreach
                    (''The charge is in '' @ currency observed @ '' and the cap is in '' @ currency cap
                      @ ''; this runtime holds no rate source.'')
                    [Fixed ''The charge ('', Amount observed, Fixed '') and the cap ('', Amount cap,
                     Fixed '') are in different currencies; this runtime holds no rate source.'']
                    (gap_new EvidenceMissing ''The acquisition cost cap could not be enforced across currencies.''))))"

definition purchase_decision :: "context_job \<Rightarrow> acquisition_charge \<Rightarrow> bool \<Rightarrow> ruling" where
  "purchase_decision job quoted trial_covered = (case maximum_acquisition_cost job of
      None \<Rightarrow> Allowed
    | Some cap \<Rightarrow>
        (if trial_covered then Allowed
         else case charge_money quoted of
           None \<Rightarrow>
             breach (job_mode job)
               (''The job caps acquisition cost at '' @ money_words cap @ '' and the quote is ''
                 @ (case charge_native quoted of
                      Some native \<Rightarrow> native_amount native @ '' '' @ native_unit native
                    | None \<Rightarrow> ''no price at all'')
                 @ '', which the cap cannot be checked against; buying at an unverifiable price is declined rather than discovered on the receipt.'')
               [Fixed ''The job caps acquisition cost at '', Amount cap,
                Fixed '' and the quote is not a price in a currency the cap can be checked against; buying at an unverifiable price is declined rather than discovered on the receipt.'']
               (gap_new EvidenceMissing ''The quoted price could not be verified against the job's acquisition cost cap before purchase.'')
         | Some price \<Rightarrow>
             (case money_compare price cap of
                Some Ord_Greater \<Rightarrow>
                  breach (job_mode job)
                    (''The quoted price '' @ money_words price @ '' exceeds the cap of '' @ money_words cap @ ''.'')
                    [Fixed ''The quoted price '', Amount price, Fixed '' exceeds the cap of '', Amount cap, Fixed ''.'']
                    (gap_new BudgetExhausted ''The quote exceeded the job's acquisition cap, so the purchase was declined and nothing was bought.'')
              | Some _ \<Rightarrow> Allowed
              | None \<Rightarrow>
                  breach (job_mode job)
                    (''The quote is in '' @ currency price @ '' and the cap is in '' @ currency cap
                      @ ''; this runtime holds no rate source, so the cap cannot be checked before purchase.'')
                    [Fixed ''The quote ('', Amount price, Fixed '') and the cap ('', Amount cap,
                     Fixed '') are in different currencies; this runtime holds no rate source, so the cap cannot be checked before purchase.'']
                    (gap_new EvidenceMissing ''The quoted price and the acquisition cost cap are in different currencies.''))))"

definition total_latency :: "context_job \<Rightarrow> u64 \<Rightarrow> ruling" where
  "total_latency job observed_ms = (case maximum_latency_ms job of
      None \<Rightarrow> Allowed
    | Some cap \<Rightarrow>
        (if observed_ms \<le> cap then Allowed
         else breach (job_mode job)
           (''The plan took '' @ show_nat (unat observed_ms) @ '' ms against a cap of '' @ show_nat (unat cap) @ '' ms.'')
           [Fixed ''The plan took '', Number (uint observed_ms), Fixed '' ms against a cap of '', Number (uint cap), Fixed '' ms.'']
           (gap_new PolicyRefused (''The plan exceeded the job's '' @ show_nat (unat cap) @ '' ms latency limit.''))))"

subsection \<open>The context budget\<close>

text \<open>\<open>split_whitespace\<close>: the maximal runs of characters that are not space.\<close>

fun whitespace_words :: "string \<Rightarrow> string \<Rightarrow> string list" where
  "whitespace_words word [] = (if word = [] then [] else [rev word])"
| "whitespace_words word (c # s) =
     (if is_space c then (if word = [] then [] else [rev word]) @ whitespace_words [] s
      else whitespace_words (c # word) s)"

definition approximate_tokens :: "string \<Rightarrow> u64" where
  "approximate_tokens text_bytes = of_nat (length (whitespace_words [] text_bytes))"

record budget_outcome =
  bo_tokens :: u64
  bo_admitted :: bool
  bo_gap :: "gap option"

fun fit_from :: "u64 option \<Rightarrow> u64 \<Rightarrow> (string \<times> u64) list \<Rightarrow> budget_outcome list" where
  "fit_from budget admitted [] = []"
| "fit_from budget admitted ((reference, tokens) # sources) =
     (case budget of
        None \<Rightarrow> \<lparr>bo_tokens = tokens, bo_admitted = True, bo_gap = None\<rparr> # fit_from budget (admitted + tokens) sources
      | Some b \<Rightarrow>
          (if admitted + tokens \<le> b then
             \<lparr>bo_tokens = tokens, bo_admitted = True, bo_gap = None\<rparr> # fit_from budget (admitted + tokens) sources
           else
             \<lparr>bo_tokens = tokens, bo_admitted = False, bo_gap = Some (gap_new BudgetExhausted
                (reference @ '' needs '' @ show_nat (unat tokens) @ '' whitespace-words and only ''
                 @ show_nat (unat (saturating_sub b admitted)) @ '' of the job's '' @ show_nat (unat b)
                 @ '' remained, so it was left out whole rather than truncated.''))\<rparr>
             # fit_from budget admitted sources))"

definition fit_context_budget :: "(string \<times> u64) list \<Rightarrow> u64 option \<Rightarrow> budget_outcome list" where
  "fit_context_budget sources budget = fit_from budget 0 sources"

subsection \<open>Every check keeps the discipline of the mode\<close>

definition in_mode :: "context_job \<Rightarrow> policy_mode \<Rightarrow> context_job" where
  "in_mode job m = job\<lparr>job_mode := m\<rparr>"

lemma in_mode_simps [simp]:
  "job_mode (in_mode job m) = m" "job_constraints (in_mode job m) = job_constraints job"
  "denied_providers (in_mode job m) = denied_providers job" "allowed_providers (in_mode job m) = allowed_providers job"
  "denied_source_hosts (in_mode job m) = denied_source_hosts job"
  "allowed_source_hosts (in_mode job m) = allowed_source_hosts job"
  "required_licences (in_mode job m) = required_licences job"
  "access_rule_for (in_mode job m) = access_rule_for job"
  "maximum_acquisition_cost (in_mode job m) = maximum_acquisition_cost job"
  "maximum_latency_ms (in_mode job m) = maximum_latency_ms job"
  "allows_provider_sources (in_mode job m) = allows_provider_sources job"
  by (simp_all add: in_mode_def denied_providers_def allowed_providers_def denied_source_hosts_def
      allowed_source_hosts_def required_licences_def access_rule_for_def access_rules_def fun_eq_iff
      maximum_acquisition_cost_def maximum_latency_ms_def allows_provider_sources_def)

lemma in_own_mode [simp]: "in_mode job (job_mode job) = job"
  by (simp add: in_mode_def)

fun found_by :: "ruling \<Rightarrow> (string \<times> agent_text \<times> gap) option" where
  "found_by Allowed = None"
| "found_by (Refused r a g) = Some (r, a, g)"
| "found_by (AllowedWithBreach r a g) = Some (r, a, g)"

lemma found_by_breach [simp]: "found_by (breach m r a g) = Some (r, a, g)"
  by (cases m) simp_all

lemma eligibility_moded: "provider_eligibility (in_mode job m) provider = enforce m (found_by (provider_eligibility job provider))"
  by (simp add: provider_eligibility_def)

lemma access_rule_moded:
  "access_rule_ruling (in_mode job m) host u declared r = enforce m (found_by (access_rule_ruling job host u declared r))"
  by (cases r) (auto simp: access_rule_ruling_def Let_def split: access_action.splits option.splits licence_state.splits)

lemma host_list_moded:
  "host_list_ruling url_host (in_mode job m) host u provider = enforce m (found_by (host_list_ruling url_host job host u provider))"
  by (cases provider) (simp_all add: host_list_ruling_def)

lemma source_host_moded:
  "source_host_admission url_host (in_mode job m) host u provider declared
     = enforce m (found_by (source_host_admission url_host job host u provider declared))"
  by (auto simp: source_host_admission_def access_rule_moded host_list_moded split: option.splits)

lemma purchase_moded:
  "purchase_decision (in_mode job m) quoted trial = enforce m (found_by (purchase_decision job quoted trial))"
  by (auto simp: purchase_decision_def split: option.splits ordering.splits)

lemma latency_moded: "total_latency (in_mode job m) ms = enforce m (found_by (total_latency job ms))"
  by (auto simp: total_latency_def split: option.splits)

interpretation eligibility: moded_check "\<lambda>m. provider_eligibility (in_mode job m) provider"
    "found_by (provider_eligibility job provider)" for job provider
  by unfold_locales (rule eligibility_moded)

interpretation host_admission: moded_check "\<lambda>m. source_host_admission url_host (in_mode job m) host u provider declared"
    "found_by (source_host_admission url_host job host u provider declared)"
    for url_host job host u provider declared
  by unfold_locales (rule source_host_moded)

interpretation purchase: moded_check "\<lambda>m. purchase_decision (in_mode job m) quoted trial"
    "found_by (purchase_decision job quoted trial)" for job quoted trial
  by unfold_locales (rule purchase_moded)

interpretation latency: moded_check "\<lambda>m. total_latency (in_mode job m) ms"
    "found_by (total_latency job ms)" for job ms
  by unfold_locales (rule latency_moded)

interpretation receipt_cost: recorded_check "\<lambda>m. acquisition_cost (in_mode job m) charge" for job charge
  by unfold_locales (auto simp: acquisition_cost_def split: option.splits ordering.splits if_splits)

lemma eligibility_refusal: "is_refusal (provider_eligibility job provider) \<Longrightarrow> job_mode job = Strict"
  using eligibility.refuses_only_strict [of job "job_mode job" provider] by simp

lemma host_refusal: "is_refusal (source_host_admission url_host job host u provider declared) \<Longrightarrow> job_mode job = Strict"
  using host_admission.refuses_only_strict [of url_host job "job_mode job" host u provider declared] by simp

lemma licence_refusal: "is_refusal (required_licence_ruling job e) \<Longrightarrow> job_mode job = Strict"
  by (auto simp: required_licence_ruling_def split: if_splits)

lemma strict_refuses: "job_mode job = Strict \<Longrightarrow>
    is_refusal (source_host_admission url_host job host u provider declared) \<longleftrightarrow>
      source_host_admission url_host job host u provider declared \<noteq> Allowed"
  using host_admission.refusal_iff [of url_host job Strict host u provider declared]
    host_admission.allowed_in_every_mode [of url_host job Observe host u provider declared Strict] in_own_mode [of job]
  by simp

text \<open>
  Admission refuses outside strict mode in one case only, a source that carries no text; and
  whatever it does not allow it records with a gap.
\<close>

theorem admission_refuses_only_in_strict:
  "(is_refusal (source_admission_from url_host job e provider) = (
      (job_mode job = Strict \<or> env_text e = None) \<and>
      is_refusal (source_admission_from url_host (in_mode job Strict) e provider))) \<and>
   (source_admission_from url_host job e provider \<noteq> Allowed) = (ruling_gap (source_admission_from url_host job e provider) \<noteq> None)"
proof
  let ?pr = "\<lambda>j. case provider of None \<Rightarrow> Allowed | Some name \<Rightarrow> provider_eligibility j name"
  have pr: "is_refusal (?pr job) \<Longrightarrow> job_mode job = Strict"
    by (auto split: option.splits dest: eligibility_refusal)
  show "is_refusal (source_admission_from url_host job e provider) = (
      (job_mode job = Strict \<or> env_text e = None) \<and>
      is_refusal (source_admission_from url_host (in_mode job Strict) e provider))"
  proof (cases "job_mode job = Strict")
    case True
    then have "in_mode job Strict = job" by (metis in_own_mode)
    with True show ?thesis by simp
  next
    case False
    then have "\<not> is_refusal (?pr job)" using pr by blast
    moreover have "\<not> is_refusal (source_host_admission url_host job (env_host e) (env_source_url e) provider (Some (env_licence e)))"
      using False host_refusal by blast
    moreover have "\<not> is_refusal (required_licence_ruling job e)" using False licence_refusal by blast
    ultimately show ?thesis
      using False by (cases "env_text e") (simp_all add: source_admission_from_def Let_def)
  qed
qed simp

text \<open>
  C19. A denied host is denied absolutely: in strict mode no access rule, allowed-host entry, provider
  exemption or declared licence admits a source from it, and no fetch is aimed at it.
\<close>

theorem denied_host_is_absolute:
  assumes "job_mode job = Strict" "denied \<in> set (denied_source_hosts job)"
  shows "(normalised_host url_host denied = env_host e \<longrightarrow> is_refusal (source_admission_from url_host job e provider)) \<and>
    (map_option (normalised_host url_host) (url_host target) = Some (normalised_host url_host denied) \<longrightarrow>
       is_refusal (fetch_target_admission url_host job target name))"
proof -
  have h: "host = normalised_host url_host denied \<Longrightarrow>
      is_refusal (source_host_admission url_host job host u prov decl)" for host u prov decl
    using assms by (auto simp: source_host_admission_def)
  have ne: "is_refusal r \<Longrightarrow> r \<noteq> Allowed" for r by auto
  show ?thesis
    using h ne [OF h] by (auto simp: source_admission_from_def fetch_target_admission_def Let_def)
qed

lemma denied_host_is_absolute_witness:
  "is_refusal (source_admission_from (\<lambda>_. None)
     \<lparr>job_id = 0, job_kind = ''k'', job_prompt = ''p'', job_mode = Strict, job_objective = MinimiseCost,
       job_constraints = [AccessRule \<lparr>hp_host = [], hp_wildcard = True\<rparr> Allow, DeniedSourceHost ''bad.example''],
       job_evidence = []\<rparr>
     \<lparr>env_text = Some ''t'', env_host = ''bad.example'', env_source_url = ''u'', env_licence = Unknown\<rparr> None)"
proof -
  let ?job = "\<lparr>job_id = 0, job_kind = ''k'', job_prompt = ''p'', job_mode = Strict, job_objective = MinimiseCost,
       job_constraints = [AccessRule \<lparr>hp_host = [], hp_wildcard = True\<rparr> Allow, DeniedSourceHost ''bad.example''],
       job_evidence = []\<rparr>"
  have "job_mode ?job = Strict" "''bad.example'' \<in> set (denied_source_hosts ?job)"
    by (simp_all add: denied_source_hosts_def List.map_filter_def)
  moreover have "normalised_host (\<lambda>_. None) ''bad.example'' = ''bad.example''"
    by (simp add: normalised_host_def parsed_host_def trim_def is_space_def byte_of_def to_lowercase_def
        lower_char_def is_ascii_upper_def)
  ultimately show ?thesis
    using denied_host_is_absolute [of ?job "''bad.example''" "\<lambda>_. None"
        "\<lparr>env_text = Some ''t'', env_host = ''bad.example'', env_source_url = ''u'', env_licence = Unknown\<rparr>" None]
    by simp
qed

subsection \<open>What passes host policy\<close>

lemma breach_not_allowed: "(Allowed = breach m r a g) = False"
  by (cases m) simp_all

text \<open>
  Host policy in full, in every mode: a source's host passes when it is not on the denied list and
  either the first matching access rule lets it through, an allow or mediation rule unconditionally and a
  licence rule where the licence is still to come or is exactly the declared one, or no rule matches and the
  allowed-host list is empty, names the host, or is passed by the trusted provider that delivered it.
\<close>

theorem host_passes_exactly:
  "source_host_admission url_host job host source_url provider declared = Allowed \<longleftrightarrow>
     host \<notin> normalised_host url_host ` set (denied_source_hosts job) \<and>
     (case access_rule_for job host of
        Some (_, _, Allow) \<Rightarrow> True
      | Some (_, _, RequireMediation) \<Rightarrow> True
      | Some (_, _, Refuse) \<Rightarrow> False
      | Some (_, _, RequireLicence licence) \<Rightarrow> declared = None \<or> declared = Some (Declared licence)
      | None \<Rightarrow>
          (case provider of None \<Rightarrow> False | Some name \<Rightarrow> allows_provider_sources job name)
          \<or> allowed_source_hosts job = [] \<or> host \<in> normalised_host url_host ` set (allowed_source_hosts job))"
proof (cases "access_rule_for job host")
  case None
  then show ?thesis by (simp add: source_host_admission_def host_list_ruling_def)
next
  case (Some r)
  obtain i p a where r: "r = (i, p, a)" by (cases r)
  have "access_rule_ruling job host source_url declared r = Allowed \<longleftrightarrow>
      (case a of Allow \<Rightarrow> True | RequireMediation \<Rightarrow> True | Refuse \<Rightarrow> False
       | RequireLicence licence \<Rightarrow> declared = None \<or> declared = Some (Declared licence))"
  proof (cases a)
    case (RequireLicence l)
    show ?thesis
    proof (cases declared)
      case None
      then show ?thesis by (simp add: r RequireLicence access_rule_ruling_def Let_def)
    next
      case (Some d)
      then show ?thesis by (cases d) (simp_all add: r RequireLicence access_rule_ruling_def Let_def)
    qed
  qed (simp_all add: r access_rule_ruling_def Let_def)
  then show ?thesis by (simp add: source_host_admission_def Some r split: access_action.splits)
qed

text \<open>
  An unknown licence is never a permitted one: in strict mode, with a required licence declared by
  the job, a source that reaches the context window carries a licence from the job's list.
\<close>

theorem strict_admission_has_a_licence:
  assumes "job_mode job = Strict" "required_licences job \<noteq> []"
    and "\<not> is_refusal (source_admission_from url_host job e provider)"
  shows "\<exists>l t. env_licence e = Declared l \<and> l \<in> set (required_licences job) \<and> env_text e = Some t"
proof -
  let ?h = "source_host_admission url_host job (env_host e) (env_source_url e) provider (Some (env_licence e))"
  have h: "?h = Allowed"
    using assms(3) strict_refuses [OF assms(1)] by (fastforce simp: source_admission_from_def Let_def split: if_splits)
  have "is_refusal (required_licence_ruling job e) \<or> required_licence_ruling job e = Allowed"
    using assms(1) by (simp add: required_licence_ruling_def)
  with assms(3) h have "env_text e \<noteq> None" "required_licence_ruling job e = Allowed"
    by (auto simp: source_admission_from_def Let_def split: if_splits)
  with assms(2) show ?thesis
    by (auto simp: required_licence_ruling_def breach_not_allowed split: if_splits licence_state.splits)
qed

definition sample_job :: context_job where
  "sample_job = \<lparr>job_id = 0, job_kind = ''k'', job_prompt = ''p'', job_mode = Strict, job_objective = MinimiseCost,
     job_constraints = [RequiredLicence ''cc-by'', MaximumAcquisitionCost \<lparr>currency = ''USD'', micros = 20000\<rparr>],
     job_evidence = []\<rparr>"

lemma strict_admission_has_a_licence_witness:
  "is_refusal (source_admission_from (\<lambda>_. None) sample_job
     \<lparr>env_text = Some ''t'', env_host = ''h'', env_source_url = ''u'', env_licence = Unknown\<rparr> None)"
  using strict_admission_has_a_licence [of sample_job "\<lambda>_. None"
     "\<lparr>env_text = Some ''t'', env_host = ''h'', env_source_url = ''u'', env_licence = Unknown\<rparr>" None]
  by (auto simp: sample_job_def required_licences_def List.map_filter_def)

subsection \<open>Spending\<close>

lemma strict_purchase_passes:
  assumes "job_mode job = Strict" "maximum_acquisition_cost job = Some cap"
  shows "\<not> is_refusal (purchase_decision job quoted trial) \<longleftrightarrow>
    trial \<or> (case charge_money quoted of None \<Rightarrow> False
      | Some price \<Rightarrow> currency price = currency cap \<and> micros price \<le> micros cap)"
proof (cases "charge_money quoted")
  case None
  with assms show ?thesis by (simp add: purchase_decision_def)
next
  case (Some price)
  show ?thesis
  proof (cases "money_compare price cap")
    case None
    then have "currency price \<noteq> currency cap" by (simp add: money_compare_None_iff)
    with None assms Some show ?thesis by (simp add: purchase_decision_def)
  next
    case c: (Some o1)
    then have cur: "currency price = currency cap" using money_compare_None_iff [of price cap] by auto
    have "o1 = Ord_Greater \<longleftrightarrow> micros cap < micros price"
      using money_compare_Greater_iff [of price cap] c cur by simp
    then have "o1 = Ord_Greater \<longleftrightarrow> \<not> micros price \<le> micros cap" by (simp add: not_le)
    with assms Some c cur show ?thesis by (cases o1) (simp_all add: purchase_decision_def)
  qed
qed

text \<open>
  In strict mode a purchase that is not refused under a declared cap is covered by a trial or has a
  price in the cap's own currency that does not exceed it; a price of another currency, a price in the
  supplier's own unit and no price at all are all refused.
\<close>

theorem strict_purchase_is_within_the_cap:
  assumes "job_mode job = Strict" "maximum_acquisition_cost job = Some cap"
  shows "(\<not> is_refusal (purchase_decision job quoted trial)) =
    (trial \<or> (case charge_money quoted of None \<Rightarrow> False
      | Some price \<Rightarrow> currency price = currency cap \<and> micros price \<le> micros cap))"
  using strict_purchase_passes [OF assms] by blast

text \<open>
  A charge already paid is never turned into a refusal by something that cannot be compared: the
  receipt check refuses exactly the charges, in the cap's own currency and above it, of a strict job.
\<close>

theorem receipt_refusal_is_a_known_excess:
  "is_refusal (acquisition_cost job charge) = (job_mode job = Strict \<and>
     (case (maximum_acquisition_cost job, charge_money charge) of
        (Some cap, Some observed) \<Rightarrow> currency observed = currency cap \<and> micros cap < micros observed
      | _ \<Rightarrow> False))"
proof -
  have "money_compare observed cap = Some o1 \<Longrightarrow>
      (o1 = Ord_Greater) = (currency observed = currency cap \<and> micros cap < micros observed)" for observed cap o1
    using money_compare_Greater_iff [of observed cap] by simp
  moreover have "money_compare observed cap = None \<Longrightarrow> currency observed \<noteq> currency cap" for observed cap
    by (simp add: money_compare_None_iff)
  ultimately show ?thesis
    by (fastforce simp: acquisition_cost_def split: option.splits ordering.splits)
qed

lemma strict_purchase_is_within_the_cap_witness:
  "is_refusal (purchase_decision sample_job \<lparr>charge_money = None, charge_native = None\<rparr> False)"
  using strict_purchase_is_within_the_cap [of sample_job "\<lparr>currency = ''USD'', micros = 20000\<rparr>"
      "\<lparr>charge_money = None, charge_native = None\<rparr>" False]
  by (simp add: sample_job_def maximum_acquisition_cost_def)

subsection \<open>The context budget\<close>

definition admitted_total :: "budget_outcome list \<Rightarrow> nat" where
  "admitted_total os = sum_list (map (\<lambda>o1. if bo_admitted o1 then unat (bo_tokens o1) else 0) os)"

lemma fit_from_sound:
  assumes "unat a + sum_list (map (unat \<circ> snd) sources) < 2 ^ 64" "unat a \<le> unat b"
  shows "length (fit_from (Some b) a sources) = length sources \<and>
    map bo_tokens (fit_from (Some b) a sources) = map snd sources \<and>
    unat a + admitted_total (fit_from (Some b) a sources) \<le> unat b \<and>
    (\<forall>i < length sources. bo_admitted (fit_from (Some b) a sources ! i) \<longleftrightarrow>
       unat a + admitted_total (take i (fit_from (Some b) a sources)) + unat (snd (sources ! i)) \<le> unat b)"
  using assms
proof (induction sources arbitrary: a)
  case Nil
  then show ?case by (simp add: admitted_total_def)
next
  case (Cons s sources)
  obtain r t where s: "s = (r, t)" by fastforce
  have sum: "unat (a + t) = unat a + unat t"
    using Cons.prems(1) s by (intro unat_add_exact) simp
  show ?case
  proof (cases "a + t \<le> b")
    case True
    then have "unat a + unat t \<le> unat b" by (simp add: word_le_nat_alt sum)
    with Cons.IH [of "a + t"] Cons.prems True sum show ?thesis
      by (simp add: s admitted_total_def All_less_Suc2 nth_Cons' add.assoc)
  next
    case False
    then have "\<not> unat a + unat t \<le> unat b" by (simp add: word_le_nat_alt sum)
    with Cons.IH [of a] Cons.prems False show ?thesis
      by (simp add: s admitted_total_def All_less_Suc2 nth_Cons')
  qed
qed

text \<open>
  The context budget is never exceeded and nothing that fits is left out: with the offered footprints
  summing within 64 bits, one outcome per source is given in order, the admitted footprints together stay
  within the budget, and each source is admitted exactly when it fits beside those admitted before it.
\<close>

theorem context_budget_is_kept:
  assumes "sum_list (map (unat \<circ> snd) sources) < 2 ^ 64"
  shows "map bo_tokens (fit_context_budget sources (Some b)) = map snd sources \<and>
    admitted_total (fit_context_budget sources (Some b)) \<le> unat b \<and>
    (\<forall>i < length sources. bo_admitted (fit_context_budget sources (Some b) ! i) \<longleftrightarrow>
       admitted_total (take i (fit_context_budget sources (Some b))) + unat (snd (sources ! i)) \<le> unat b)"
  using fit_from_sound [of 0 sources b] assms by (simp add: fit_context_budget_def)

lemma context_budget_is_kept_witness:
  "admitted_total (fit_context_budget [(''a'', 60), (''b'', 50), (''c'', 40)] (Some 100)) \<le> 100"
  using context_budget_is_kept [of "[(''a'', 60), (''b'', 50), (''c'', 40)]" 100] by simp

subsection \<open>What the agent is told\<close>

definition operator_words :: "context_job \<Rightarrow> string set" where
  "operator_words job = (\<Union>c \<in> set (access_rules job). case c of (i, p, a) \<Rightarrow>
     insert (rule_text i p) (case a of RequireLicence l \<Rightarrow> {debug_str l} | _ \<Rightarrow> {}))"

definition tells_only :: "string set \<Rightarrow> ruling \<Rightarrow> bool" where
  "tells_only W r \<longleftrightarrow> (case ruling_agent_reason r of None \<Rightarrow> True | Some a \<Rightarrow> givens a \<subseteq> W)"

lemma tells_only_simps [simp]:
  "tells_only W Allowed" "tells_only W (breach m r a g) \<longleftrightarrow> givens a \<subseteq> W"
  "tells_only W (Refused r a g) \<longleftrightarrow> givens a \<subseteq> W" "tells_only W (AllowedWithBreach r a g) \<longleftrightarrow> givens a \<subseteq> W"
  by (simp_all add: tells_only_def)

lemma tells_only_mono: "tells_only V r \<Longrightarrow> V \<subseteq> W \<Longrightarrow> tells_only W r"
  by (auto simp: tells_only_def split: option.splits)

lemma access_rule_tells:
  assumes "access_rule_for job host = Some r"
  shows "tells_only (operator_words job) (access_rule_ruling job host u declared r)"
proof -
  obtain i p a where r: "r = (i, p, a)" by (cases r)
  from assms have mem: "(i, p, a) \<in> set (access_rules job)"
    unfolding access_rule_for_def find_Some_iff r by (metis nth_mem)
  then have w: "rule_text i p \<in> operator_words job" "a = RequireLicence l \<Longrightarrow> debug_str l \<in> operator_words job" for l
    by (force simp: operator_words_def)+
  show ?thesis
  proof (cases a)
    case (RequireLicence l)
    show ?thesis
    proof (cases declared)
      case None
      then show ?thesis by (simp add: r RequireLicence access_rule_ruling_def Let_def)
    next
      case (Some d)
      with w RequireLicence show ?thesis by (cases d) (simp_all add: r access_rule_ruling_def Let_def)
    qed
  qed (use w(1) in \<open>simp_all add: r access_rule_ruling_def Let_def\<close>)
qed

lemma eligibility_tells: "tells_only {provider} (provider_eligibility job provider)"
  by (simp add: provider_eligibility_def)

lemma host_tells: "tells_only (operator_words job) (source_host_admission url_host job host u provider declared)"
  by (auto simp: source_host_admission_def host_list_ruling_def access_rule_tells split: option.splits)

text \<open>
  C20. No supplier text reaches the agent through a ruling. The reason of a source's admission carries, beside
  this program's own words, only what the operator wrote (an access rule's position and pattern, the licence
  it requires) and the provider's name, whatever the source's host, URL, declared licence and text are; the
  reasons of the cost and latency checks carry no given text at all.
\<close>

theorem rulings_tell_the_agent_operator_words_only:
  "tells_only (operator_words job \<union> set_option provider) (source_admission_from url_host job e provider) \<and>
   tells_only (operator_words job \<union> {name}) (fetch_target_admission url_host job target name) \<and>
   tells_only {} (purchase_decision job charge trial) \<and> tells_only {} (acquisition_cost job charge) \<and>
   tells_only {} (total_latency job ms)"
proof (intro conjI)
  have el: "n \<in> W \<Longrightarrow> tells_only W (provider_eligibility job n)" for n W
    by (rule tells_only_mono [OF eligibility_tells]) simp
  have ho: "operator_words job \<subseteq> W \<Longrightarrow> tells_only W (source_host_admission url_host job host u prov decl)" for W host u prov decl
    by (rule tells_only_mono [OF host_tells]) simp
  have li: "tells_only W (required_licence_ruling job e)" for W
    by (simp add: required_licence_ruling_def)
  show "tells_only (operator_words job \<union> set_option provider) (source_admission_from url_host job e provider)"
    using el ho li by (cases provider) (simp_all add: source_admission_from_def Let_def subset_insertI)
  show "tells_only (operator_words job \<union> {name}) (fetch_target_admission url_host job target name)"
    using el ho by (simp add: fetch_target_admission_def Let_def subset_insertI)
  show "tells_only {} (purchase_decision job charge trial)" "tells_only {} (acquisition_cost job charge)"
    by (simp_all add: purchase_decision_def acquisition_cost_def split: option.splits ordering.splits)
  show "tells_only {} (total_latency job ms)"
    by (simp add: total_latency_def split: option.splits)
qed

end
