(* ===== verification/Append_Log.thy ===== *)
theory Append_Log
  imports CM_Prelude
begin

section \<open>Append-only record files\<close>

text \<open>
  A newline-delimited JSON file, as the code that writes it can leave it. A line is given by
  what the JSON reader makes of it: a record, text that is not one, or blank. The file is its
  complete lines and what stands after the last newline. Appending follows the file system's
  three failure points (open, write, flush): a failed open changes nothing, a failed write may
  leave part of the line, and a failed flush leaves the whole line in the file although the
  call reports an error. Text run together on one line is not a record.
\<close>

datatype 'a row = Row 'a | Unparsed string | Blank

record 'a ndfile =
  rows :: "'a row list"
  tail :: "'a row option"

datatype torn = Nothing_written | Fragment | Whole_line

datatype append_fault =
    Open_failed string
  | Write_failed torn string
  | Flush_failed string

datatype read_error = Cannot_read string | Bad_line nat string

definition empty_file :: "'a ndfile" where
  "empty_file = \<lparr>rows = [], tail = None\<rparr>"

definition contents :: "'a ndfile option \<Rightarrow> 'a ndfile" where
  "contents f = (case f of None \<Rightarrow> empty_file | Some g \<Rightarrow> g)"

definition run_together :: "'a row" where
  "run_together = Unparsed ''run together''"

definition join_tail :: "'a row option \<Rightarrow> 'a row \<Rightarrow> 'a row" where
  "join_tail t r = (case t of None \<Rightarrow> r | Some Blank \<Rightarrow> r | Some _ \<Rightarrow> run_together)"

text \<open>The text of one record and its newline, and the part of it a failed write leaves.\<close>

definition write_line :: "'a \<Rightarrow> 'a ndfile \<Rightarrow> 'a ndfile" where
  "write_line a f = \<lparr>rows = rows f @ [join_tail (tail f) (Row a)], tail = None\<rparr>"

definition write_torn :: "torn \<Rightarrow> 'a \<Rightarrow> 'a ndfile \<Rightarrow> 'a ndfile" where
  "write_torn t a f =
     (case t of Nothing_written \<Rightarrow> f
      | Fragment \<Rightarrow> f\<lparr>tail := Some (join_tail (tail f) (Unparsed ''cut short''))\<rparr>
      | Whole_line \<Rightarrow> f\<lparr>tail := Some (join_tail (tail f) (Row a))\<rparr>)"

definition append_row :: "append_fault option \<Rightarrow> 'a \<Rightarrow> 'a ndfile option
    \<Rightarrow> (append_fault + unit) \<times> 'a ndfile option" where
  "append_row fault a f =
     (case fault of
        None \<Rightarrow> (Inr (), Some (write_line a (contents f)))
      | Some (Open_failed e) \<Rightarrow> (Inl (Open_failed e), f)
      | Some (Write_failed t e) \<Rightarrow> (Inl (Write_failed t e), Some (write_torn t a (contents f)))
      | Some (Flush_failed e) \<Rightarrow> (Inl (Flush_failed e), Some (write_line a (contents f))))"

text \<open>\<open>text.lines()\<close>: the complete lines and an unterminated last one. Blank lines are
  passed over and the first line that is not a record is the error, counted from one.\<close>

definition lines_of :: "'a ndfile \<Rightarrow> 'a row list" where
  "lines_of f = rows f @ (case tail f of None \<Rightarrow> [] | Some r \<Rightarrow> [r])"

fun parse_rows :: "nat \<Rightarrow> 'a row list \<Rightarrow> read_error + 'a list" where
  "parse_rows n [] = Inr []"
| "parse_rows n (Blank # rs) = parse_rows (Suc n) rs"
| "parse_rows n (Unparsed e # rs) = Inl (Bad_line n e)"
| "parse_rows n (Row a # rs) = res_map (Cons a) (parse_rows (Suc n) rs)"

definition read_rows :: "'a ndfile option \<Rightarrow> read_error + 'a list" where
  "read_rows f = (case f of None \<Rightarrow> Inr [] | Some g \<Rightarrow> parse_rows 1 (lines_of g))"

subsection \<open>Reading back what was appended\<close>

definition ends_in_newline :: "'a ndfile option \<Rightarrow> bool" where
  "ends_in_newline f \<longleftrightarrow> tail (contents f) = None"

lemma parse_rows_append:
  "parse_rows n (rs @ qs) =
     res_bind (parse_rows n rs) (\<lambda>xs. res_map (append xs) (parse_rows (n + length rs) qs))"
proof (induction n rs rule: parse_rows.induct)
  case (1 n)
  then show ?case by (cases "parse_rows n qs") auto
next
  case (4 n a rs)
  then show ?case
    by (cases "parse_rows (Suc n) rs"; cases "parse_rows (Suc (n + length rs)) qs") auto
qed auto

lemma parse_rows_Rows [simp]: "parse_rows n (map Row xs) = Inr xs"
  by (induction xs arbitrary: n) auto

lemma parse_rows_set:
  "parse_rows n rs = Inr xs \<Longrightarrow> set xs = {x. Row x \<in> set rs}"
  by (induction n rs arbitrary: xs rule: parse_rows.induct) (auto simp: res_map_Inr_iff)

lemma read_write_line:
  assumes "ends_in_newline f" "read_rows f = Inr xs"
  shows "read_rows (Some (write_line a (contents f))) = Inr (xs @ [a])"
    and "ends_in_newline (Some (write_line a (contents f)))"
  using assms
  by (auto simp: read_rows_def lines_of_def write_line_def contents_def ends_in_newline_def
      join_tail_def empty_file_def parse_rows_append split: option.splits)

text \<open>A reservation or receipt is never lost from view by a failed append: what was read
  before is still read, or the file is reported as damaged.\<close>

lemma append_row_monotone:
  assumes "ends_in_newline f" "read_rows f = Inr xs" "append_row fault a f = (r, f')"
  shows "read_rows f' = Inr xs \<or> read_rows f' = Inr (xs @ [a]) \<or> (\<exists>n e. read_rows f' = Inl (Bad_line n e))"
proof (cases fault)
  case None
  with assms read_write_line [OF assms(1,2)] show ?thesis by (auto simp: append_row_def)
next
  case (Some flt)
  show ?thesis
  proof (cases flt)
    case (Write_failed t e)
    with Some assms show ?thesis
      by (cases t; cases f) (auto simp: append_row_def read_rows_def lines_of_def write_torn_def
          contents_def ends_in_newline_def join_tail_def empty_file_def parse_rows_append)
  qed (use Some assms read_write_line [OF assms(1,2)] in \<open>auto simp: append_row_def\<close>)
qed

subsection \<open>The interface a client of such a file relies on\<close>

locale append_log =
  fixes entries :: "'s \<Rightarrow> 'e + 'a list"
    and append :: "'a \<Rightarrow> 's \<Rightarrow> ('f + unit) \<times> 's"
    and sound :: "'s \<Rightarrow> bool"
  assumes append_ok:
    "sound s \<Longrightarrow> entries s = Inr xs \<Longrightarrow> append a s = (Inr (), s') \<Longrightarrow>
       sound s' \<and> entries s' = Inr (xs @ [a])"
begin

fun append_all :: "'a list \<Rightarrow> 's \<Rightarrow> ('f + unit) \<times> 's" where
  "append_all [] s = (Inr (), s)"
| "append_all (a # as) s = (case append a s of (Inl e, s') \<Rightarrow> (Inl e, s') | (Inr _, s') \<Rightarrow> append_all as s')"

lemma append_all_ok:
  "sound s \<Longrightarrow> entries s = Inr xs \<Longrightarrow> append_all as s = (Inr (), s') \<Longrightarrow>
     sound s' \<and> entries s' = Inr (xs @ as)"
proof (induction as arbitrary: s xs)
  case Nil
  then show ?case by simp
next
  case (Cons a as)
  obtain s1 where a: "append a s = (Inr (), s1)" and rest: "append_all as s1 = (Inr (), s')"
    using Cons.prems(3) by (auto split: prod.splits sum.splits)
  have "sound s1" "entries s1 = Inr (xs @ [a])"
    using append_ok [OF Cons.prems(1,2) a] by auto
  with Cons.IH [OF _ _ rest] show ?case by simp
qed

end

text \<open>The files above provide it, where no fault is injected.\<close>

interpretation ndlog: append_log read_rows "append_row None" ends_in_newline
  by unfold_locales (auto simp: append_row_def read_write_line)

end
