(* ===== verification/Allowance.thy ===== *)
theory Allowance
  imports Ruling Append_Log
begin

section \<open>The allowance ledger and its gate\<close>

text \<open>
  \<open>crates/commonmeasure-runtime/src/allowance.rs\<close> and
  \<open>crates/commonmeasure-types/src/allowance.rs\<close>: one append-only file of reserved, committed
  and released entries, swept of expired reservations under the lock before every other step,
  and the gate that reserves a price before a purchase and settles it against the receipt.

  An instant is a count of nanoseconds. \<open>stamp\<close> keeps whole seconds, as the code's RFC 3339
  text of second precision does; for years of four digits that text orders as the seconds do,
  so stamps are kept as the second they denote. What the code takes from other crates is a
  field of \<open>ledger_env\<close>: the uuid drawn at each draw, the calendar a zone name denotes, the
  text of a stamp, of a uuid and of the ledger's path.
\<close>

subsection \<open>Declarations\<close>

datatype allowance_period = Day | Month

datatype period_key = Day_key int int int | Month_key int int

record allowance_declaration =
  decl_period :: allowance_period
  decl_amount :: money
  decl_timezone :: string

record ledger_env =
  env_uuid :: "nat \<Rightarrow> uuid"
  env_zone :: "string \<Rightarrow> (int \<Rightarrow> int \<times> int \<times> int) option"
  env_stamp_text :: "int \<Rightarrow> string"
  env_uuid_text :: "uuid \<Rightarrow> string"
  env_path :: string
  env_pid :: u32

fun period_str :: "allowance_period \<Rightarrow> string" where
  "period_str Day = ''day''"
| "period_str Month = ''month''"

definition zone :: "ledger_env \<Rightarrow> allowance_declaration \<Rightarrow> string + (int \<Rightarrow> int \<times> int \<times> int)" where
  "zone env d = (case env_zone env (decl_timezone d) of
      Some z \<Rightarrow> Inr z
    | None \<Rightarrow> Inl (''names timezone '' @ debug_str (decl_timezone d)
        @ '', which is not an IANA zone this build recognises''))"

definition validate_declaration :: "ledger_env \<Rightarrow> allowance_declaration \<Rightarrow> string + unit" where
  "validate_declaration env d = res_map (\<lambda>_. ()) (zone env d)"

definition period_key :: "ledger_env \<Rightarrow> allowance_declaration \<Rightarrow> int \<Rightarrow> string + period_key" where
  "period_key env d now = res_map (\<lambda>z. case z now of (y, m, dd) \<Rightarrow>
      (case decl_period d of Day \<Rightarrow> Day_key y m dd | Month \<Rightarrow> Month_key y m)) (zone env d)"

fun period_key_text :: "period_key \<Rightarrow> string" where
  "period_key_text (Day_key y m d) =
     pad_zeros 4 (show_int y) @ ''-'' @ pad_zeros 2 (show_int m) @ ''-'' @ pad_zeros 2 (show_int d)"
| "period_key_text (Month_key y m) = pad_zeros 4 (show_int y) @ ''-'' @ pad_zeros 2 (show_int m)"

subsection \<open>Entries, accounts and the ledger's state\<close>

type_synonym period_keys = "allowance_period \<Rightarrow> period_key option"

text \<open>\<open>Reserved id principal amount keys at expires pid context\<close>,
  \<open>Committed id reserved_id principal amount keys at context note\<close> and
  \<open>Released id reserved_id at reason\<close>.\<close>

datatype ledger_entry =
    Reserved uuid string money period_keys int int u32 string
  | Committed uuid "uuid option" string money period_keys int string string
  | Released uuid uuid int string

record account =
  acc_principal :: string
  acc_declarations :: "allowance_declaration list"

record reservation =
  res_id :: uuid
  res_amount :: money

record period_check =
  chk_period :: allowance_period
  chk_key :: period_key
  chk_declared :: money
  chk_spent_before :: money
  chk_comparable :: bool
  chk_would_exceed :: bool

datatype reserve_outcome =
    NothingDeclared
  | Reserved_ok reservation "period_check list"
  | ReservedWithBreach reservation "period_check list"
  | Declined "period_check list"

record period_state =
  ps_period :: allowance_period
  ps_key :: period_key
  ps_declared :: money
  ps_committed :: money
  ps_reserved :: money
  ps_remaining :: money
  ps_exceeded :: bool

datatype ledger_error =
    Lock_refused string
  | Read_failed read_error
  | Append_failed append_fault
  | Retried append_fault append_fault
  | Unknown_zone string

text \<open>
  The outcomes the operating system gives the coming lock attempts, reads and appends are
  lists in the state, consumed in order; where a list has run out the attempt succeeds.
\<close>

record ledger_state =
  led_file :: "ledger_entry ndfile option"
  led_locks :: "string option list"
  led_reads :: "string option list"
  led_appends :: "append_fault option list"
  led_drawn :: nat

type_synonym 'a ledger_op = "(ledger_state, ledger_error, 'a) exec"

definition stamp :: "int \<Rightarrow> int" where
  "stamp t = t div 1000000000"

definition reservation_ttl :: int where
  "reservation_ttl = 600 * 1000000000"

subsection \<open>Arithmetic over the entries\<close>

definition period_keys :: "ledger_env \<Rightarrow> allowance_declaration list \<Rightarrow> int \<Rightarrow> string + period_keys" where
  "period_keys env ds now =
     res_map (\<lambda>kvs. map_of (rev kvs))
       (traverse (\<lambda>d. res_map (Pair (decl_period d)) (period_key env d now)) ds)"

fun resolves :: "ledger_entry \<Rightarrow> uuid option" where
  "resolves (Committed _ (Some rid) _ _ _ _ _ _) = Some rid"
| "resolves (Released _ rid _ _) = Some rid"
| "resolves _ = None"

definition resolved_ids :: "ledger_entry list \<Rightarrow> uuid list" where
  "resolved_ids entries = List.map_filter resolves entries"

definition counts_for :: "string \<Rightarrow> allowance_declaration \<Rightarrow> period_key \<Rightarrow> string \<Rightarrow> money \<Rightarrow> period_keys \<Rightarrow> bool" where
  "counts_for p d key entry_principal amount keys \<longleftrightarrow>
     entry_principal = p \<and> currency amount = currency (decl_amount d) \<and> keys (decl_period d) = Some key"

fun spent_step :: "string \<Rightarrow> allowance_declaration \<Rightarrow> period_key \<Rightarrow> int \<Rightarrow> uuid list
    \<Rightarrow> u64 \<times> u64 \<Rightarrow> ledger_entry \<Rightarrow> u64 \<times> u64" where
  "spent_step p d key now resolved (c, r) (Committed _ _ ep amount keys _ _ _) =
     (if counts_for p d key ep amount keys then (saturating_add c (micros amount), r) else (c, r))"
| "spent_step p d key now resolved (c, r) (Reserved i ep amount keys _ expires _ _) =
     (if counts_for p d key ep amount keys \<and> i \<notin> set resolved \<and> stamp now < expires
      then (c, saturating_add r (micros amount)) else (c, r))"
| "spent_step p d key now resolved (c, r) (Released _ _ _ _) = (c, r)"

definition spent :: "ledger_entry list \<Rightarrow> string \<Rightarrow> allowance_declaration \<Rightarrow> period_key \<Rightarrow> int \<Rightarrow> u64 \<times> u64" where
  "spent entries p d key now = foldl (spent_step p d key now (resolved_ids entries)) (0, 0) entries"

definition check_for :: "ledger_env \<Rightarrow> ledger_entry list \<Rightarrow> account \<Rightarrow> money option \<Rightarrow> int
    \<Rightarrow> allowance_declaration \<Rightarrow> string + period_check" where
  "check_for env entries acct charge now d =
     res_map (\<lambda>key.
       let (committed, reserved) = spent entries (acc_principal acct) d key now;
           held = saturating_add committed reserved;
           comparable = (case charge of None \<Rightarrow> False | Some m \<Rightarrow> currency m = currency (decl_amount d));
           would_exceed = (case charge of
               Some m \<Rightarrow> comparable \<and> micros (decl_amount d) < saturating_add held (micros m)
             | None \<Rightarrow> False)
       in \<lparr>chk_period = decl_period d, chk_key = key, chk_declared = decl_amount d,
           chk_spent_before = money_new (currency (decl_amount d)) held,
           chk_comparable = comparable, chk_would_exceed = would_exceed\<rparr>)
       (period_key env d now)"

definition checks_for :: "ledger_env \<Rightarrow> ledger_entry list \<Rightarrow> account \<Rightarrow> money option \<Rightarrow> int
    \<Rightarrow> string + period_check list" where
  "checks_for env entries acct charge now =
     traverse (check_for env entries acct charge now) (acc_declarations acct)"

subsection \<open>The file under its lock\<close>

definition lock_ledger :: "unit ledger_op" where
  "lock_ledger s = (case led_locks s of
      [] \<Rightarrow> (Inr (), s)
    | None # r \<Rightarrow> (Inr (), s\<lparr>led_locks := r\<rparr>)
    | Some e # r \<Rightarrow> (Inl (Lock_refused e), s\<lparr>led_locks := r\<rparr>))"

definition read_ledger :: "ledger_entry list ledger_op" where
  "read_ledger s = (case led_reads s of
      Some e # r \<Rightarrow> (Inl (Read_failed (Cannot_read e)), s\<lparr>led_reads := r\<rparr>)
    | xs \<Rightarrow> (case read_rows (led_file s) of
          Inl e \<Rightarrow> (Inl (Read_failed e), s\<lparr>led_reads := drop 1 xs\<rparr>)
        | Inr es \<Rightarrow> (Inr es, s\<lparr>led_reads := drop 1 xs\<rparr>)))"

definition append_raw :: "ledger_entry \<Rightarrow> (ledger_state, append_fault, unit) exec" where
  "append_raw e s =
     (case append_row (case led_appends s of [] \<Rightarrow> None | f # _ \<Rightarrow> f) e (led_file s) of
        (r, f') \<Rightarrow> (r, s\<lparr>led_file := f', led_appends := drop 1 (led_appends s)\<rparr>))"

definition append_entry :: "ledger_entry \<Rightarrow> unit ledger_op" where
  "append_entry e s = (case append_raw e s of
      (Inl f, s') \<Rightarrow> (Inl (Append_failed f), s') | (Inr _, s') \<Rightarrow> (Inr (), s'))"

text \<open>A settlement is tried once more under the lock when its first write reports an error.\<close>

definition append_settlement :: "ledger_entry \<Rightarrow> unit ledger_op" where
  "append_settlement e s = (case append_raw e s of
      (Inr _, s1) \<Rightarrow> (Inr (), s1)
    | (Inl first, s1) \<Rightarrow> (case append_raw e s1 of
          (Inr _, s2) \<Rightarrow> (Inr (), s2)
        | (Inl second, s2) \<Rightarrow> (Inl (Retried first second), s2)))"

definition draw_uuid :: "ledger_env \<Rightarrow> uuid ledger_op" where
  "draw_uuid env s = (Inr (env_uuid env (led_drawn s)), s\<lparr>led_drawn := Suc (led_drawn s)\<rparr>)"

definition zone_result :: "string + 'a \<Rightarrow> 'a ledger_op" where
  "zone_result r = (case r of Inl e \<Rightarrow> fail (Unknown_zone e) | Inr a \<Rightarrow> ret a)"

fun expired_of :: "uuid list \<Rightarrow> int \<Rightarrow> ledger_entry \<Rightarrow> (uuid \<times> int) option" where
  "expired_of resolved now (Reserved i _ _ _ _ expires _ _) =
     (if i \<notin> set resolved \<and> expires \<le> stamp now then Some (i, expires) else None)"
| "expired_of resolved now _ = None"

definition expiry_reason :: "ledger_env \<Rightarrow> int \<Rightarrow> string" where
  "expiry_reason env expires = ''released by rule: the reservation expired at '' @ env_stamp_text env expires
     @ '' without a receipt or a release, so its buyer is taken to have died before settling''"

fun release_each :: "ledger_env \<Rightarrow> int \<Rightarrow> (uuid \<times> int) list \<Rightarrow> ledger_entry list \<Rightarrow> ledger_entry list ledger_op" where
  "release_each env now [] entries = ret entries"
| "release_each env now ((rid, expires) # pending) entries =
     and_then (draw_uuid env) (\<lambda>i.
       let release = Released i rid (stamp now) (expiry_reason env expires)
       in and_then (append_entry release) (\<lambda>_. release_each env now pending (entries @ [release])))"

definition sweep_expired :: "ledger_env \<Rightarrow> int \<Rightarrow> ledger_entry list ledger_op" where
  "sweep_expired env now =
     and_then read_ledger (\<lambda>entries.
       release_each env now
         (List.map_filter (expired_of (resolved_ids entries) now) entries) entries)"

subsection \<open>The ledger's operations\<close>

definition fits :: "period_check list \<Rightarrow> bool" where
  "fits checks \<longleftrightarrow> list_all (\<lambda>c. chk_comparable c \<and> \<not> chk_would_exceed c) checks"

definition reserve :: "ledger_env \<Rightarrow> account \<Rightarrow> money \<Rightarrow> int \<Rightarrow> string \<Rightarrow> bool \<Rightarrow> reserve_outcome ledger_op" where
  "reserve env acct amount now context_text allow_breach =
     (if acc_declarations acct = [] then ret NothingDeclared
      else and_then lock_ledger (\<lambda>_. and_then (sweep_expired env now) (\<lambda>entries.
        and_then (zone_result (checks_for env entries acct (Some amount) now)) (\<lambda>checks.
          if \<not> fits checks \<and> \<not> allow_breach then ret (Declined checks)
          else and_then (draw_uuid env) (\<lambda>i.
            and_then (zone_result (period_keys env (acc_declarations acct) now)) (\<lambda>keys.
            and_then (append_entry (Reserved i (acc_principal acct) amount keys (stamp now)
                (stamp (now + reservation_ttl)) (env_pid env) context_text)) (\<lambda>_.
            ret (if fits checks then Reserved_ok \<lparr>res_id = i, res_amount = amount\<rparr> checks
                 else ReservedWithBreach \<lparr>res_id = i, res_amount = amount\<rparr> checks))))))))"

definition quote_note :: "money \<Rightarrow> money \<Rightarrow> string \<Rightarrow> string" where
  "quote_note observed quoted receipt_note =
     (if observed = quoted then ''receipt matches the quote: '' @ receipt_note
      else ''receipt differs from the quote ('' @ as_decimal_string quoted @ '' '' @ currency quoted
        @ '' quoted, '' @ as_decimal_string observed @ '' '' @ currency observed @ '' charged): '' @ receipt_note)"

definition no_charge_reason :: "string \<Rightarrow> string" where
  "no_charge_reason receipt_note =
     ''released on the receipt: no charge in currency was reported, so nothing is counted against a monetary allowance (''
     @ receipt_note @ '')''"

definition reconcile :: "ledger_env \<Rightarrow> account \<Rightarrow> reservation \<Rightarrow> money option \<Rightarrow> int \<Rightarrow> string \<Rightarrow> string
    \<Rightarrow> string ledger_op" where
  "reconcile env acct res receipt now context_text receipt_note =
     and_then lock_ledger (\<lambda>_. and_then (sweep_expired env now) (\<lambda>_.
       case receipt of
         Some observed \<Rightarrow>
           and_then (draw_uuid env) (\<lambda>i.
           and_then (zone_result (period_keys env (acc_declarations acct) now)) (\<lambda>keys.
           and_then (append_settlement (Committed i (Some (res_id res)) (acc_principal acct) observed keys
               (stamp now) context_text (quote_note observed (res_amount res) receipt_note))) (\<lambda>_.
           ret (quote_note observed (res_amount res) receipt_note))))
       | None \<Rightarrow>
           and_then (draw_uuid env) (\<lambda>i.
           and_then (append_settlement (Released i (res_id res) (stamp now) (no_charge_reason receipt_note))) (\<lambda>_.
           ret (no_charge_reason receipt_note)))))"

definition release :: "ledger_env \<Rightarrow> reservation \<Rightarrow> int \<Rightarrow> string \<Rightarrow> unit ledger_op" where
  "release env res now reason =
     and_then lock_ledger (\<lambda>_. and_then (draw_uuid env) (\<lambda>i.
       append_entry (Released i (res_id res) (stamp now) reason)))"

definition commit_observed :: "ledger_env \<Rightarrow> account \<Rightarrow> money \<Rightarrow> int \<Rightarrow> string \<Rightarrow> string \<Rightarrow> unit ledger_op" where
  "commit_observed env acct amount now context_text note_text =
     (if acc_declarations acct = [] then ret ()
      else and_then lock_ledger (\<lambda>_. and_then (sweep_expired env now) (\<lambda>_.
        and_then (draw_uuid env) (\<lambda>i.
        and_then (zone_result (period_keys env (acc_declarations acct) now)) (\<lambda>keys.
        append_settlement (Committed i None (acc_principal acct) amount keys (stamp now) context_text note_text))))))"

definition period_standing :: "ledger_env \<Rightarrow> ledger_entry list \<Rightarrow> account \<Rightarrow> int \<Rightarrow> allowance_declaration
    \<Rightarrow> string + period_state" where
  "period_standing env entries acct now d =
     res_map (\<lambda>key.
       let (committed, reserved) = spent entries (acc_principal acct) d key now;
           held = saturating_add committed reserved; cur = currency (decl_amount d)
       in \<lparr>ps_period = decl_period d, ps_key = key, ps_declared = decl_amount d,
           ps_committed = money_new cur committed, ps_reserved = money_new cur reserved,
           ps_remaining = money_new cur (saturating_sub (micros (decl_amount d)) held),
           ps_exceeded = (micros (decl_amount d) < held)\<rparr>)
       (period_key env d now)"

definition ledger_standing :: "ledger_env \<Rightarrow> account \<Rightarrow> int \<Rightarrow> period_state list ledger_op" where
  "ledger_standing env acct now =
     and_then lock_ledger (\<lambda>_. and_then (sweep_expired env now) (\<lambda>entries.
       zone_result (traverse (period_standing env entries acct now) (acc_declarations acct))))"


subsection \<open>What a period holds, without the width\<close>

text \<open>The committed and reserved sums as natural numbers: what the 64-bit saturating sums are
  the truncation of.\<close>

fun committed_part :: "string \<Rightarrow> allowance_declaration \<Rightarrow> period_key \<Rightarrow> ledger_entry \<Rightarrow> nat" where
  "committed_part p d key (Committed _ _ ep amount keys _ _ _) =
     (if counts_for p d key ep amount keys then unat (micros amount) else 0)"
| "committed_part p d key _ = 0"

fun reserved_part :: "string \<Rightarrow> allowance_declaration \<Rightarrow> period_key \<Rightarrow> int \<Rightarrow> uuid set \<Rightarrow> ledger_entry \<Rightarrow> nat" where
  "reserved_part p d key now R (Reserved i ep amount keys _ expires _ _) =
     (if counts_for p d key ep amount keys \<and> i \<notin> R \<and> stamp now < expires
      then unat (micros amount) else 0)"
| "reserved_part p d key now R _ = 0"

definition committed_sum :: "ledger_entry list \<Rightarrow> string \<Rightarrow> allowance_declaration \<Rightarrow> period_key \<Rightarrow> nat" where
  "committed_sum es p d key = sum_list (map (committed_part p d key) es)"

definition reserved_sum :: "uuid set \<Rightarrow> ledger_entry list \<Rightarrow> string \<Rightarrow> allowance_declaration \<Rightarrow> period_key \<Rightarrow> int \<Rightarrow> nat" where
  "reserved_sum R es p d key now = sum_list (map (reserved_part p d key now R) es)"

definition held_sum :: "ledger_entry list \<Rightarrow> string \<Rightarrow> allowance_declaration \<Rightarrow> period_key \<Rightarrow> int \<Rightarrow> nat" where
  "held_sum es p d key now =
     committed_sum es p d key + reserved_sum (set (resolved_ids es)) es p d key now"

abbreviation u64_max :: nat where
  "u64_max \<equiv> 18446744073709551615"

lemma unat_sat_u64: "unat (saturating_add a b :: u64) = min (unat a + unat b) u64_max"
  by (simp add: unat_saturating_add)

lemma unat_u64_le: "unat (a :: u64) \<le> u64_max"
  using unat_le_max [of a] by simp

lemma min_sat_assoc: "min (min a m + b) m = min (a + b) (m :: nat)"
  by (auto simp: min_def)

lemma spent_fold:
  "foldl (spent_step p d key now R) (c, r) es = (c', r') \<Longrightarrow>
     unat c' = min (unat c + committed_sum es p d key) u64_max \<and>
     unat r' = min (unat r + reserved_sum (set R) es p d key now) u64_max"
proof (induction es arbitrary: c r)
  case Nil
  then show ?case using unat_u64_le [of c] unat_u64_le [of r]
    by (auto simp: committed_sum_def reserved_sum_def)
next
  case (Cons e es)
  obtain c1 r1 where step: "spent_step p d key now R (c, r) e = (c1, r1)" by fastforce
  have c1: "unat c1 = min (unat c + committed_part p d key e) u64_max"
    and r1: "unat r1 = min (unat r + reserved_part p d key now (set R) e) u64_max"
    using step unat_u64_le [of c] unat_u64_le [of r]
    by (cases e; auto simp: unat_sat_u64 split: if_splits)+
  from Cons.prems step have "foldl (spent_step p d key now R) (c1, r1) es = (c', r')" by simp
  from Cons.IH [OF this] c1 r1 show ?case
    by (simp add: committed_sum_def reserved_sum_def min_sat_assoc add.assoc)
qed

lemma spent_exact:
  assumes "spent es p d key now = (c, r)"
  shows "unat c = min (committed_sum es p d key) u64_max"
    and "unat r = min (reserved_sum (set (resolved_ids es)) es p d key now) u64_max"
  using spent_fold [of p d key now "resolved_ids es" 0 0 es c r] assms
  by (auto simp: spent_def)

lemma held_exact:
  assumes "spent es p d key now = (c, r)"
  shows "unat (saturating_add c r) = min (held_sum es p d key now) u64_max"
  by (auto simp: unat_sat_u64 spent_exact [OF assms] held_sum_def min_def)

subsection \<open>How appending changes what is held\<close>

lemma resolved_ids_append [simp]: "resolved_ids (es @ fs) = resolved_ids es @ resolved_ids fs"
  by (simp add: resolved_ids_def List.map_filter_def)

lemma resolved_ids_simps [simp]:
  "resolved_ids [] = []"
  "resolved_ids (e # es) = (case resolves e of None \<Rightarrow> resolved_ids es | Some i \<Rightarrow> i # resolved_ids es)"
  by (auto simp: resolved_ids_def List.map_filter_def split: option.splits)

lemma committed_sum_append [simp]:
  "committed_sum (es @ fs) p d key = committed_sum es p d key + committed_sum fs p d key"
  by (simp add: committed_sum_def)

lemma reserved_sum_append [simp]:
  "reserved_sum R (es @ fs) p d key now = reserved_sum R es p d key now + reserved_sum R fs p d key now"
  by (simp add: reserved_sum_def)

lemma sum_simps [simp]:
  "committed_sum [] p d key = 0" "reserved_sum R [] p d key now = 0"
  "committed_sum (e # es) p d key = committed_part p d key e + committed_sum es p d key"
  "reserved_sum R (e # es) p d key now = reserved_part p d key now R e + reserved_sum R es p d key now"
  by (simp_all add: committed_sum_def reserved_sum_def)

lemma reserved_part_antimono: "R \<subseteq> S \<Longrightarrow> reserved_part p d key now S e \<le> reserved_part p d key now R e"
  by (cases e) auto

lemma reserved_sum_antimono: "R \<subseteq> S \<Longrightarrow> reserved_sum S es p d key now \<le> reserved_sum R es p d key now"
  unfolding reserved_sum_def by (rule sum_list_mono) (rule reserved_part_antimono)

lemma stamp_mono: "now \<le> now' \<Longrightarrow> stamp now \<le> stamp now'"
  by (simp add: stamp_def zdiv_mono1)

lemma reserved_sum_time: "now \<le> now' \<Longrightarrow> reserved_sum R es p d key now' \<le> reserved_sum R es p d key now"
proof (induction es)
  case (Cons e es)
  then have "reserved_part p d key now' R e \<le> reserved_part p d key now R e"
    using stamp_mono [OF Cons.prems] by (cases e) auto
  with Cons show ?case by simp
qed simp

lemma held_sum_time: "now \<le> now' \<Longrightarrow> held_sum es p d key now' \<le> held_sum es p d key now"
  using reserved_sum_time by (simp add: held_sum_def)

text \<open>Taking one counted reservation out of the live ones lowers the reserved sum by its
  amount at least.\<close>

lemma reserved_sum_resolve:
  assumes "Reserved i ep amount keys t expires pid ctx \<in> set es" "i \<notin> R" "stamp now < expires"
    "counts_for p d key ep amount keys"
  shows "reserved_sum (insert i R) es p d key now + unat (micros amount) \<le> reserved_sum R es p d key now"
proof -
  obtain xs ys where es: "es = xs @ Reserved i ep amount keys t expires pid ctx # ys"
    using assms(1) by (meson split_list)
  have "reserved_sum (insert i R) zs p d key now \<le> reserved_sum R zs p d key now" for zs
    by (rule reserved_sum_antimono) blast
  from this [of xs] this [of ys] show ?thesis using assms by (simp add: es)
qed

definition is_released :: "ledger_entry \<Rightarrow> bool" where
  "is_released e \<longleftrightarrow> (case e of Released _ _ _ _ \<Rightarrow> True | _ \<Rightarrow> False)"

lemma held_append_released:
  assumes "list_all is_released rel"
  shows "held_sum (es @ rel) p d key now \<le> held_sum es p d key now"
proof -
  have zero: "committed_sum rel p d key = 0" "reserved_sum R rel p d key now = 0" for R
    using assms by (induction rel) (auto simp: is_released_def split: ledger_entry.splits)
  show ?thesis
    using reserved_sum_antimono [of "set (resolved_ids es)" "set (resolved_ids (es @ rel))"]
    by (simp add: held_sum_def zero)
qed

lemma held_append_reserved:
  "held_sum (es @ [Reserved i ep amount keys t x pid ctx]) p d key now \<le>
     held_sum es p d key now + (if counts_for p d key ep amount keys then unat (micros amount) else 0)"
  by (simp add: held_sum_def)

lemma held_append_settlement:
  assumes "Reserved i ep quoted keys t x pid ctx \<in> set es" "i \<notin> set (resolved_ids es)" "stamp now < x"
    and "unat (micros observed) \<le> unat (micros quoted)" "currency observed = currency quoted"
  shows "held_sum (es @ [Committed j (Some i) ep observed keys t' ctx' n]) p d key now \<le> held_sum es p d key now"
proof (cases "counts_for p d key ep observed keys")
  case True
  with assms(5) have "counts_for p d key ep quoted keys" by (simp add: counts_for_def)
  from reserved_sum_resolve [OF assms(1,2,3) this] assms(4) True show ?thesis
    by (simp add: held_sum_def)
next
  case False
  then show ?thesis
    using reserved_sum_antimono [of "set (resolved_ids es)" "insert i (set (resolved_ids es))"]
    by (simp add: held_sum_def) (meson order.trans reserved_sum_antimono subset_insertI)
qed

end
