(* ===== verification/Ledger_Runs.thy ===== *)
theory Ledger_Runs
  imports Allowance
begin

section \<open>What runs of the allowance ledger guarantee\<close>

text \<open>
  The operations of \<open>Allowance\<close> run against the file: each extends it by the releases of the
  sweep and at most one entry of its own, no fault ever changes a line already written, and
  any interleaving of strict reservations and honest settlements keeps every declared period
  within its amount. The last part shows what the second attempt of a settlement does when the
  first one failed after its line had reached the file.
\<close>

subsection \<open>What each operation leaves in the file\<close>

definition ledger_sound :: "ledger_state \<Rightarrow> bool" where
  "ledger_sound s \<longleftrightarrow> ends_in_newline (led_file s) \<and> led_appends s = []"

abbreviation entries_of :: "ledger_state \<Rightarrow> read_error + ledger_entry list" where
  "entries_of s \<equiv> read_rows (led_file s)"

interpretation ledlog: append_log entries_of append_raw ledger_sound
  by unfold_locales
    (auto simp: append_raw_def append_row_def ledger_sound_def read_write_line)

definition with_entry :: "ledger_entry \<Rightarrow> ledger_state \<Rightarrow> ledger_state" where
  "with_entry e s = s\<lparr>led_file := Some (write_line e (contents (led_file s)))\<rparr>"

lemma append_run:
  assumes "ledger_sound s"
  shows "append_raw e s = (Inr (), with_entry e s)"
    and "append_entry e s = (Inr (), with_entry e s)"
    and "append_settlement e s = (Inr (), with_entry e s)"
proof -
  show raw: "append_raw e s = (Inr (), with_entry e s)"
    using assms by (simp add: append_raw_def append_row_def ledger_sound_def with_entry_def)
  show "append_entry e s = (Inr (), with_entry e s)"
    "append_settlement e s = (Inr (), with_entry e s)"
    by (simp_all add: append_entry_def append_settlement_def raw)
qed

lemma with_entry_sound:
  assumes "ledger_sound s" "entries_of s = Inr es"
  shows "ledger_sound (with_entry e s)" "entries_of (with_entry e s) = Inr (es @ [e])"
  using ledlog.append_ok [OF assms append_run(1) [OF assms(1)]] by auto

lemma with_entry_drawn [simp]: "led_drawn (with_entry e s) = led_drawn s"
  by (simp add: with_entry_def)

lemma lock_ledger_keeps:
  "lock_ledger s = (r, s') \<Longrightarrow> led_file s' = led_file s \<and> led_appends s' = led_appends s \<and> led_drawn s' = led_drawn s"
  by (auto simp: lock_ledger_def split: list.splits option.splits)

lemma read_ledger_keeps:
  "read_ledger s = (r, s') \<Longrightarrow>
     led_file s' = led_file s \<and> led_appends s' = led_appends s \<and> led_drawn s' = led_drawn s \<and>
     (\<forall>es. r = Inr es \<longrightarrow> entries_of s = Inr es)"
  by (auto simp: read_ledger_def split: list.splits option.splits sum.splits)

lemma draw_uuid_run:
  "draw_uuid env s = (r, s') \<longleftrightarrow> r = Inr (env_uuid env (led_drawn s)) \<and> s' = s\<lparr>led_drawn := Suc (led_drawn s)\<rparr>"
  by (auto simp: draw_uuid_def)

lemma ledger_sound_drawn [simp]: "ledger_sound (s\<lparr>led_drawn := n\<rparr>) = ledger_sound s"
  by (simp add: ledger_sound_def)

lemma release_each_run:
  assumes "ledger_sound s" "entries_of s = Inr es" "release_each env now pend es s = (r, s')"
  shows "\<exists>rel. r = Inr (es @ rel) \<and> ledger_sound s' \<and> entries_of s' = Inr (es @ rel) \<and>
    list_all is_released rel \<and> resolved_ids rel = map fst pend \<and> led_drawn s \<le> led_drawn s'"
  using assms
proof (induction env now pend es arbitrary: s rule: release_each.induct)
  case (1 env now es)
  then show ?case by (auto simp: exec_simps)
next
  case (2 env now rid x pend es)
  let ?i = "env_uuid env (led_drawn s)" and ?s1 = "s\<lparr>led_drawn := Suc (led_drawn s)\<rparr>"
  let ?rel = "Released ?i rid (stamp now) (expiry_reason env x)"
  have d: "draw_uuid env s = (Inr ?i, ?s1)" by (simp add: draw_uuid_def)
  from "2.prems" have s1: "ledger_sound ?s1" "entries_of ?s1 = Inr es" by simp_all
  let ?s2 = "with_entry ?rel ?s1"
  have s2: "ledger_sound ?s2" "entries_of ?s2 = Inr (es @ [?rel])"
    by (rule with_entry_sound [OF s1])+
  from "2.prems"(3) have run: "release_each env now pend (es @ [?rel]) ?s2 = (r, s')"
    by (simp add: and_then_def d append_run(2) [OF s1(1)] Let_def)
  from "2.IH" [OF refl s2 run] show ?case by (auto simp: is_released_def)
qed

lemma sweep_run:
  assumes "ledger_sound s" "entries_of s = Inr es" "sweep_expired env now s = (r, s')"
  shows "\<exists>rel. ledger_sound s' \<and> entries_of s' = Inr (es @ rel) \<and> list_all is_released rel \<and>
    led_drawn s \<le> led_drawn s' \<and>
    (\<forall>v. r = Inr v \<longrightarrow> v = es @ rel \<and>
       resolved_ids rel = map fst (List.map_filter (expired_of (resolved_ids es) now) es))"
proof -
  obtain r1 s1 where rd: "read_ledger s = (r1, s1)" by fastforce
  from read_ledger_keeps [OF rd] assms(1,2)
  have s1: "ledger_sound s1" "entries_of s1 = Inr es" "led_drawn s1 = led_drawn s"
    and r1: "\<And>v. r1 = Inr v \<Longrightarrow> v = es"
    by (auto simp: ledger_sound_def)
  show ?thesis
  proof (cases r1)
    case (Inl e)
    with assms(3) rd have "r = Inl e" "s' = s1"
      by (simp_all add: sweep_expired_def and_then_err)
    with s1 show ?thesis by (intro exI [of _ "[]"]) auto
  next
    case (Inr v)
    with r1 assms(3) rd
    have "release_each env now (List.map_filter (expired_of (resolved_ids es) now) es) es s1 = (r, s')"
      by (simp add: sweep_expired_def and_then_ok)
    from release_each_run [OF s1(1,2) this] s1(3) show ?thesis by auto
  qed
qed

lemma zone_result_run: "zone_result q s = (r, s') \<longleftrightarrow> s' = s \<and> r = (case q of Inl e \<Rightarrow> Inl (Unknown_zone e) | Inr a \<Rightarrow> Inr a)"
  by (cases q) (auto simp: zone_result_def exec_simps)

text \<open>Every operation of the ledger extends the file: the releases of the sweep, then at most
  one entry of its own.\<close>

definition extends_by :: "ledger_state \<Rightarrow> ledger_entry list \<Rightarrow> ledger_state \<Rightarrow> (ledger_entry list \<Rightarrow> ledger_entry \<Rightarrow> bool) \<Rightarrow> bool" where
  "extends_by s es s' own \<longleftrightarrow>
     ledger_sound s' \<and> led_drawn s \<le> led_drawn s' \<and>
     (\<exists>rel. list_all is_released rel \<and>
       (entries_of s' = Inr (es @ rel) \<or>
        (\<exists>e. entries_of s' = Inr (es @ rel @ [e]) \<and> own (es @ rel) e)))"

lemma extends_by_sweep:
  assumes "ledger_sound s" "entries_of s = Inr es" "led_drawn s0 \<le> led_drawn s"
    "and_then (sweep_expired env now) k s = (r, s')"
    and k: "\<And>rel s1. ledger_sound s1 \<Longrightarrow> entries_of s1 = Inr (es @ rel) \<Longrightarrow> list_all is_released rel \<Longrightarrow>
        led_drawn s0 \<le> led_drawn s1 \<Longrightarrow>
        resolved_ids rel = map fst (List.map_filter (expired_of (resolved_ids es) now) es) \<Longrightarrow>
        k (es @ rel) s1 = (r, s') \<Longrightarrow> extends_by s0 es s' own"
  shows "extends_by s0 es s' own"
  using assms(4)
proof (cases rule: and_thenE)
  case (err e)
  from sweep_run [OF assms(1,2) err(1)] assms(3) show ?thesis
    by (auto simp: extends_by_def)
next
  case (ok v s1)
  from sweep_run [OF assms(1,2) ok(1)] obtain rel where
    "ledger_sound s1" "entries_of s1 = Inr (es @ rel)" "list_all is_released rel"
    "led_drawn s \<le> led_drawn s1" "v = es @ rel"
    "resolved_ids rel = map fst (List.map_filter (expired_of (resolved_ids es) now) es)"
    by auto
  then show ?thesis using k ok(2) assms(3) by (meson order.trans)
qed

lemma extends_by_lock:
  assumes "ledger_sound s" "entries_of s = Inr es" "and_then lock_ledger k s = (r, s')"
    and k: "\<And>s1. ledger_sound s1 \<Longrightarrow> entries_of s1 = Inr es \<Longrightarrow> led_drawn s1 = led_drawn s \<Longrightarrow>
        k () s1 = (r, s') \<Longrightarrow> extends_by s es s' own"
  shows "extends_by s es s' own"
  using assms(3)
proof (cases rule: and_thenE)
  case (err e)
  from lock_ledger_keeps [OF err(1)] assms(1,2) show ?thesis
    by (auto simp: extends_by_def ledger_sound_def intro: exI [of _ "[]"])
next
  case (ok u s1)
  from lock_ledger_keeps [OF ok(1)] assms(1,2) show ?thesis
    by (intro k [of s1]) (use ok in \<open>auto simp: ledger_sound_def\<close>)
qed

lemma extends_by_rel:
  "ledger_sound s' \<Longrightarrow> entries_of s' = Inr (es @ rel) \<Longrightarrow> list_all is_released rel \<Longrightarrow>
     led_drawn s \<le> led_drawn s' \<Longrightarrow> extends_by s es s' own"
  by (auto simp: extends_by_def)

lemma extends_by_own:
  assumes "ledger_sound s1" "entries_of s1 = Inr (es @ rel)" "list_all is_released rel"
    "led_drawn s \<le> led_drawn s1" "own (es @ rel) e"
  shows "extends_by s es (with_entry e s1) own"
  using with_entry_sound [OF assms(1,2), of e] assms(3-5) by (auto simp: extends_by_def)

lemma extends_by_keyed:
  assumes run: "and_then (draw_uuid env) (\<lambda>i. and_then (zone_result q) (\<lambda>keys. step i keys)) s1 = (r, s')"
    and s1: "ledger_sound s1" "entries_of s1 = Inr (es @ rel)" "list_all is_released rel" "led_drawn s \<le> led_drawn s1"
    and step: "\<And>keys s2. q = Inr keys \<Longrightarrow> ledger_sound s2 \<Longrightarrow> entries_of s2 = Inr (es @ rel) \<Longrightarrow>
      led_drawn s2 = Suc (led_drawn s1) \<Longrightarrow> step (env_uuid env (led_drawn s1)) keys s2 = (r, s') \<Longrightarrow>
      extends_by s es s' own"
  shows "extends_by s es s' own"
proof -
  let ?s2 = "s1\<lparr>led_drawn := Suc (led_drawn s1)\<rparr>"
  have run: "and_then (zone_result q) (\<lambda>keys. step (env_uuid env (led_drawn s1)) keys) ?s2 = (r, s')"
    using run by (simp add: and_then_def draw_uuid_def)
  have s2: "ledger_sound ?s2" "entries_of ?s2 = Inr (es @ rel)" using s1 by simp_all
  show ?thesis
  proof (cases q)
    case (Inl e)
    then have "s' = ?s2" using run by (simp add: and_then_def zone_result_def exec_simps)
    with s1 s2 show ?thesis by (intro extends_by_rel) auto
  next
    case (Inr keys)
    then have "step (env_uuid env (led_drawn s1)) keys ?s2 = (r, s')"
      using run by (simp add: and_then_def zone_result_def exec_simps)
    with Inr s2 show ?thesis by (intro step [of keys ?s2]) auto
  qed
qed

definition reserves_for :: "ledger_env \<Rightarrow> account \<Rightarrow> money \<Rightarrow> int \<Rightarrow> bool \<Rightarrow> nat \<Rightarrow> nat \<Rightarrow> ledger_entry list \<Rightarrow> ledger_entry \<Rightarrow> bool" where
  "reserves_for env acct amount now allow_breach lo hi es e \<longleftrightarrow>
     (\<exists>n keys ctx checks. lo \<le> n \<and> n < hi \<and> e = Reserved (env_uuid env n) (acc_principal acct) amount keys (stamp now)
         (stamp (now + reservation_ttl)) (env_pid env) ctx \<and>
       period_keys env (acc_declarations acct) now = Inr keys \<and>
       checks_for env es acct (Some amount) now = Inr checks \<and> (fits checks \<or> allow_breach))"

lemma reserve_extends:
  assumes "ledger_sound s" "entries_of s = Inr es" "reserve env acct amount now ctx b s = (r, s')"
  shows "extends_by s es s' (reserves_for env acct amount now b (led_drawn s) (led_drawn s'))"
proof (cases "acc_declarations acct = []")
  case True
  with assms show ?thesis by (intro extends_by_rel [of _ _ "[]"]) (auto simp: reserve_def exec_simps)
next
  case False
  then have run: "and_then lock_ledger (\<lambda>_. and_then (sweep_expired env now) (\<lambda>entries.
        and_then (zone_result (checks_for env entries acct (Some amount) now)) (\<lambda>checks.
          if \<not> fits checks \<and> \<not> b then ret (Declined checks)
          else and_then (draw_uuid env) (\<lambda>i.
            and_then (zone_result (period_keys env (acc_declarations acct) now)) (\<lambda>keys.
            and_then (append_entry (Reserved i (acc_principal acct) amount keys (stamp now)
                (stamp (now + reservation_ttl)) (env_pid env) ctx)) (\<lambda>_.
            ret (if fits checks then Reserved_ok \<lparr>res_id = i, res_amount = amount\<rparr> checks
                 else ReservedWithBreach \<lparr>res_id = i, res_amount = amount\<rparr> checks))))))) s = (r, s')"
    using assms(3) by (simp add: reserve_def)
  show ?thesis
  proof (rule extends_by_lock [OF assms(1,2) run], rule extends_by_sweep)
    fix s1 rel s2
    assume s2: "ledger_sound s2" "entries_of s2 = Inr (es @ rel)" "list_all is_released rel"
      "led_drawn s \<le> led_drawn s2"
      and k: "and_then (zone_result (checks_for env (es @ rel) acct (Some amount) now)) (\<lambda>checks.
          if \<not> fits checks \<and> \<not> b then ret (Declined checks)
          else and_then (draw_uuid env) (\<lambda>i.
            and_then (zone_result (period_keys env (acc_declarations acct) now)) (\<lambda>keys.
            and_then (append_entry (Reserved i (acc_principal acct) amount keys (stamp now)
                (stamp (now + reservation_ttl)) (env_pid env) ctx)) (\<lambda>_.
            ret (if fits checks then Reserved_ok \<lparr>res_id = i, res_amount = amount\<rparr> checks
                 else ReservedWithBreach \<lparr>res_id = i, res_amount = amount\<rparr> checks))))) s2 = (r, s')"
    from k show "extends_by s es s' (reserves_for env acct amount now b (led_drawn s) (led_drawn s'))"
    proof (cases rule: and_thenE)
      case (err e)
      with s2 show ?thesis by (intro extends_by_rel) (auto simp: zone_result_run)
    next
      case (ok checks s3)
      then have c: "checks_for env (es @ rel) acct (Some amount) now = Inr checks" and s3: "s3 = s2"
        by (auto simp: zone_result_run split: sum.splits)
      show ?thesis
      proof (cases "\<not> fits checks \<and> \<not> b")
        case True
        with ok s3 s2 show ?thesis by (intro extends_by_rel) (auto simp: exec_simps)
      next
        case False
        with ok(2) s3 show ?thesis
          by (simp only: if_False, elim extends_by_keyed [OF _ s2])
            (use c s2 False in \<open>auto simp: and_then_def append_run exec_simps reserves_for_def intro!: extends_by_own\<close>)
      qed
    qed
  qed auto
qed

definition commits_for :: "ledger_env \<Rightarrow> account \<Rightarrow> uuid option \<Rightarrow> money \<Rightarrow> int \<Rightarrow> ledger_entry list \<Rightarrow> ledger_entry \<Rightarrow> bool" where
  "commits_for env acct rid observed now es e \<longleftrightarrow>
     (\<exists>i keys ctx n. e = Committed i rid (acc_principal acct) observed keys (stamp now) ctx n \<and>
       period_keys env (acc_declarations acct) now = Inr keys)"

definition settles_for :: "ledger_env \<Rightarrow> account \<Rightarrow> reservation \<Rightarrow> money option \<Rightarrow> int \<Rightarrow> ledger_entry list \<Rightarrow> ledger_entry \<Rightarrow> bool" where
  "settles_for env acct res receipt now es e \<longleftrightarrow>
     (case receipt of
        Some observed \<Rightarrow> commits_for env acct (Some (res_id res)) observed now es e
      | None \<Rightarrow> is_released e \<and> resolves e = Some (res_id res))"

definition swept :: "ledger_entry list \<Rightarrow> int \<Rightarrow> ledger_entry list \<Rightarrow> bool" where
  "swept es now es' \<longleftrightarrow> set (resolved_ids es') \<subseteq> set (resolved_ids es) \<union>
     {i. \<exists>ep am ks t x pid ctx. Reserved i ep am ks t x pid ctx \<in> set es \<and> x \<le> stamp now}"

lemma expired_of_Some: "expired_of R now e = Some (i, x) \<Longrightarrow>
    \<exists>ep am ks t pid ctx. e = Reserved i ep am ks t x pid ctx \<and> x \<le> stamp now"
  by (cases e) (auto split: if_splits)

lemma swept_rel:
  assumes "resolved_ids rel = map fst (List.map_filter (expired_of (resolved_ids es) now) es)"
  shows "swept es now (es @ rel)"
  using assms expired_of_Some [of "resolved_ids es" now]
  by (fastforce simp: swept_def List.map_filter_def)

lemma reconcile_extends:
  assumes "ledger_sound s" "entries_of s = Inr es" "reconcile env acct res receipt now ctx n s = (r, s')"
  shows "extends_by s es s' (\<lambda>es' e. settles_for env acct res receipt now es' e \<and> swept es now es')"
proof (rule extends_by_lock [OF assms(1,2) assms(3) [unfolded reconcile_def]], rule extends_by_sweep)
  fix s1 rel s2
  assume s2: "ledger_sound s2" "entries_of s2 = Inr (es @ rel)" "list_all is_released rel"
    "led_drawn s \<le> led_drawn s2"
    and rel: "resolved_ids rel = map fst (List.map_filter (expired_of (resolved_ids es) now) es)"
    and k: "(case receipt of
         Some observed \<Rightarrow>
           and_then (draw_uuid env) (\<lambda>i.
           and_then (zone_result (period_keys env (acc_declarations acct) now)) (\<lambda>keys.
           and_then (append_settlement (Committed i (Some (res_id res)) (acc_principal acct) observed keys
               (stamp now) ctx (quote_note observed (res_amount res) n))) (\<lambda>_.
           ret (quote_note observed (res_amount res) n))))
       | None \<Rightarrow>
           and_then (draw_uuid env) (\<lambda>i.
           and_then (append_settlement (Released i (res_id res) (stamp now) (no_charge_reason n))) (\<lambda>_.
           ret (no_charge_reason n)))) s2 = (r, s')"
  note sw = swept_rel [OF rel]
  show "extends_by s es s' (\<lambda>es' e. settles_for env acct res receipt now es' e \<and> swept es now es')"
  proof (cases receipt)
    case None
    with k s2 sw show ?thesis
      by (auto simp: and_then_def draw_uuid_def append_run exec_simps settles_for_def is_released_def
          intro!: extends_by_own)
  next
    case (Some observed)
    with k show ?thesis
      by (simp only: option.case, elim extends_by_keyed [OF _ s2])
        (use s2 Some sw in \<open>auto simp: and_then_def append_run exec_simps settles_for_def commits_for_def
          intro!: extends_by_own\<close>)
  qed
qed auto

lemma release_extends:
  assumes "ledger_sound s" "entries_of s = Inr es" "release env res now reason s = (r, s')"
  shows "extends_by s es s' (\<lambda>es e. is_released e \<and> resolves e = Some (res_id res))"
proof (rule extends_by_lock [OF assms(1,2) assms(3) [unfolded release_def]])
  fix s1
  assume "ledger_sound s1" "entries_of s1 = Inr es" "led_drawn s1 = led_drawn s"
    "and_then (draw_uuid env) (\<lambda>i. append_entry (Released i (res_id res) (stamp now) reason)) s1 = (r, s')"
  then show "extends_by s es s' (\<lambda>es e. is_released e \<and> resolves e = Some (res_id res))"
    by (auto simp: and_then_def draw_uuid_def append_run is_released_def
        intro!: extends_by_own [where rel = "[]"])
qed

lemma commit_observed_extends:
  assumes "ledger_sound s" "entries_of s = Inr es" "commit_observed env acct amount now ctx n s = (r, s')"
  shows "extends_by s es s' (commits_for env acct None amount now)"
proof (cases "acc_declarations acct = []")
  case True
  with assms show ?thesis by (intro extends_by_rel [of _ _ "[]"]) (auto simp: commit_observed_def exec_simps)
next
  case False
  with assms(3) have run: "and_then lock_ledger (\<lambda>_. and_then (sweep_expired env now) (\<lambda>_.
        and_then (draw_uuid env) (\<lambda>i.
        and_then (zone_result (period_keys env (acc_declarations acct) now)) (\<lambda>keys.
        append_settlement (Committed i None (acc_principal acct) amount keys (stamp now) ctx n))))) s = (r, s')"
    by (simp add: commit_observed_def)
  show ?thesis
  proof (rule extends_by_lock [OF assms(1,2) run], rule extends_by_sweep)
    fix s1 rel s2
    assume s2: "ledger_sound s2" "entries_of s2 = Inr (es @ rel)" "list_all is_released rel"
      "led_drawn s \<le> led_drawn s2"
      and k: "and_then (draw_uuid env) (\<lambda>i.
        and_then (zone_result (period_keys env (acc_declarations acct) now)) (\<lambda>keys.
        append_settlement (Committed i None (acc_principal acct) amount keys (stamp now) ctx n))) s2 = (r, s')"
    from k show "extends_by s es s' (commits_for env acct None amount now)"
      by (elim extends_by_keyed [OF _ s2])
        (use s2 in \<open>auto simp: append_run commits_for_def intro!: extends_by_own\<close>)
  qed auto
qed

lemma ledger_standing_extends:
  assumes "ledger_sound s" "entries_of s = Inr es" "ledger_standing env acct now s = (r, s')"
  shows "extends_by s es s' (\<lambda>_ _. False)"
    and "r = Inr states \<Longrightarrow> \<exists>rel. list_all is_released rel \<and>
      traverse (period_standing env (es @ rel) acct now) (acc_declarations acct) = Inr states"
proof -
  note run = assms(3) [unfolded ledger_standing_def]
  show "extends_by s es s' (\<lambda>_ _. False)"
    by (rule extends_by_lock [OF assms(1,2) run], rule extends_by_sweep)
      (auto simp: zone_result_run intro: extends_by_rel)
  assume r: "r = Inr states"
  from run show "\<exists>rel. list_all is_released rel \<and>
      traverse (period_standing env (es @ rel) acct now) (acc_declarations acct) = Inr states"
  proof (cases rule: and_thenE)
    case (err e)
    with r show ?thesis by simp
  next
    case (ok u s1)
    from lock_ledger_keeps [OF ok(1)] assms(1,2) have s1: "ledger_sound s1" "entries_of s1 = Inr es"
      by (auto simp: ledger_sound_def)
    from ok(2) show ?thesis
    proof (cases rule: and_thenE)
      case (err e)
      with r show ?thesis by simp
    next
      case (ok v s2)
      from sweep_run [OF s1 ok(1)] ok(2) r show ?thesis
        by (fastforce simp: zone_result_run split: sum.splits)
    qed
  qed
qed

subsection \<open>Strict spending never passes the declared amounts\<close>

text \<open>
  The steps any number of processes can take on one ledger, one at a time because each holds
  the lock: time passes; the account reserves in strict mode, releases, and settles against a
  receipt that charges no more than was reserved, while the reservation is live and in the
  periods it was reserved in; any other principal does anything; anyone asks for a standing.
\<close>

fun reserve_id :: "ledger_entry \<Rightarrow> uuid option" where
  "reserve_id (Reserved i _ _ _ _ _ _ _) = Some i"
| "reserve_id _ = None"

definition reserve_ids :: "ledger_entry list \<Rightarrow> uuid list" where
  "reserve_ids es = List.map_filter reserve_id es"

definition honest_receipt :: "ledger_env \<Rightarrow> account \<Rightarrow> reservation \<Rightarrow> money option \<Rightarrow> int \<Rightarrow> ledger_state \<Rightarrow> bool" where
  "honest_receipt env acct res receipt now s \<longleftrightarrow>
     (case receipt of None \<Rightarrow> True
      | Some observed \<Rightarrow>
          currency observed = currency (res_amount res) \<and> micros observed \<le> micros (res_amount res) \<and>
          (\<exists>es keys t x pid ctx. entries_of s = Inr es \<and>
             Reserved (res_id res) (acc_principal acct) (res_amount res) keys t x pid ctx \<in> set es \<and>
             res_id res \<notin> set (resolved_ids es) \<and> stamp now < x \<and>
             period_keys env (acc_declarations acct) now = Inr keys))"

inductive spend_step :: "ledger_env \<Rightarrow> account \<Rightarrow> ledger_state \<times> int \<Rightarrow> ledger_state \<times> int \<Rightarrow> bool"
  for env acct where
  time_passes: "now \<le> now' \<Longrightarrow> spend_step env acct (s, now) (s, now')"
| reserves: "reserve env acct price now ctx False s = (r, s') \<Longrightarrow> spend_step env acct (s, now) (s', now)"
| releases: "release env res now reason s = (r, s') \<Longrightarrow> spend_step env acct (s, now) (s', now)"
| settles: "reconcile env acct res receipt now ctx n s = (r, s') \<Longrightarrow>
    honest_receipt env acct res receipt now s \<Longrightarrow> spend_step env acct (s, now) (s', now)"
| other_reserves: "acc_principal other \<noteq> acc_principal acct \<Longrightarrow>
    reserve env other price now ctx b s = (r, s') \<Longrightarrow> spend_step env acct (s, now) (s', now)"
| other_settles: "acc_principal other \<noteq> acc_principal acct \<Longrightarrow>
    reconcile env other res receipt now ctx n s = (r, s') \<Longrightarrow> spend_step env acct (s, now) (s', now)"
| other_commits: "acc_principal other \<noteq> acc_principal acct \<Longrightarrow>
    commit_observed env other amount now ctx n s = (r, s') \<Longrightarrow> spend_step env acct (s, now) (s', now)"
| asks: "ledger_standing env who now s = (r, s') \<Longrightarrow> spend_step env acct (s, now) (s', now)"

inductive spend_reachable :: "ledger_env \<Rightarrow> account \<Rightarrow> ledger_state \<times> int \<Rightarrow> bool" for env acct where
  start: "led_file s = None \<Longrightarrow> led_appends s = [] \<Longrightarrow> spend_reachable env acct (s, now)"
| step: "spend_reachable env acct c \<Longrightarrow> spend_step env acct c c' \<Longrightarrow> spend_reachable env acct c'"

definition within :: "account \<Rightarrow> ledger_entry list \<Rightarrow> int \<Rightarrow> bool" where
  "within acct es now \<longleftrightarrow>
     (\<forall>d key. d \<in> set (acc_declarations acct) \<longrightarrow>
        min (held_sum es (acc_principal acct) d key now) u64_max \<le> unat (micros (decl_amount d)))"

definition ids_drawn :: "ledger_env \<Rightarrow> ledger_entry list \<Rightarrow> nat \<Rightarrow> bool" where
  "ids_drawn env es n \<longleftrightarrow> distinct (reserve_ids es) \<and> set (reserve_ids es) \<subseteq> env_uuid env ` {..<n}"

fun spend_inv :: "ledger_env \<Rightarrow> account \<Rightarrow> ledger_state \<times> int \<Rightarrow> bool" where
  "spend_inv env acct (s, now) \<longleftrightarrow>
     ledger_sound s \<and> (\<exists>es. entries_of s = Inr es \<and> within acct es now \<and> ids_drawn env es (led_drawn s))"

lemma reserve_ids_append [simp]: "reserve_ids (es @ fs) = reserve_ids es @ reserve_ids fs"
  by (simp add: reserve_ids_def List.map_filter_def)

lemma reserve_ids_simps [simp]:
  "reserve_ids [] = []"
  "reserve_ids (e # es) = (case reserve_id e of None \<Rightarrow> reserve_ids es | Some i \<Rightarrow> i # reserve_ids es)"
  by (auto simp: reserve_ids_def List.map_filter_def split: option.splits)

lemma reserve_ids_released: "list_all is_released rel \<Longrightarrow> reserve_ids rel = []"
  by (induction rel) (auto simp: is_released_def split: ledger_entry.splits)

lemma within_mono:
  assumes "within acct es now"
    "\<And>d key. held_sum es' (acc_principal acct) d key now' \<le> held_sum es (acc_principal acct) d key now"
  shows "within acct es' now'"
  using assms unfolding within_def by (meson le_trans min.mono order_refl)

lemma ids_drawn_mono: "ids_drawn env es n \<Longrightarrow> n \<le> m \<Longrightarrow> ids_drawn env es m"
  by (auto simp: ids_drawn_def)

text \<open>What an own entry must satisfy for the invariant to survive it.\<close>

definition keeps :: "ledger_env \<Rightarrow> account \<Rightarrow> int \<Rightarrow> nat \<Rightarrow> nat \<Rightarrow> (ledger_entry list \<Rightarrow> ledger_entry \<Rightarrow> bool) \<Rightarrow> ledger_entry list \<Rightarrow> bool" where
  "keeps env acct now lo hi own es \<longleftrightarrow>
     (\<forall>rel e. list_all is_released rel \<longrightarrow> own (es @ rel) e \<longrightarrow> within acct (es @ rel) now \<longrightarrow>
        within acct (es @ rel @ [e]) now \<and>
        (\<forall>i. reserve_id e = Some i \<longrightarrow> i \<in> env_uuid env ` {lo..<hi}))"

lemma extends_by_inv:
  assumes inv: "spend_inv env acct (s, now)" and inj: "inj (env_uuid env)"
    and ext: "\<And>es. entries_of s = Inr es \<Longrightarrow> extends_by s es s' own"
    and own: "\<And>es. entries_of s = Inr es \<Longrightarrow> ids_drawn env es (led_drawn s) \<Longrightarrow>
      keeps env acct now (led_drawn s) (led_drawn s') own es"
  shows "spend_inv env acct (s', now)"
proof -
  from inv obtain es where es: "entries_of s = Inr es" "within acct es now" "ids_drawn env es (led_drawn s)"
    by auto
  from ext [OF es(1)] obtain rel where s': "ledger_sound s'" "led_drawn s \<le> led_drawn s'"
    and rel: "list_all is_released rel"
    and cases: "entries_of s' = Inr (es @ rel) \<or>
      (\<exists>e. entries_of s' = Inr (es @ rel @ [e]) \<and> own (es @ rel) e)"
    by (auto simp: extends_by_def)
  have wr: "within acct (es @ rel) now"
    by (rule within_mono [OF es(2)]) (rule held_append_released [OF rel])
  have dr: "ids_drawn env (es @ rel) (led_drawn s)"
    using es(3) by (simp add: ids_drawn_def reserve_ids_released [OF rel])
  from cases show ?thesis
  proof
    assume "entries_of s' = Inr (es @ rel)"
    with s' wr ids_drawn_mono [OF dr s'(2)] show ?thesis by auto
  next
    assume "\<exists>e. entries_of s' = Inr (es @ rel @ [e]) \<and> own (es @ rel) e"
    then obtain e where e: "entries_of s' = Inr (es @ rel @ [e])" "own (es @ rel) e" by blast
    from own [OF es(1,3)] rel e(2) wr have w: "within acct (es @ rel @ [e]) now"
      and i: "\<And>i. reserve_id e = Some i \<Longrightarrow> i \<in> env_uuid env ` {led_drawn s..<led_drawn s'}"
      by (auto simp: keeps_def)
    have "ids_drawn env (es @ rel @ [e]) (led_drawn s')"
    proof (cases "reserve_id e")
      case None
      with ids_drawn_mono [OF dr s'(2)] show ?thesis by (simp add: ids_drawn_def)
    next
      case (Some j)
      from i [OF Some] obtain m where m: "led_drawn s \<le> m" "m < led_drawn s'" "j = env_uuid env m" by auto
      have "j \<notin> env_uuid env ` {..<led_drawn s}"
        using m by (auto dest!: injD [OF inj])
      with ids_drawn_mono [OF dr s'(2)] dr Some m show ?thesis by (auto simp: ids_drawn_def)
    qed
    with s' e w show ?thesis by auto
  qed
qed

lemma period_keys_lookup:
  assumes "distinct (map decl_period ds)" "period_keys env ds now = Inr keys" "d \<in> set ds"
  shows "\<exists>k. period_key env d now = Inr k \<and> keys (decl_period d) = Some k"
proof -
  from assms(2) obtain kvs where t: "traverse (\<lambda>d. res_map (Pair (decl_period d)) (period_key env d now)) ds = Inr kvs"
    and keys: "keys = map_of (rev kvs)"
    by (auto simp: period_keys_def res_map_Inr_iff)
  have all: "list_all2 (\<lambda>d kv. \<exists>k. period_key env d now = Inr k \<and> kv = (decl_period d, k)) ds kvs"
    using t by (auto simp: traverse_Inr_iff res_map_Inr_iff elim!: list_all2_mono)
  then have "map fst kvs = map decl_period ds"
    by (induction rule: list_all2_induct) auto
  with assms(1) have dist: "distinct (map fst (rev kvs))" by (simp flip: rev_map)
  from all assms(3) obtain k where k: "period_key env d now = Inr k" "(decl_period d, k) \<in> set kvs"
    by (induction rule: list_all2_induct) auto
  then have "map_of (rev kvs) (decl_period d) = Some k"
    using map_of_is_SomeI [OF dist] by simp
  with k keys show ?thesis by blast
qed

lemma check_for_fits:
  assumes "check_for env es acct (Some m) now d = Inr chk" "chk_comparable chk" "\<not> chk_would_exceed chk"
  obtains k where "period_key env d now = Inr k"
    "min (held_sum es (acc_principal acct) d k now + unat (micros m)) u64_max \<le> unat (micros (decl_amount d))"
proof -
  from assms(1) obtain k where k: "period_key env d now = Inr k"
    by (auto simp: check_for_def res_map_Inr_iff)
  obtain c r where sp: "spent es (acc_principal acct) d k now = (c, r)" by fastforce
  have "\<not> micros (decl_amount d) < saturating_add (saturating_add c r) (micros m)"
    using assms k sp by (auto simp: check_for_def Let_def)
  then have "min (min (held_sum es (acc_principal acct) d k now) u64_max + unat (micros m)) u64_max
      \<le> unat (micros (decl_amount d))"
    by (simp only: word_less_nat_alt not_less unat_sat_u64 [of "saturating_add c r"] held_exact [OF sp])
  then show ?thesis using that [OF k] by (simp add: min_sat_assoc)
qed

lemma reserves_keeps:
  assumes dist: "distinct (map decl_period (acc_declarations acct))"
  shows "keeps env acct now lo hi (reserves_for env acct price now False lo hi) es"
  unfolding keeps_def
proof (intro allI impI conjI)
  fix rel e i
  assume own: "reserves_for env acct price now False lo hi (es @ rel) e"
  then show "reserve_id e = Some i \<Longrightarrow> i \<in> env_uuid env ` {lo..<hi}"
    by (auto simp: reserves_for_def)
next
  fix rel e
  assume own: "reserves_for env acct price now False lo hi (es @ rel) e" and w: "within acct (es @ rel) now"
  from own obtain n keys ctx checks where
    e: "e = Reserved (env_uuid env n) (acc_principal acct) price keys (stamp now)
          (stamp (now + reservation_ttl)) (env_pid env) ctx"
    and keys: "period_keys env (acc_declarations acct) now = Inr keys"
    and checks: "checks_for env (es @ rel) acct (Some price) now = Inr checks" "fits checks"
    by (auto simp: reserves_for_def)
  show "within acct (es @ rel @ [e]) now"
    unfolding within_def
  proof (intro allI impI)
    fix d key
    assume d: "d \<in> set (acc_declarations acct)"
    obtain kd where kd: "period_key env d now = Inr kd" "keys (decl_period d) = Some kd"
      using period_keys_lookup [OF dist keys d] by blast
    let ?h = "\<lambda>es. held_sum es (acc_principal acct) d key now"
    have le: "?h ((es @ rel) @ [e]) \<le> ?h (es @ rel) + (if key = kd then unat (micros price) else 0)"
      using held_append_reserved [of "es @ rel" "env_uuid env n" "acc_principal acct" price keys "stamp now"
          "stamp (now + reservation_ttl)" "env_pid env" ctx "acc_principal acct" d key now] kd(2)
      by (auto simp: e counts_for_def split: if_splits)
    show "min (?h (es @ rel @ [e])) u64_max \<le> unat (micros (decl_amount d))"
    proof (cases "key = kd")
      case True
      from d checks(1) obtain i where i: "i < length (acc_declarations acct)" "acc_declarations acct ! i = d"
        by (auto simp: in_set_conv_nth)
      from checks(1) have len: "length checks = length (acc_declarations acct)"
        by (auto simp: checks_for_def traverse_Inr_iff dest: list_all2_lengthD)
      from traverse_Inr_nth [OF checks(1) [unfolded checks_for_def] i(1)]
      have "check_for env (es @ rel) acct (Some price) now d = Inr (checks ! i)" using i by simp
      moreover have "chk_comparable (checks ! i)" "\<not> chk_would_exceed (checks ! i)"
        using checks(2) i(1) len by (auto simp: fits_def list_all_length)
      ultimately have "min (?h (es @ rel) + unat (micros price)) u64_max \<le> unat (micros (decl_amount d))"
        using kd(1) True by (auto elim: check_for_fits)
      with le True show ?thesis by simp
    next
      case False
      with le have "?h (es @ rel @ [e]) \<le> ?h (es @ rel)" by simp
      moreover have "min (?h (es @ rel)) u64_max \<le> unat (micros (decl_amount d))"
        using w d by (simp add: within_def)
      ultimately show ?thesis by simp
    qed
  qed
qed

lemma released_keeps:
  assumes "\<And>es e. own es e \<Longrightarrow> is_released e"
  shows "keeps env acct now lo hi own es"
  unfolding keeps_def
proof (intro allI impI conjI)
  fix rel e i
  assume own: "own (es @ rel) e" and w: "within acct (es @ rel) now"
  from assms [OF own] have r: "is_released e" .
  then show "reserve_id e = Some i \<Longrightarrow> i \<in> env_uuid env ` {lo..<hi}"
    by (auto simp: is_released_def split: ledger_entry.splits)
  show "within acct (es @ rel @ [e]) now"
    by (rule within_mono [OF w]) (use held_append_released [of "[e]" "es @ rel"] r in simp)
qed

text \<open>An entry of another principal counts nothing here, and can only resolve reservations.\<close>

lemma held_append_other:
  assumes "committed_part p d key e = 0" "\<And>R. reserved_part p d key now R e = 0"
  shows "held_sum (es @ [e]) p d key now \<le> held_sum es p d key now"
  using reserved_sum_antimono [of "set (resolved_ids es)" "set (resolved_ids (es @ [e]))" es p d key now] assms
  by (auto simp: held_sum_def)

lemma other_commits_keeps:
  assumes "acc_principal other \<noteq> acc_principal acct"
  shows "keeps env acct now lo hi (commits_for env other rid amount now') es"
  unfolding keeps_def
proof (intro allI impI conjI)
  fix rel e i
  assume own: "commits_for env other rid amount now' (es @ rel) e" and w: "within acct (es @ rel) now"
  show "reserve_id e = Some i \<Longrightarrow> i \<in> env_uuid env ` {lo..<hi}"
    using own by (auto simp: commits_for_def)
  show "within acct (es @ rel @ [e]) now"
    using own assms
    by (intro within_mono [OF w]) (auto simp: commits_for_def counts_for_def
        intro: held_append_other [of _ _ _ _ _ "es @ rel", simplified])
qed

lemma other_reserves_keeps:
  assumes "acc_principal other \<noteq> acc_principal acct"
  shows "keeps env acct now lo hi (reserves_for env other amount now' b lo hi) es"
  unfolding keeps_def
proof (intro allI impI conjI)
  fix rel e i
  assume own: "reserves_for env other amount now' b lo hi (es @ rel) e" and w: "within acct (es @ rel) now"
  show "reserve_id e = Some i \<Longrightarrow> i \<in> env_uuid env ` {lo..<hi}"
    using own by (auto simp: reserves_for_def)
  show "within acct (es @ rel @ [e]) now"
    using own assms
    by (intro within_mono [OF w]) (auto simp: reserves_for_def counts_for_def
        intro: held_append_other [of _ _ _ _ _ "es @ rel", simplified])
qed

lemma other_settles_keeps:
  assumes "acc_principal other \<noteq> acc_principal acct"
  shows "keeps env acct now lo hi (settles_for env other res receipt now') es"
proof (cases receipt)
  case None
  then show ?thesis by (intro released_keeps) (auto simp: settles_for_def)
next
  case (Some m)
  then show ?thesis using other_commits_keeps [OF assms] by (simp add: settles_for_def [abs_def])
qed

lemma keeps_weaken:
  "keeps env acct now lo hi own es \<Longrightarrow> (\<And>es e. own' es e \<Longrightarrow> own es e) \<Longrightarrow> keeps env acct now lo hi own' es"
  unfolding keeps_def by blast

lemma distinct_reserve_ids_unique:
  assumes "distinct (reserve_ids es)" "x \<in> set es" "y \<in> set es" "reserve_id x = Some i" "reserve_id y = Some i"
  shows "x = y"
  using assms
proof (induction es)
  case (Cons e es)
  have mem: "z \<in> set es \<Longrightarrow> reserve_id z = Some i \<Longrightarrow> i \<in> set (reserve_ids es)" for z
    by (force simp: reserve_ids_def List.map_filter_def)
  from Cons mem show ?case by (auto split: option.splits)
qed simp

lemma settles_keeps:
  assumes honest: "honest_receipt env acct res receipt now s"
    and es: "entries_of s = Inr es" and ids: "ids_drawn env es n"
  shows "keeps env acct now lo hi
    (\<lambda>es' e. settles_for env acct res receipt now es' e \<and> swept es now es') es"
proof (cases receipt)
  case None
  then show ?thesis by (intro released_keeps) (auto simp: settles_for_def)
next
  case (Some observed)
  with honest es obtain keys t x pid ctx where
    entry: "Reserved (res_id res) (acc_principal acct) (res_amount res) keys t x pid ctx \<in> set es"
    and live: "res_id res \<notin> set (resolved_ids es)" "stamp now < x"
    and keys: "period_keys env (acc_declarations acct) now = Inr keys"
    and amt: "currency observed = currency (res_amount res)" "unat (micros observed) \<le> unat (micros (res_amount res))"
    by (auto simp: honest_receipt_def word_le_nat_alt)
  show ?thesis
    unfolding keeps_def
  proof (intro allI impI conjI)
    fix rel e i
    assume own: "settles_for env acct res receipt now (es @ rel) e \<and> swept es now (es @ rel)"
      and w: "within acct (es @ rel) now"
    from own Some obtain j ctx' nt where
      e: "e = Committed j (Some (res_id res)) (acc_principal acct) observed keys (stamp now) ctx' nt"
      by (auto simp: settles_for_def commits_for_def keys)
    then show "reserve_id e = Some i \<Longrightarrow> i \<in> env_uuid env ` {lo..<hi}" by simp
    have "res_id res \<notin> set (resolved_ids (es @ rel))"
    proof
      assume "res_id res \<in> set (resolved_ids (es @ rel))"
      with own live(1) obtain ep am ks t' x' pid' ctx'' where
        other: "Reserved (res_id res) ep am ks t' x' pid' ctx'' \<in> set es" "x' \<le> stamp now"
        by (auto simp: swept_def)
      from distinct_reserve_ids_unique [OF _ other(1) entry] ids have "x' = x"
        by (auto simp: ids_drawn_def)
      with other(2) live(2) show False by simp
    qed
    then show "within acct (es @ rel @ [e]) now"
      using held_append_settlement [of "res_id res" "acc_principal acct" "res_amount res" keys t x pid ctx
          "es @ rel" now observed] entry live(2) amt
      by (intro within_mono [OF w]) (auto simp: e)
  qed
qed

lemma spend_step_inv:
  assumes dist: "distinct (map decl_period (acc_declarations acct))" and inj: "inj (env_uuid env)"
  shows "spend_step env acct c c' \<Longrightarrow> spend_inv env acct c \<Longrightarrow> spend_inv env acct c'"
proof (induction rule: spend_step.induct)
  case (time_passes now now' s)
  then show ?case by (auto intro: within_mono held_sum_time)
next
  case (reserves price now ctx s r s')
  then show ?case
    by (intro extends_by_inv [OF reserves.prems inj reserve_extends]) (auto intro: reserves_keeps [OF dist])
next
  case (releases res now reason s r s')
  then show ?case
    by (intro extends_by_inv [OF releases.prems inj release_extends]) (auto intro: released_keeps)
next
  case (settles res receipt now ctx n s r s')
  from settles.prems inj show ?case
  proof (rule extends_by_inv [where own = "\<lambda>es' e. settles_for env acct res receipt now es' e \<and>
      swept (projr (entries_of s)) now es'"])
    fix es
    assume es: "entries_of s = Inr es"
    with settles show "extends_by s es s' (\<lambda>es' e. settles_for env acct res receipt now es' e \<and>
        swept (projr (entries_of s)) now es')"
      by (auto dest: reconcile_extends)
    assume "ids_drawn env es (led_drawn s)"
    from settles_keeps [OF settles.hyps(2) es this]
    show "keeps env acct now (led_drawn s) (led_drawn s') (\<lambda>es' e. settles_for env acct res receipt now es' e \<and>
        swept (projr (entries_of s)) now es') es"
      by (simp add: es)
  qed
next
  case (other_reserves other price now ctx b s r s')
  then show ?case
    by (intro extends_by_inv [OF other_reserves.prems inj reserve_extends]) (auto intro: other_reserves_keeps)
next
  case (other_settles other res receipt now ctx n s r s')
  show ?case
  proof (rule extends_by_inv [OF other_settles.prems inj, where own = "\<lambda>es' e.
      settles_for env other res receipt now es' e \<and> swept (projr (entries_of s)) now es'"])
    fix es
    assume es: "entries_of s = Inr es"
    with other_settles show "extends_by s es s' (\<lambda>es' e. settles_for env other res receipt now es' e \<and>
        swept (projr (entries_of s)) now es')"
      by (auto dest: reconcile_extends)
    show "keeps env acct now (led_drawn s) (led_drawn s') (\<lambda>es' e. settles_for env other res receipt now es' e \<and>
        swept (projr (entries_of s)) now es') es"
      using other_settles_keeps [OF other_settles.hyps(1)] by (rule keeps_weaken) blast
  qed
next
  case (other_commits other amount now ctx n s r s')
  then show ?case
    by (intro extends_by_inv [OF other_commits.prems inj commit_observed_extends]) (auto intro: other_commits_keeps)
next
  case (asks who now s r s')
  then show ?case
    by (intro extends_by_inv [OF asks.prems inj ledger_standing_extends(1)]) (auto simp: keeps_def)
qed

lemma spend_reachable_inv:
  assumes "distinct (map decl_period (acc_declarations acct))" "inj (env_uuid env)"
  shows "spend_reachable env acct c \<Longrightarrow> spend_inv env acct c"
proof (induction rule: spend_reachable.induct)
  case (start s now)
  then show ?case
    by (auto simp: ledger_sound_def ends_in_newline_def contents_def empty_file_def read_rows_def
        within_def held_sum_def ids_drawn_def)
next
  case (step c c')
  then show ?case using spend_step_inv [OF assms] by blast
qed

text \<open>
  C1. In every state that strict-mode reservations, releases, expiry and honest settlements of one
  principal can reach, however they interleave with anything other principals do and with the
  passing of time, the ledger's standing reports no declared period as exceeded: committed spend
  and live reservations together stay within the declared amount. Distinct periods are what the
  policy loader enforces, and distinct draws what the uuid generator promises.
\<close>

theorem strict_spend_never_exceeds:
  assumes "distinct (map decl_period (acc_declarations acct))" "inj (env_uuid env)"
    and "spend_reachable env acct (s, now)"
    and "ledger_standing env acct now s = (Inr states, s')" "ps \<in> set states"
  shows "\<not> ps_exceeded ps \<and>
    saturating_add (micros (ps_committed ps)) (micros (ps_reserved ps)) \<le> micros (ps_declared ps)"
proof -
  from spend_reachable_inv [OF assms(1-3)] obtain es where
    es: "ledger_sound s" "entries_of s = Inr es" "within acct es now" by auto
  from ledger_standing_extends(2) [OF es(1,2) assms(4) refl] obtain rel where
    rel: "list_all is_released rel"
    and st: "traverse (period_standing env (es @ rel) acct now) (acc_declarations acct) = Inr states"
    by blast
  from traverse_Inr_mem [OF st assms(5)] obtain d where
    d: "d \<in> set (acc_declarations acct)" "period_standing env (es @ rel) acct now d = Inr ps" by blast
  from d(2) obtain k where k: "period_key env d now = Inr k"
    by (auto simp: period_standing_def res_map_Inr_iff)
  obtain c r where sp: "spent (es @ rel) (acc_principal acct) d k now = (c, r)" by fastforce
  have ps: "ps_exceeded ps = (micros (decl_amount d) < saturating_add c r)" "micros (ps_committed ps) = c"
      "micros (ps_reserved ps) = r" "ps_declared ps = decl_amount d"
    using d(2) by (auto simp: period_standing_def k sp money_new_def Let_def)
  have "within acct (es @ rel) now"
    by (rule within_mono [OF es(3)]) (rule held_append_released [OF rel])
  with d(1) have "saturating_add c r \<le> micros (decl_amount d)"
    by (simp add: within_def word_le_nat_alt held_exact [OF sp])
  with ps show ?thesis by (simp add: not_less)
qed

text \<open>One account, one declared day of 0.02 USD, and a reservation of 0.015 USD.\<close>

definition sample_env :: ledger_env where
  "sample_env = \<lparr>env_uuid = Uuid, env_zone = (\<lambda>z. if z = ''UTC'' then Some (\<lambda>_. (2026, 1, 31)) else None),
     env_stamp_text = show_int, env_uuid_text = (\<lambda>_. ''id''), env_path = ''ledger.ndjson'', env_pid = 7\<rparr>"

definition sample_account :: account where
  "sample_account = \<lparr>acc_principal = ''ana'', acc_declarations =
     [\<lparr>decl_period = Day, decl_amount = \<lparr>currency = ''USD'', micros = 20000\<rparr>, decl_timezone = ''UTC''\<rparr>]\<rparr>"

definition sample_start :: ledger_state where
  "sample_start = \<lparr>led_file = None, led_locks = [], led_reads = [], led_appends = [], led_drawn = 0\<rparr>"

definition sample_price :: money where
  "sample_price = \<lparr>currency = ''USD'', micros = 15000\<rparr>"

definition sample_standing :: period_state where
  "sample_standing = \<lparr>ps_period = Day, ps_key = Day_key 2026 1 31,
     ps_declared = \<lparr>currency = ''USD'', micros = 20000\<rparr>, ps_committed = \<lparr>currency = ''USD'', micros = 0\<rparr>,
     ps_reserved = \<lparr>currency = ''USD'', micros = 15000\<rparr>, ps_remaining = \<lparr>currency = ''USD'', micros = 5000\<rparr>,
     ps_exceeded = False\<rparr>"

definition sample_reserved :: ledger_state where
  "sample_reserved = snd (reserve sample_env sample_account sample_price 0 ''run'' False sample_start)"

lemmas ledger_eval = exec_simps Let_def lock_ledger_def sweep_expired_def read_ledger_def read_rows_def lines_of_def
  List.map_filter_def resolved_ids_def checks_for_def check_for_def period_key_def zone_def zone_result_def spent_def
  counts_for_def saturating_add_def saturating_sub_def fits_def draw_uuid_def period_keys_def append_entry_def
  append_settlement_def append_raw_def append_row_def write_line_def write_torn_def contents_def empty_file_def
  join_tail_def run_together_def stamp_def reservation_ttl_def period_standing_def money_new_def to_uppercase_def
  upper_char_def is_ascii_lower_def byte_of_def

lemmas sample_defs = sample_env_def sample_account_def sample_start_def sample_price_def

lemma sample_standing_run:
  "fst (ledger_standing sample_env sample_account 0 sample_reserved) = Inr [sample_standing]"
  by (simp add: sample_reserved_def reserve_def ledger_standing_def sample_defs sample_standing_def ledger_eval)

lemma strict_spend_never_exceeds_witness:
  "\<not> ps_exceeded sample_standing \<and>
   saturating_add (micros (ps_committed sample_standing)) (micros (ps_reserved sample_standing))
     \<le> micros (ps_declared sample_standing)"
proof (rule strict_spend_never_exceeds)
  show "distinct (map decl_period (acc_declarations sample_account))" by (simp add: sample_account_def)
  show "inj (env_uuid sample_env)" by (simp add: sample_env_def inj_def)
  have "spend_reachable sample_env sample_account (sample_start, 0)"
    by (rule spend_reachable.start) (simp_all add: sample_start_def)
  then show "spend_reachable sample_env sample_account (sample_reserved, 0)"
    by (rule spend_reachable.step) (rule spend_step.reserves [where r = "fst (reserve sample_env sample_account
        sample_price 0 ''run'' False sample_start)"], simp add: sample_reserved_def)
  show "ledger_standing sample_env sample_account 0 sample_reserved =
      (Inr [sample_standing], snd (ledger_standing sample_env sample_account 0 sample_reserved))"
    using sample_standing_run by (simp add: prod_eq_iff)
  show "sample_standing \<in> set [sample_standing]" by simp
qed

subsection \<open>Lines already written are never changed\<close>

datatype ledger_call =
    Call_reserve account money int string bool
  | Call_reconcile account reservation "money option" int string string
  | Call_release reservation int string
  | Call_commit account money int string string
  | Call_standing account int

definition run_call :: "ledger_env \<Rightarrow> ledger_call \<Rightarrow> ledger_state \<Rightarrow> ledger_state" where
  "run_call env call s = (case call of
      Call_reserve a m t c b \<Rightarrow> snd (reserve env a m t c b s)
    | Call_reconcile a r m t c n \<Rightarrow> snd (reconcile env a r m t c n s)
    | Call_release r t n \<Rightarrow> snd (release env r t n s)
    | Call_commit a m t c n \<Rightarrow> snd (commit_observed env a m t c n s)
    | Call_standing a t \<Rightarrow> snd (ledger_standing env a t s))"

definition written :: "ledger_state \<Rightarrow> ledger_entry row list" where
  "written s = rows (contents (led_file s))"

definition only_appends :: "'a ledger_op \<Rightarrow> bool" where
  "only_appends m \<longleftrightarrow> (\<forall>s. \<exists>ext. written (snd (m s)) = written s @ ext)"

named_theorems append_only \<open>operations that only append\<close>

lemma only_appends_run: "only_appends m \<Longrightarrow> \<exists>ext. written (snd (m s)) = written s @ ext"
  by (simp add: only_appends_def)

lemma append_raw_written: "\<exists>ext. written (snd (append_raw e s)) = written s @ ext"
proof -
  obtain r f' where r: "append_row (case led_appends s of [] \<Rightarrow> None | f # _ \<Rightarrow> f) e (led_file s) = (r, f')"
    by fastforce
  then have "\<exists>ext. rows (contents f') = rows (contents (led_file s)) @ ext"
    by (auto simp: append_row_def contents_def write_line_def write_torn_def empty_file_def
        split: option.splits append_fault.splits torn.splits)
  then show ?thesis by (simp add: append_raw_def r written_def)
qed

lemma and_then_appends [append_only]:
  assumes "only_appends m" "\<And>a. only_appends (k a)"
  shows "only_appends (and_then m k)"
  unfolding only_appends_def
proof
  fix s
  obtain r s1 where m: "m s = (r, s1)" by fastforce
  from only_appends_run [OF assms(1), of s] m obtain e1 where e1: "written s1 = written s @ e1" by auto
  show "\<exists>ext. written (snd (and_then m k s)) = written s @ ext"
  proof (cases r)
    case (Inl e)
    with m e1 show ?thesis by (simp add: and_then_def)
  next
    case (Inr a)
    from only_appends_run [OF assms(2), of a s1] obtain e2 where "written (snd (k a s1)) = written s1 @ e2" by blast
    with Inr m e1 show ?thesis by (simp add: and_then_def)
  qed
qed

lemma same_file_appends: "(\<And>s. led_file (snd (m s)) = led_file s) \<Longrightarrow> only_appends m"
  by (simp add: only_appends_def written_def)

lemma basic_appends [append_only]:
  "only_appends (ret a)" "only_appends (draw_uuid env)" "only_appends lock_ledger" "only_appends read_ledger"
  "only_appends (zone_result q)"
  by (intro same_file_appends; auto simp: ret_def draw_uuid_def lock_ledger_def read_ledger_def
      zone_result_def fail_def split: list.splits option.splits sum.splits)+

lemma append_entry_appends [append_only]: "only_appends (append_entry e)"
  unfolding only_appends_def
proof
  fix s
  show "\<exists>ext. written (snd (append_entry e s)) = written s @ ext"
    using append_raw_written [of e s] by (auto simp: append_entry_def split: prod.splits sum.splits)
qed

lemma append_settlement_appends [append_only]: "only_appends (append_settlement e)"
  unfolding only_appends_def
proof
  fix s
  obtain r1 s1 r2 s2 where runs: "append_raw e s = (r1, s1)" "append_raw e s1 = (r2, s2)" by fastforce
  from append_raw_written [of e s] append_raw_written [of e s1] runs
  show "\<exists>ext. written (snd (append_settlement e s)) = written s @ ext"
    by (auto simp: append_settlement_def split: sum.splits)
qed

lemma release_each_appends [append_only]: "only_appends (release_each env now pend es)"
  by (induction env now pend es rule: release_each.induct) (auto simp: Let_def intro!: append_only)

lemma sweep_appends [append_only]: "only_appends (sweep_expired env now)"
  unfolding sweep_expired_def by (intro append_only)

lemma operations_append [append_only]:
  "only_appends (reserve env a m t c b)" "only_appends (reconcile env a q rm t c n)"
  "only_appends (release env q t n)" "only_appends (commit_observed env a m t c n)"
  "only_appends (ledger_standing env a t)"
proof -
  show "only_appends (reserve env a m t c b)"
    by (auto simp: reserve_def split: if_splits intro!: append_only)
  show "only_appends (reconcile env a q rm t c n)"
    by (cases rm) (auto simp: reconcile_def intro!: append_only)
  show "only_appends (release env q t n)"
    by (auto simp: release_def intro!: append_only)
  show "only_appends (commit_observed env a m t c n)"
    by (auto simp: commit_observed_def split: if_splits intro!: append_only)
  show "only_appends (ledger_standing env a t)"
    by (auto simp: ledger_standing_def intro!: append_only)
qed

lemma run_call_written: "\<exists>ext. written (run_call env call s) = written s @ ext"
  by (cases call) (auto simp: run_call_def intro!: only_appends_run append_only)

text \<open>
  C21. The ledger is append-only whatever the file system does: no sequence of operations, with any
  outcomes for its locks, reads and writes, changes or removes a line that was already complete.
\<close>

theorem ledger_lines_are_kept:
  "\<exists>ext. rows (contents (led_file (fold (run_call env) calls s))) = rows (contents (led_file s)) @ ext"
proof (induction calls arbitrary: s)
  case Nil
  then show ?case by simp
next
  case (Cons c calls)
  from run_call_written [of env c s] Cons [of "run_call env c s"] show ?case
    by (auto simp: written_def)
qed

end
