(* ===== verification/Allowance_Gate.thy ===== *)
theory Allowance_Gate
  imports Ledger_Runs
begin

section \<open>The allowance gate\<close>

text \<open>
  \<open>AllowanceContext\<close>'s half of \<open>crates/commonmeasure-runtime/src/allowance.rs\<close>: reserving
  a price before a purchase, the check before an unpriced dispatch, and settling or releasing
  afterwards, with the evidence record each writes. The JSON record is a record with a field
  per key; a key that was not set is \<open>None\<close>.
\<close>

subsection \<open>The record and the texts\<close>

record settlement_failure =
  sf_reservation_id :: "uuid option"
  sf_observed :: "money option"
  sf_error :: string

datatype settlement =
    Reconciled string
  | Committed_receipt string
  | Unrecorded settlement_failure
  | Release_unrecorded uuid string
  | Ended string

record gate_record =
  gr_principal :: string
  gr_declared :: bool
  gr_decision :: "string option"
  gr_reason :: "string option"
  gr_reservation_id :: "uuid option"
  gr_checks :: "period_check list option"
  gr_price_basis :: "string option"
  gr_settlement :: "settlement option"

record gate_decision =
  gd_record :: gate_record
  gd_reservation :: "reservation option"
  gd_ruling :: "ruling option"

fun fault_text :: "ledger_env \<Rightarrow> append_fault \<Rightarrow> string" where
  "fault_text env (Open_failed e) = ''open '' @ env_path env @ '': '' @ e"
| "fault_text env (Write_failed t e) = ''append to '' @ env_path env @ '': '' @ e"
| "fault_text env (Flush_failed e) = ''flush '' @ env_path env @ '': '' @ e"

fun error_text :: "ledger_env \<Rightarrow> ledger_error \<Rightarrow> string" where
  "error_text env (Lock_refused e) = e"
| "error_text env (Read_failed (Cannot_read e)) = ''cannot read '' @ env_path env @ '': '' @ e"
| "error_text env (Read_failed (Bad_line n e)) =
     env_path env @ '' line '' @ show_nat n @ '' is not a ledger entry: '' @ e"
| "error_text env (Append_failed f) = fault_text env f"
| "error_text env (Retried f g) = fault_text env f @ ''; retried once under the lock: '' @ fault_text env g"
| "error_text env (Unknown_zone e) = e"

definition money_text :: "money \<Rightarrow> string" where
  "money_text m = as_decimal_string m @ '' '' @ currency m"

text \<open>\<open>SettlementFailure\<close>'s \<open>Display\<close>.\<close>

definition settlement_failure_text :: "ledger_env \<Rightarrow> settlement_failure \<Rightarrow> string" where
  "settlement_failure_text env f = (case (sf_observed f, sf_reservation_id f) of
      (Some observed, Some i) \<Rightarrow>
        ''Money moved and the allowance ledger did not count it: the receipt reported '' @ money_text observed
        @ '' against reservation '' @ env_uuid_text env i @ '', and the ledger did not record the commit (''
        @ sf_error f @ ''). The reservation stays unresolved until the expiry sweep releases it, and the period's committed total omits this charge.''
    | (Some observed, None) \<Rightarrow>
        ''Money moved and the allowance ledger did not count it: the receipt reported '' @ money_text observed
        @ '' with nothing reserved, and the ledger did not record the commit ('' @ sf_error f
        @ ''). The period's committed total omits this charge.''
    | (None, Some i) \<Rightarrow>
        ''No charge in currency was reported against reservation '' @ env_uuid_text env i
        @ '', and the ledger did not record its release ('' @ sf_error f
        @ ''). The reservation stays held until the expiry sweep releases it.''
    | (None, None) \<Rightarrow> ''The allowance ledger did not record this settlement ('' @ sf_error f @ '').'')"

definition remaining_of :: "period_check \<Rightarrow> money" where
  "remaining_of c = money_new (currency (chk_declared c))
     (saturating_sub (micros (chk_declared c)) (micros (chk_spent_before c)))"

definition refusal_part :: "money \<Rightarrow> period_check \<Rightarrow> string option" where
  "refusal_part price c =
     (if \<not> chk_comparable c then Some (''the '' @ period_str (chk_period c) @ '' allowance is declared in ''
        @ currency (chk_declared c) @ '' and the price is in ''
        @ (if three_letter_code (currency price) then currency price
           else ''a currency that is not a three-letter code'')
        @ '', which this runtime holds no rate source to compare'')
      else if chk_would_exceed c then Some (''the '' @ period_str (chk_period c) @ '' allowance for ''
        @ period_key_text (chk_key c) @ '' has '' @ as_decimal_string (remaining_of c) @ '' ''
        @ currency (chk_declared c) @ '' remaining of '' @ money_text (chk_declared c)
        @ '' and the price is '' @ money_text price)
      else None)"

definition refusal_reason :: "string \<Rightarrow> money \<Rightarrow> period_check list \<Rightarrow> string" where
  "refusal_reason who price checks =
     ''Principal '' @ debug_str who @ '' is over their cumulative allowance: ''
     @ join_with ''; '' (List.map_filter (refusal_part price) checks) @ ''.''"

definition refusal_agent_part :: "money \<Rightarrow> period_check \<Rightarrow> agent_text option" where
  "refusal_agent_part price c =
     (if \<not> chk_comparable c then Some [Fixed ''the '', Fixed (period_str (chk_period c)), Fixed '' allowance ('',
        Amount (chk_declared c), Fixed '') and the price ('', Amount price,
        Fixed '') are in currencies this runtime holds no rate source to compare'']
      else if chk_would_exceed c then Some [Fixed ''the '', Fixed (period_str (chk_period c)),
        Fixed '' allowance has '', Amount (remaining_of c), Fixed '' remaining of '', Amount (chk_declared c),
        Fixed '' and the price is '', Amount price]
      else None)"

definition refusal_agent_reason :: "string \<Rightarrow> money \<Rightarrow> period_check list \<Rightarrow> agent_text" where
  "refusal_agent_reason who price checks =
     [Fixed ''Principal '', Given who, Fixed '' is over their cumulative allowance: '']
     @ agent_list (List.map_filter (refusal_agent_part price) checks) ''; '' @ [Fixed ''.'']"

definition breach_gap :: "period_check list \<Rightarrow> gap" where
  "breach_gap checks =
     (if list_ex chk_would_exceed checks
      then gap_new BudgetExhausted ''The price exceeded the principal's remaining periodic allowance, so the acquisition was declined and nothing was bought.''
      else gap_new EvidenceMissing ''The price and the principal's allowance are in different currencies, so the spend could not be checked before money moved.'')"

definition receipt_note :: "acquisition_charge \<Rightarrow> string" where
  "receipt_note charge =
     (let parts = (case charge_money charge of None \<Rightarrow> []
                   | Some m \<Rightarrow> [money_text m @ '' observed on the receipt''])
                @ (case charge_native charge of None \<Rightarrow> []
                   | Some n \<Rightarrow> [native_amount n @ '' '' @ native_unit n @ '' in the supplier's own unit''])
      in if parts = [] then ''the receipt disclosed no charge'' else join_with ''; '' parts)"

definition unreadable_ruling :: "ledger_env \<Rightarrow> string \<Rightarrow> policy_mode \<Rightarrow> ledger_error \<Rightarrow> ruling" where
  "unreadable_ruling env who mode e =
     breach mode
       (''Principal '' @ debug_str who @ '' holds a cumulative allowance whose ledger could not be consulted: ''
         @ error_text env e)
       [Fixed ''Principal '', Given who,
        Fixed '' holds a cumulative allowance whose ledger could not be consulted; the allowance record names the fault.'']
       (gap_new EvidenceMissing ''The allowance ledger was unreadable, so the remaining allowance is unknown and the spend could not be checked against it.'')"

subsection \<open>Deciding before money moves\<close>

definition consulted :: "account \<Rightarrow> gate_record" where
  "consulted acct = \<lparr>gr_principal = acc_principal acct, gr_declared = (acc_declarations acct \<noteq> []),
     gr_decision = None, gr_reason = None, gr_reservation_id = None, gr_checks = None,
     gr_price_basis = None, gr_settlement = None\<rparr>"

definition undeclared_decision :: "account \<Rightarrow> gate_decision" where
  "undeclared_decision acct =
     \<lparr>gd_record = (consulted acct)\<lparr>gr_reason := Some (''principal '' @ debug_str (acc_principal acct)
        @ '' declares no allowance'')\<rparr>, gd_reservation = None, gd_ruling = None\<rparr>"

definition reason_or_default :: "ruling \<Rightarrow> string" where
  "reason_or_default r = (case ruling_reason r of None \<Rightarrow> '''' | Some t \<Rightarrow> t)"

definition decision_word :: "ruling \<Rightarrow> string" where
  "decision_word r = (if is_refusal r then ''declined'' else ''proceeded_with_breach'')"

text \<open>What an error of the ledger becomes, at a quote and at a dispatch alike.\<close>

definition unreadable_decision :: "ledger_env \<Rightarrow> account \<Rightarrow> policy_mode \<Rightarrow> ledger_error \<Rightarrow> gate_decision" where
  "unreadable_decision env acct mode e =
     (let r = unreadable_ruling env (acc_principal acct) mode e
      in \<lparr>gd_record = (consulted acct)\<lparr>gr_decision := Some (decision_word r),
            gr_reason := Some (reason_or_default r)\<rparr>,
          gd_reservation = None, gd_ruling = Some r\<rparr>)"

definition reserve_decision :: "ledger_env \<Rightarrow> account \<Rightarrow> money \<Rightarrow> policy_mode \<Rightarrow> int \<Rightarrow> string
    \<Rightarrow> ledger_state \<Rightarrow> gate_decision \<times> ledger_state" where
  "reserve_decision env acct price mode now context_text s =
     (case reserve env acct price now context_text (mode \<noteq> Strict) s of
        (Inl e, s') \<Rightarrow> (unreadable_decision env acct mode e, s')
      | (Inr NothingDeclared, s') \<Rightarrow> (undeclared_decision acct, s')
      | (Inr (Reserved_ok res checks), s') \<Rightarrow>
          (\<lparr>gd_record = (consulted acct)\<lparr>gr_decision := Some ''reserved'',
              gr_reservation_id := Some (res_id res), gr_checks := Some checks\<rparr>,
            gd_reservation = Some res, gd_ruling = None\<rparr>, s')
      | (Inr (ReservedWithBreach res checks), s') \<Rightarrow>
          (let r = breach mode (refusal_reason (acc_principal acct) price checks)
                     (refusal_agent_reason (acc_principal acct) price checks) (breach_gap checks)
           in (\<lparr>gd_record = (consulted acct)\<lparr>gr_decision := Some ''proceeded_with_breach'',
                  gr_reason := Some (reason_or_default r),
                  gr_reservation_id := Some (res_id res), gr_checks := Some checks\<rparr>,
                gd_reservation = Some res, gd_ruling = Some r\<rparr>, s'))
      | (Inr (Declined checks), s') \<Rightarrow>
          (let r = breach mode (refusal_reason (acc_principal acct) price checks)
                     (refusal_agent_reason (acc_principal acct) price checks) (breach_gap checks)
           in (\<lparr>gd_record = (consulted acct)\<lparr>gr_decision := Some ''declined'',
                  gr_reason := Some (reason_or_default r), gr_checks := Some checks\<rparr>,
                gd_reservation = None, gd_ruling = Some r\<rparr>, s')))"

definition exhausted_part :: "period_state \<Rightarrow> string" where
  "exhausted_part p = ''the '' @ period_str (ps_period p) @ '' allowance for '' @ period_key_text (ps_key p)
     @ '' is exhausted ('' @ as_decimal_string (case try_add (ps_committed p) (ps_reserved p) of
          Some m \<Rightarrow> m | None \<Rightarrow> ps_committed p)
     @ '' '' @ currency (ps_declared p) @ '' of '' @ money_text (ps_declared p) @ '' held)''"

definition exhausted_periods :: "period_state list \<Rightarrow> period_state list" where
  "exhausted_periods ps = filter (\<lambda>p. ps_exceeded p \<or> micros (ps_remaining p) = 0) ps"

definition pre_dispatch :: "ledger_env \<Rightarrow> account \<Rightarrow> money option \<Rightarrow> policy_mode \<Rightarrow> int \<Rightarrow> string
    \<Rightarrow> ledger_state \<Rightarrow> gate_decision \<times> ledger_state" where
  "pre_dispatch env acct declared_price mode now context_text s =
     (if acc_declarations acct = [] then (undeclared_decision acct, s)
      else case declared_price of
        Some price \<Rightarrow>
          (case reserve_decision env acct price mode now context_text s of (d, s') \<Rightarrow>
             (d\<lparr>gd_record := (gd_record d)\<lparr>gr_price_basis := Some
                ''published price declared by the adapter, reserved before dispatch and reconciled against the observed receipt''\<rparr>\<rparr>, s'))
      | None \<Rightarrow>
          (case ledger_standing env acct now s of
             (Inl e, s') \<Rightarrow> (unreadable_decision env acct mode e, s')
           | (Inr periods, s') \<Rightarrow>
               (let exhausted = exhausted_periods periods
                in if exhausted = [] then
                     (\<lparr>gd_record = (consulted acct)\<lparr>gr_decision := Some ''unpriced_within_allowance'',
                         gr_reason := Some ''the provider declares no price to reserve; the allowance has room, and the observed charge, if any, is committed on the receipt''\<rparr>,
                       gd_reservation = None, gd_ruling = None\<rparr>, s')
                   else
                     (let r = breach mode
                         (''Principal '' @ debug_str (acc_principal acct) @ '' is over their cumulative allowance: ''
                           @ join_with ''; '' (map exhausted_part exhausted)
                           @ ''; this provider declares no price, so nothing further can be accounted before dispatch.'')
                         [Fixed ''Principal '', Given (acc_principal acct),
                          Fixed '' is over their cumulative allowance, and this provider declares no price, so nothing further can be accounted before dispatch; the allowance record names the amounts.'']
                         (gap_new BudgetExhausted ''The principal's periodic allowance is exhausted, so the acquisition was declined before dispatch and nothing was fetched.'')
                      in (\<lparr>gd_record = (consulted acct)\<lparr>gr_decision := Some (decision_word r),
                            gr_reason := Some (reason_or_default r)\<rparr>,
                          gd_reservation = None, gd_ruling = Some r\<rparr>, s')))))"

subsection \<open>Settling afterwards\<close>

definition settle_success :: "ledger_env \<Rightarrow> account \<Rightarrow> gate_record \<Rightarrow> reservation option \<Rightarrow> acquisition_charge
    \<Rightarrow> int \<Rightarrow> string \<Rightarrow> ledger_state \<Rightarrow> (settlement_failure + unit) \<times> gate_record \<times> ledger_state" where
  "settle_success env acct rec reservation charge now context_text s =
     (let note = receipt_note charge;
          settled = (\<lambda>result s'. case result of
              Inr w \<Rightarrow> (Inr (), rec\<lparr>gr_settlement := Some w\<rparr>, s')
            | Inl e \<Rightarrow>
                (let failure = \<lparr>sf_reservation_id = map_option res_id reservation,
                       sf_observed = charge_money charge, sf_error = error_text env e\<rparr>
                 in (Inl failure, rec\<lparr>gr_settlement := Some (Unrecorded failure)\<rparr>, s')))
      in case reservation of
           Some res \<Rightarrow>
             (case reconcile env acct res (charge_money charge) now context_text note s of
                (r, s') \<Rightarrow> settled (res_map Reconciled r) s')
         | None \<Rightarrow>
             (case charge_money charge of
                None \<Rightarrow> (Inr (), rec, s)
              | Some observed \<Rightarrow>
                  (if acc_declarations acct = [] then (Inr (), rec, s)
                   else (case commit_observed env acct observed now context_text note s of
                      (r, s') \<Rightarrow> settled
                         (res_map (\<lambda>_. Committed_receipt (''committed on the receipt: '' @ note)) r) s'))))"

definition release_after_failure :: "ledger_env \<Rightarrow> gate_record \<Rightarrow> reservation \<Rightarrow> string \<Rightarrow> int
    \<Rightarrow> ledger_state \<Rightarrow> (string + unit) \<times> gate_record \<times> ledger_state" where
  "release_after_failure env rec res reason now s =
     (case release env res now (''released: '' @ reason) s of
        (Inl e, s') \<Rightarrow> (Inl (error_text env e),
            rec\<lparr>gr_settlement := Some (Release_unrecorded (res_id res) (error_text env e))\<rparr>, s')
      | (Inr _, s') \<Rightarrow> (Inr (), rec\<lparr>gr_settlement := Some (Ended (''released: '' @ reason))\<rparr>, s'))"

subsection \<open>What the reservation step can do\<close>

definition held_entry :: "ledger_env \<Rightarrow> account \<Rightarrow> reservation \<Rightarrow> int \<Rightarrow> period_keys \<Rightarrow> string \<Rightarrow> ledger_entry" where
  "held_entry env acct res now keys context_text = Reserved (res_id res) (acc_principal acct) (res_amount res) keys
     (stamp now) (stamp (now + reservation_ttl)) (env_pid env) context_text"

text \<open>On a ledger that can be read and written, a call that declares something ends in one of
  three ways: an error or a decline, after which only releases of the sweep were added, or a
  reservation held by the last entry of the file.\<close>

lemma reserve_run:
  assumes s: "ledger_sound s" "entries_of s = Inr es" and decl: "acc_declarations acct \<noteq> []"
    and run: "reserve env acct amount now ctx b s = (r, s')"
  shows "\<exists>rel. list_all is_released rel \<and>
    ((\<exists>e. r = Inl e \<and> entries_of s' = Inr (es @ rel)) \<or>
     (\<exists>checks. r = Inr (Declined checks) \<and> \<not> b \<and> \<not> fits checks \<and>
        checks_for env (es @ rel) acct (Some amount) now = Inr checks \<and> entries_of s' = Inr (es @ rel)) \<or>
     (\<exists>checks res keys. res_amount res = amount \<and> (fits checks \<or> b) \<and>
        r = Inr (if fits checks then Reserved_ok res checks else ReservedWithBreach res checks) \<and>
        checks_for env (es @ rel) acct (Some amount) now = Inr checks \<and>
        period_keys env (acc_declarations acct) now = Inr keys \<and>
        entries_of s' = Inr (es @ rel @ [held_entry env acct res now keys ctx])))"
proof -
  let ?rest = "\<lambda>checks. if \<not> fits checks \<and> \<not> b then ret (Declined checks)
          else and_then (draw_uuid env) (\<lambda>i.
            and_then (zone_result (period_keys env (acc_declarations acct) now)) (\<lambda>keys.
            and_then (append_entry (Reserved i (acc_principal acct) amount keys (stamp now)
                (stamp (now + reservation_ttl)) (env_pid env) ctx)) (\<lambda>_.
            ret (if fits checks then Reserved_ok \<lparr>res_id = i, res_amount = amount\<rparr> checks
                 else ReservedWithBreach \<lparr>res_id = i, res_amount = amount\<rparr> checks))))"
  let ?after = "\<lambda>entries. and_then (zone_result (checks_for env entries acct (Some amount) now)) ?rest"
  have "and_then lock_ledger (\<lambda>_. and_then (sweep_expired env now) ?after) s = (r, s')"
    using run decl by (simp add: reserve_def)
  then show ?thesis
  proof (cases rule: and_thenE)
    case (err e)
    with lock_ledger_keeps [OF err(1)] s show ?thesis by (intro exI [of _ "[]"]) simp
  next
    case (ok u s1)
    from lock_ledger_keeps [OF ok(1)] s have s1: "ledger_sound s1" "entries_of s1 = Inr es"
      by (simp_all add: ledger_sound_def)
    from ok(2) show ?thesis
    proof (cases rule: and_thenE)
      case (err e)
      from sweep_run [OF s1 err(1)] err(2) show ?thesis by auto
    next
      case (ok v s2)
      from sweep_run [OF s1 ok(1)] obtain rel where s2: "ledger_sound s2" "entries_of s2 = Inr (es @ rel)"
        and rel: "list_all is_released rel" "v = es @ rel" by auto
      from ok(2) show ?thesis
      proof (cases rule: and_thenE)
        case (err e)
        with s2 rel show ?thesis by (auto simp: zone_result_run)
      next
        case (ok checks s3)
        then have c: "checks_for env (es @ rel) acct (Some amount) now = Inr checks" "s3 = s2"
          using rel by (auto simp: zone_result_run split: sum.splits)
        show ?thesis
        proof (cases "\<not> fits checks \<and> \<not> b")
          case True
          with ok(2) c s2 rel show ?thesis by (auto simp: exec_simps intro!: exI [of _ rel])
        next
          case False
          let ?s3 = "s2\<lparr>led_drawn := Suc (led_drawn s2)\<rparr>"
          have s3: "ledger_sound ?s3" "entries_of ?s3 = Inr (es @ rel)" using s2 by simp_all
          show ?thesis
          proof (cases "period_keys env (acc_declarations acct) now")
            case (Inl e)
            with ok(2) c False s3 rel show ?thesis
              by (intro exI [of _ rel]) (auto simp: exec_simps draw_uuid_def zone_result_def)
          next
            case (Inr keys)
            from ok(2) c False have fin: "r = Inr (if fits checks
                 then Reserved_ok \<lparr>res_id = env_uuid env (led_drawn s2), res_amount = amount\<rparr> checks
                 else ReservedWithBreach \<lparr>res_id = env_uuid env (led_drawn s2), res_amount = amount\<rparr> checks)"
              "s' = with_entry (held_entry env acct \<lparr>res_id = env_uuid env (led_drawn s2), res_amount = amount\<rparr>
                now keys ctx) ?s3"
              by (auto simp: exec_simps draw_uuid_def zone_result_def Inr append_run(2) [OF s3(1)] held_entry_def)
            with False c rel with_entry_sound(2) [OF s3] Inr show ?thesis
              by (intro exI [of _ rel] conjI [OF rel(1)], intro disjI2 [OF disjI2] exI [of _ checks] exI [of _ keys]
                  exI [of _ "\<lparr>res_id = env_uuid env (led_drawn s2), res_amount = amount\<rparr>"]) auto
          qed
        qed
      qed
    qed
  qed
qed

lemma reserve_breach_flag:
  "reserve env acct price now ctx b s = (Inr (Declined c), s') \<Longrightarrow> \<not> b"
  "reserve env acct price now ctx b s = (Inr (ReservedWithBreach res c), s') \<Longrightarrow> b \<and> \<not> fits c"
  "reserve env acct price now ctx b s = (Inr NothingDeclared, s') \<Longrightarrow> acc_declarations acct = []"
  by (auto simp: reserve_def exec_simps split: if_splits prod.splits sum.splits)

subsection \<open>The gate is closed when it does not know\<close>

lemma reserve_ids_after_release: "list_all is_released rel \<Longrightarrow> reserve_ids (es @ rel) = reserve_ids es"
  by (simp add: reserve_ids_released)

lemma refusal_of_breach [simp]: "is_refusal (unreadable_ruling env who m e) \<longleftrightarrow> m = Strict"
  by (simp add: unreadable_ruling_def)

lemma unreadable_decision_simps [simp]:
  "gd_reservation (unreadable_decision env acct m e) = None"
  "gd_ruling (unreadable_decision env acct m e) = Some (unreadable_ruling env (acc_principal acct) m e)"
  "gr_decision (gd_record (unreadable_decision env acct m e)) =
     Some (if m = Strict then ''declined'' else ''proceeded_with_breach'')"
  by (simp_all add: unreadable_decision_def Let_def decision_word_def)

text \<open>
  C7. The gate in strict mode is closed: for an account with a declaration, on a ledger that can be read
  and written, a price is either refused, with nothing reserved in the file and nothing held, or every
  period was checked against the swept file and fits, and the file's last entry is the reservation the
  decision holds. An error of the lock, the read or a zone name is a refusal.
\<close>

theorem strict_gate_is_closed:
  assumes "ledger_sound s" "entries_of s = Inr es" "acc_declarations acct \<noteq> []"
    and "reserve_decision env acct price Strict now ctx s = (d, s')"
  shows "(\<exists>res rel checks keys. gd_reservation d = Some res \<and> gd_ruling d = None \<and>
       gr_decision (gd_record d) = Some ''reserved'' \<and> res_amount res = price \<and>
       checks_for env (es @ rel) acct (Some price) now = Inr checks \<and> fits checks \<and>
       entries_of s' = Inr (es @ rel @ [held_entry env acct res now keys ctx])) \<or>
     (gd_reservation d = None \<and> (\<exists>r. gd_ruling d = Some r \<and> is_refusal r) \<and>
       gr_decision (gd_record d) = Some ''declined'' \<and>
       (\<exists>es'. entries_of s' = Inr es' \<and> reserve_ids es' = reserve_ids es))"
proof -
  obtain r where run: "reserve env acct price now ctx False s = (r, s')"
    using assms(4) by (auto simp: reserve_decision_def Let_def split: prod.splits sum.splits reserve_outcome.splits)
  note d = assms(4) [unfolded reserve_decision_def, simplified, unfolded run, simplified]
  from reserve_run [OF assms(1-3) run] obtain rel where rel: "list_all is_released rel"
    and cases: "(\<exists>e. r = Inl e \<and> entries_of s' = Inr (es @ rel)) \<or>
     (\<exists>checks. r = Inr (Declined checks) \<and> entries_of s' = Inr (es @ rel)) \<or>
     (\<exists>checks res keys. res_amount res = price \<and> fits checks \<and> r = Inr (Reserved_ok res checks) \<and>
        checks_for env (es @ rel) acct (Some price) now = Inr checks \<and>
        entries_of s' = Inr (es @ rel @ [held_entry env acct res now keys ctx]))"
    by (simp cong: conj_cong) blast
  note ids = reserve_ids_after_release [OF rel, of es]
  from cases show ?thesis
  proof (elim disjE exE conjE)
    fix checks res keys
    assume "res_amount res = price" "fits checks" "r = Inr (Reserved_ok res checks)"
      "checks_for env (es @ rel) acct (Some price) now = Inr checks"
      "entries_of s' = Inr (es @ rel @ [held_entry env acct res now keys ctx])"
    with d show ?thesis by auto
  qed (use d ids in \<open>auto simp: Let_def\<close>)
qed

lemma strict_gate_is_closed_witness:
  "\<exists>d s'. reserve_decision sample_env sample_account (sample_price\<lparr>micros := 25000\<rparr>) Strict 0 ''run'' sample_start = (d, s')
     \<and> gd_reservation d = None \<and> gr_decision (gd_record d) = Some ''declined''"
proof -
  obtain d s' where run:
    "reserve_decision sample_env sample_account (sample_price\<lparr>micros := 25000\<rparr>) Strict 0 ''run'' sample_start = (d, s')"
    by fastforce
  have "gd_reservation d = None"
    using run by (simp add: reserve_decision_def reserve_def sample_defs ledger_eval) auto
  moreover have "ledger_sound sample_start" "entries_of sample_start = Inr []" "acc_declarations sample_account \<noteq> []"
    by (simp_all add: sample_defs ledger_sound_def ends_in_newline_def contents_def empty_file_def read_rows_def)
  ultimately show ?thesis using strict_gate_is_closed [OF _ _ _ run] run by auto
qed

text \<open>
  Observe and prefer never stop a spend: whatever the ledger says, and whatever fails in it, neither
  the reservation of a price nor the check before a dispatch refuses in those modes.
\<close>

theorem gate_carries_outside_strict:
  assumes "mode \<noteq> Strict"
  shows "(case gd_ruling (fst (reserve_decision env acct p mode now ctx s)) of Some r \<Rightarrow> \<not> is_refusal r | None \<Rightarrow> True) \<and>
    (case gd_ruling (fst (pre_dispatch env acct price mode now ctx s)) of Some r \<Rightarrow> \<not> is_refusal r | None \<Rightarrow> True)"
proof
  have rd: "reserve_decision env acct p mode now ctx s = (d, s') \<Longrightarrow> gd_ruling d = Some r \<Longrightarrow> \<not> is_refusal r" for p d s' r
    using assms by (auto simp: reserve_decision_def undeclared_decision_def Let_def
        split: prod.splits sum.splits reserve_outcome.splits)
  show "case gd_ruling (fst (reserve_decision env acct p mode now ctx s)) of Some r \<Rightarrow> \<not> is_refusal r | None \<Rightarrow> True"
    by (cases "reserve_decision env acct p mode now ctx s") (auto dest: rd split: option.splits)
  show "case gd_ruling (fst (pre_dispatch env acct price mode now ctx s)) of Some r \<Rightarrow> \<not> is_refusal r | None \<Rightarrow> True"
    using assms by (auto simp: pre_dispatch_def undeclared_decision_def Let_def dest: rd
        split: prod.splits sum.splits option.splits)
qed

lemma gate_carries_outside_strict_witness:
  "\<not> is_refusal (unreadable_ruling sample_env ''ana'' Observe (Lock_refused ''held''))"
  using gate_carries_outside_strict [of Observe sample_env sample_account sample_price 0 "''run''"
      "sample_start\<lparr>led_locks := [Some ''held'']\<rparr>" None]
  by (simp add: reserve_decision_def reserve_def lock_ledger_def sample_account_def and_then_def)

subsection \<open>An unreadable ledger is never an empty one\<close>

lemma read_ledger_unreadable:
  assumes "entries_of s = Inl e"
  shows "\<exists>e' s'. read_ledger s = (Inl e', s') \<and> led_file s' = led_file s"
  using assms by (auto simp: read_ledger_def split: list.splits option.splits)

lemma swept_unreadable:
  assumes "entries_of s = Inl e"
  shows "isl (fst (and_then lock_ledger (\<lambda>_. and_then (sweep_expired env now) k) s)) \<and>
    led_file (snd (and_then lock_ledger (\<lambda>_. and_then (sweep_expired env now) k) s)) = led_file s"
proof -
  obtain r1 s1 where l: "lock_ledger s = (r1, s1)" by fastforce
  from lock_ledger_keeps [OF l] assms have f: "led_file s1 = led_file s" "entries_of s1 = Inl e" by simp_all
  from read_ledger_unreadable [OF f(2)] l f(1) show ?thesis
    by (cases r1) (auto simp: and_then_def sweep_expired_def)
qed

text \<open>
  C37. A ledger that does not parse is an error and stays as it is: every operation that reads it fails
  and writes nothing, and in strict mode the gate refuses the price. No spent authority is reopened by a
  damaged line.
\<close>

theorem unreadable_ledger_fails_closed:
  assumes "read_rows (led_file s) = Inl e" "acc_declarations acct \<noteq> []"
  shows "isl (fst (reserve env acct price now ctx b s)) \<and> led_file (snd (reserve env acct price now ctx b s)) = led_file s \<and>
    isl (fst (reconcile env acct res receipt now ctx n s)) \<and> led_file (snd (reconcile env acct res receipt now ctx n s)) = led_file s \<and>
    isl (fst (commit_observed env acct price now ctx n s)) \<and> led_file (snd (commit_observed env acct price now ctx n s)) = led_file s \<and>
    isl (fst (ledger_standing env acct now s)) \<and>
    (\<exists>r. gd_ruling (fst (pre_dispatch env acct quoted Strict now ctx s)) = Some r \<and> is_refusal r) \<and>
    gd_reservation (fst (pre_dispatch env acct quoted Strict now ctx s)) = None"
proof -
  note sw = swept_unreadable [OF assms(1)]
  have res: "isl (fst (reserve env acct p now ctx b s)) \<and> led_file (snd (reserve env acct p now ctx b s)) = led_file s" for p b
    by (simp only: reserve_def assms(2) if_False) (rule sw)
  have rec: "isl (fst (reconcile env acct res receipt now ctx n s)) \<and>
      led_file (snd (reconcile env acct res receipt now ctx n s)) = led_file s"
    unfolding reconcile_def by (rule sw)
  have com: "isl (fst (commit_observed env acct price now ctx n s)) \<and>
      led_file (snd (commit_observed env acct price now ctx n s)) = led_file s"
    by (simp only: commit_observed_def assms(2) if_False) (rule sw)
  have st: "isl (fst (ledger_standing env acct now s))"
    unfolding ledger_standing_def using sw by blast
  have "(\<exists>r. gd_ruling (fst (pre_dispatch env acct quoted Strict now ctx s)) = Some r \<and> is_refusal r) \<and>
      gd_reservation (fst (pre_dispatch env acct quoted Strict now ctx s)) = None"
  proof (cases quoted)
    case None
    obtain e' s' where "ledger_standing env acct now s = (Inl e', s')"
      using st by (metis isl_def prod.collapse)
    with None assms(2) show ?thesis by (simp add: pre_dispatch_def)
  next
    case (Some p)
    obtain e' s' where "reserve env acct p now ctx False s = (Inl e', s')"
      using res [of p False] by (metis isl_def prod.collapse)
    with Some assms(2) show ?thesis by (simp add: pre_dispatch_def reserve_decision_def)
  qed
  with res rec com st show ?thesis by blast
qed

lemma unreadable_ledger_fails_closed_witness:
  "isl (fst (reserve sample_env sample_account sample_price 0 ''run'' True
     (sample_start\<lparr>led_file := Some \<lparr>rows = [], tail = Some (Unparsed ''cut'')\<rparr>\<rparr>)))"
proof -
  let ?s = "sample_start\<lparr>led_file := Some \<lparr>rows = [], tail = Some (Unparsed ''cut'')\<rparr>\<rparr>"
  have "read_rows (led_file ?s) = Inl (Bad_line 1 ''cut'')" "acc_declarations sample_account \<noteq> []"
    by (simp_all add: read_rows_def lines_of_def sample_account_def)
  from unreadable_ledger_fails_closed [OF this] show ?thesis by blast
qed

subsection \<open>The sweep\<close>

text \<open>
  Crash recovery by rule: after a sweep that returns, every reservation whose expiry has passed is
  resolved in the file, the releases it wrote are exactly one for each that was not yet, and a second
  sweep at the same instant writes nothing.
\<close>

theorem sweep_resolves_every_expired:
  assumes "ledger_sound s" "entries_of s = Inr es" "sweep_expired env now s = (Inr swept_entries, s')"
  shows "entries_of s' = Inr swept_entries \<and>
    (\<exists>rel. swept_entries = es @ rel \<and> list_all is_released rel \<and>
       resolved_ids rel = map fst (List.map_filter (expired_of (resolved_ids es) now) es)) \<and>
    List.map_filter (expired_of (resolved_ids swept_entries) now) swept_entries = []"
proof -
  from sweep_run [OF assms] obtain rel where rel: "entries_of s' = Inr (es @ rel)" "list_all is_released rel"
    "swept_entries = es @ rel" "resolved_ids rel = map fst (List.map_filter (expired_of (resolved_ids es) now) es)"
    by auto
  have "expired_of (resolved_ids (es @ rel)) now e = None" if "e \<in> set (es @ rel)" for e
  proof (cases e)
    case (Reserved i ep am ks t x pid ctx)
    with that rel(2) have "e \<in> set es" by (auto simp: is_released_def list_all_iff)
    then show ?thesis
      using Reserved rel(4) by (force simp: List.map_filter_def)
  qed simp_all
  then have "List.map_filter (expired_of (resolved_ids (es @ rel)) now) (es @ rel) = []"
    unfolding List.map_filter_def by (auto simp: filter_empty_conv simp del: resolved_ids_append not_None_eq)
  with rel show ?thesis by auto
qed

definition sample_expired :: ledger_entry where
  "sample_expired = Reserved (Uuid 9) ''ana'' sample_price (\<lambda>_. None) 0 5 7 ''run''"

lemma sweep_resolves_every_expired_witness:
  "List.map_filter (expired_of [Uuid 9] 10000000000)
     [sample_expired, Released (Uuid 0) (Uuid 9) 10 (expiry_reason sample_env 5)] = []"
  using sweep_resolves_every_expired [of "sample_start\<lparr>led_file := Some \<lparr>rows = [Row sample_expired], tail = None\<rparr>\<rparr>"
      "[sample_expired]" sample_env 10000000000
      "[sample_expired, Released (Uuid 0) (Uuid 9) 10 (expiry_reason sample_env 5)]"
      "snd (sweep_expired sample_env 10000000000
         (sample_start\<lparr>led_file := Some \<lparr>rows = [Row sample_expired], tail = None\<rparr>\<rparr>))"]
  by (simp add: sample_start_def sample_env_def sample_expired_def ledger_sound_def ends_in_newline_def ledger_eval)

subsection \<open>Settlement\<close>

lemma swept_success:
  assumes "ledger_sound s" "entries_of s = Inr es"
    and "and_then lock_ledger (\<lambda>_. and_then (sweep_expired env now) (\<lambda>_. m)) s = (Inr a, s')"
  obtains rel s1 where "ledger_sound s1" "entries_of s1 = Inr (es @ rel)" "list_all is_released rel" "m s1 = (Inr a, s')"
  using assms(3)
proof (cases rule: and_thenE)
  case (ok u s1)
  from lock_ledger_keeps [OF ok(1)] assms(1,2) have s1: "ledger_sound s1" "entries_of s1 = Inr es"
    by (simp_all add: ledger_sound_def)
  from ok(2) show ?thesis
  proof (cases rule: and_thenE)
    case (ok v s2)
    with sweep_run [OF s1 ok(1)] show ?thesis by (auto intro: that)
  qed simp
qed simp

lemma keyed_settlement:
  assumes s: "ledger_sound s" "entries_of s = Inr es"
    and run: "and_then (draw_uuid env) (\<lambda>i. and_then (zone_result q) (\<lambda>keys.
       and_then (append_settlement (e i keys)) k)) s = (r, s')"
    and k: "\<And>s1. k () s1 = (Inr a, s1)"
  shows "(\<exists>err. q = Inl err \<and> r = Inl (Unknown_zone err)) \<or>
    (\<exists>keys. q = Inr keys \<and> r = Inr a \<and>
      entries_of s' = Inr (es @ [e (env_uuid env (led_drawn s)) keys]))"
proof -
  have s1: "ledger_sound (s\<lparr>led_drawn := n\<rparr>)" "entries_of (s\<lparr>led_drawn := n\<rparr>) = Inr es" for n
    using s by simp_all
  show ?thesis
    using run by (cases q) (auto simp: exec_simps draw_uuid_def zone_result_def append_run(3) [OF s1(1)] k
        with_entry_sound(2) [OF s1])
qed

lemma commit_step_run: "append_settlement e s = (r, s') \<Longrightarrow> and_then (append_settlement e) (\<lambda>_. ret ()) s = (r, s')"
  by (cases r) (auto simp: and_then_def ret_def)

text \<open>
  Money that moved is counted or reported. When a receipt charges money and the ledger can be
  written, either the file's last entry is the observed charge, committed for this principal in the
  periods of its zone against the reservation that was held, and the record says so; or the failure
  returned carries the observed charge and the reservation's id, and the record holds that failure.
\<close>

theorem settlement_is_counted_or_reported:
  assumes "ledger_sound s" "entries_of s = Inr es" "acc_declarations acct \<noteq> []"
    and "charge_money charge = Some observed"
    and "settle_success env acct rec reservation charge now ctx s = (r, rec', s')"
  shows "(case r of
      Inr _ \<Rightarrow> \<exists>rel j keys nt w. entries_of s' = Inr (es @ rel @ [Committed j (map_option res_id reservation)
           (acc_principal acct) observed keys (stamp now) ctx nt]) \<and> list_all is_released rel \<and>
         period_keys env (acc_declarations acct) now = Inr keys \<and> gr_settlement rec' = Some w
    | Inl f \<Rightarrow> gr_settlement rec' = Some (Unrecorded f) \<and> sf_observed f = Some observed \<and>
         sf_reservation_id f = map_option res_id reservation)"
proof (cases r)
  case (Inl f)
  with assms(3-5) show ?thesis
    by (cases reservation) (auto simp: settle_success_def Let_def split: prod.splits sum.splits)
next
  case (Inr u)
  note k = exec_simps(1)
  show ?thesis
  proof (cases reservation)
    case (Some res)
    with assms(4,5) Inr obtain w where
      run: "reconcile env acct res (Some observed) now ctx (receipt_note charge) s = (Inr w, s')"
      and rec: "gr_settlement rec' = Some (Reconciled w)"
      by (auto simp: settle_success_def Let_def res_map_Inr_iff split: prod.splits sum.splits)
    from swept_success [OF assms(1,2) run [unfolded reconcile_def option.case]] obtain rel s1 where
      s1: "ledger_sound s1" "entries_of s1 = Inr (es @ rel)" "list_all is_released rel"
      and fin: "and_then (draw_uuid env) (\<lambda>i. and_then (zone_result (period_keys env (acc_declarations acct) now)) (\<lambda>keys.
           and_then (append_settlement (Committed i (Some (res_id res)) (acc_principal acct) observed keys
               (stamp now) ctx (quote_note observed (res_amount res) (receipt_note charge)))) (\<lambda>_.
           ret (quote_note observed (res_amount res) (receipt_note charge))))) s1 = (Inr w, s')" .
    from keyed_settlement [OF s1(1,2) fin k] s1(3) rec Inr Some show ?thesis by auto
  next
    case None
    with assms(3-5) Inr obtain w where
      run: "commit_observed env acct observed now ctx (receipt_note charge) s = (Inr (), s')"
      and rec: "gr_settlement rec' = Some w"
      by (auto simp: settle_success_def Let_def res_map_Inr_iff split: prod.splits sum.splits)
    from swept_success [OF assms(1,2) run [unfolded commit_observed_def if_not_P [OF assms(3)]]]
    obtain rel s1 where s1: "ledger_sound s1" "entries_of s1 = Inr (es @ rel)" "list_all is_released rel"
      and fin: "and_then (draw_uuid env) (\<lambda>i. and_then (zone_result (period_keys env (acc_declarations acct) now)) (\<lambda>keys.
           append_settlement (Committed i None (acc_principal acct) observed keys
               (stamp now) ctx (receipt_note charge)))) s1 = (Inr (), s')" .
    have "and_then (draw_uuid env) (\<lambda>i. and_then (zone_result (period_keys env (acc_declarations acct) now)) (\<lambda>keys.
           and_then (append_settlement (Committed i None (acc_principal acct) observed keys
               (stamp now) ctx (receipt_note charge))) (\<lambda>_. ret ()))) s1 = (Inr (), s')"
      using fin by (auto simp: and_then_Inr_iff ret_def)
    from keyed_settlement [OF s1(1,2) this k] s1(3) rec Inr None show ?thesis by auto
  qed
qed

definition sample_charge :: acquisition_charge where
  "sample_charge = \<lparr>charge_money = Some sample_price, charge_native = None\<rparr>"

lemma settlement_is_counted_or_reported_witness:
  "\<exists>rec' s'. settle_success sample_env sample_account (consulted sample_account) None sample_charge 0 ''run'' sample_start
     = (Inr (), rec', s') \<and> (\<exists>rel j keys nt. entries_of s' = Inr (rel @ [Committed j None ''ana'' sample_price keys 0 ''run'' nt]))"
proof -
  obtain r rec' s' where run: "settle_success sample_env sample_account (consulted sample_account) None sample_charge 0
      ''run'' sample_start = (r, rec', s')" by (metis prod_cases3)
  have "fst (commit_observed sample_env sample_account sample_price 0 ''run'' (receipt_note sample_charge) sample_start) = Inr ()"
    by (simp add: commit_observed_def sample_defs ledger_eval)
  then have r: "r = Inr ()"
    using run by (auto simp: settle_success_def sample_charge_def Let_def sample_account_def split: prod.splits sum.splits)
  have "ledger_sound sample_start" "entries_of sample_start = Inr []" "acc_declarations sample_account \<noteq> []"
    "charge_money sample_charge = Some sample_price"
    by (simp_all add: sample_defs ledger_sound_def ends_in_newline_def contents_def empty_file_def read_rows_def sample_charge_def)
  from settlement_is_counted_or_reported [OF this run] r run show ?thesis
    by (auto simp: sample_account_def stamp_def)
qed

subsection \<open>What the second attempt of a settlement does\<close>

text \<open>
  The retry of a settlement whose first write failed, by how it failed: where nothing of the line
  reached the file the entry is there once; where the flush failed the whole line had been written, and
  the entry stands twice; where part of the line was written the second attempt joins it, the settlement
  is reported as recorded, and the ledger no longer parses.
\<close>

theorem settlement_retry_outcomes:
  assumes "ends_in_newline (led_file s)" "read_rows (led_file s) = Inr es" "led_appends s = [Some f]"
  shows "fst (append_settlement c s) = Inr () \<and>
    (case f of
       Open_failed _ \<Rightarrow> read_rows (led_file (snd (append_settlement c s))) = Inr (es @ [c])
     | Write_failed Nothing_written _ \<Rightarrow> read_rows (led_file (snd (append_settlement c s))) = Inr (es @ [c])
     | Write_failed _ _ \<Rightarrow> isl (read_rows (led_file (snd (append_settlement c s))))
     | Flush_failed _ \<Rightarrow> read_rows (led_file (snd (append_settlement c s))) = Inr (es @ [c, c]))"
proof -
  let ?g = "contents (led_file s)"
  have t: "tail ?g = None" using assms(1) by (simp add: ends_in_newline_def)
  have p: "parse_rows 1 (rows ?g) = Inr es"
    using assms(2) t by (auto simp: read_rows_def lines_of_def contents_def empty_file_def split: option.splits)
  show ?thesis
    using t p assms(3)
    by (cases f; cases "led_file s")
      (auto simp: append_settlement_def append_raw_def append_row_def read_rows_def lines_of_def write_line_def
        write_torn_def contents_def empty_file_def join_tail_def run_together_def parse_rows_append split: torn.splits)
qed

lemma settlement_retry_outcomes_witness:
  "read_rows (led_file (snd (append_settlement sample_expired
     (sample_start\<lparr>led_appends := [Some (Flush_failed ''EIO'')]\<rparr>)))) = Inr [sample_expired, sample_expired]"
  using settlement_retry_outcomes [of "sample_start\<lparr>led_appends := [Some (Flush_failed ''EIO'')]\<rparr>" "[]" "Flush_failed ''EIO''"]
  by (simp add: sample_start_def ends_in_newline_def contents_def empty_file_def read_rows_def)

text \<open>
  An observed charge whose first write fails at the flush is counted twice: the call reports success,
  and the committed total of the period rises by twice the charge, because the sum does not look at the
  entry's id.
\<close>

theorem flush_retry_counts_twice:
  assumes "ends_in_newline (led_file s)" "read_rows (led_file s) = Inr es" "led_appends s = [Some (Flush_failed e)]"
    and "counts_for (acc_principal acct) d key (acc_principal acct) amount keys"
    and "c = Committed i rid (acc_principal acct) amount keys t ctx nt"
  shows "\<exists>es'. append_settlement c s = (Inr (), snd (append_settlement c s)) \<and>
    read_rows (led_file (snd (append_settlement c s))) = Inr es' \<and>
    committed_sum es' (acc_principal acct) d key
      = committed_sum es (acc_principal acct) d key + 2 * unat (micros amount)"
proof -
  have s1: "ledger_sound (s\<lparr>led_appends := []\<rparr>)" "entries_of (s\<lparr>led_appends := []\<rparr>) = Inr es"
    using assms(1,2) by (simp_all add: ledger_sound_def)
  let ?s2 = "with_entry c (s\<lparr>led_appends := []\<rparr>)"
  note s2 = with_entry_sound [OF s1, of c]
  have "append_raw c s = (Inl (Flush_failed e), ?s2)"
    using assms(3) by (cases s) (simp add: append_raw_def append_row_def with_entry_def)
  then have "append_settlement c s = (Inr (), with_entry c ?s2)"
    using append_run(1) [OF s2(1), of c] by (simp add: append_settlement_def)
  with with_entry_sound(2) [OF s2, of c] assms(4,5) show ?thesis by simp
qed

lemma flush_retry_counts_twice_witness:
  "\<exists>es'. read_rows (led_file (snd (append_settlement
       (Committed (Uuid 0) None ''ana'' sample_price [Day \<mapsto> Day_key 2026 1 31] 0 '''' '''')
       (sample_start\<lparr>led_appends := [Some (Flush_failed ''EIO'')]\<rparr>)))) = Inr es' \<and>
     committed_sum es' ''ana'' (hd (acc_declarations sample_account)) (Day_key 2026 1 31) = 30000"
  using flush_retry_counts_twice [of "sample_start\<lparr>led_appends := [Some (Flush_failed ''EIO'')]\<rparr>" "[]" "''EIO''"
      sample_account "hd (acc_declarations sample_account)" "Day_key 2026 1 31" sample_price
      "[Day \<mapsto> Day_key 2026 1 31]" _ "Uuid 0" None 0 "''''" "''''"]
  by (simp add: sample_defs ends_in_newline_def contents_def empty_file_def read_rows_def counts_for_def)

text \<open>
  A damaged ledger stays closed: once one complete line is not an entry, no sequence of operations,
  whatever its outcomes, makes the ledger readable again.
\<close>

theorem damaged_ledger_stays_closed:
  assumes "Unparsed x \<in> set (rows (contents (led_file s)))"
  shows "\<exists>e. read_rows (led_file (fold (run_call env) calls s)) = Inl e"
proof -
  have mem: "Unparsed x \<in> set rs \<Longrightarrow> \<exists>e. parse_rows n rs = Inl e" for n rs
    by (induction n rs rule: parse_rows.induct) auto
  have "Unparsed x \<in> set (written (fold (run_call env) calls s))"
    using assms
  proof (induction calls arbitrary: s)
    case (Cons c calls)
    from run_call_written [of env c s] Cons.prems have "Unparsed x \<in> set (written (run_call env c s))"
      by (auto simp: written_def)
    with Cons.IH show ?case by (simp add: written_def)
  qed (simp add: written_def)
  then show ?thesis
    by (cases "led_file (fold (run_call env) calls s)")
      (auto simp: written_def contents_def empty_file_def read_rows_def lines_of_def intro!: mem)
qed

lemma damaged_ledger_stays_closed_witness:
  "\<exists>e. read_rows (led_file (fold (run_call sample_env) [Call_standing sample_account 0]
     (sample_start\<lparr>led_file := Some \<lparr>rows = [Unparsed ''x''], tail = None\<rparr>\<rparr>))) = Inl e"
  by (rule damaged_ledger_stays_closed [where x = "''x''"]) (simp add: contents_def)

subsection \<open>What the agent is told\<close>

lemma givens_refusal_agent_reason: "givens (refusal_agent_reason who price checks) = {who}"
proof -
  have "givens t = {}" if "refusal_agent_part price c = Some t" for c t
    using that by (auto simp: refusal_agent_part_def split: if_splits)
  then show ?thesis
    by (auto simp: refusal_agent_reason_def givens_agent_list List.map_filter_def)
qed

text \<open>
  The reason an agent reads for a refusal or breach of the allowance carries no text but this
  program's own and the principal's name: no period key, no error text of the ledger and no currency
  that is not a three-letter code reaches it.
\<close>

theorem gate_tells_the_agent_the_principal_only:
  "(\<forall>r a. gd_ruling (fst (reserve_decision env acct p mode now ctx s)) = Some r \<longrightarrow>
      ruling_agent_reason r = Some a \<longrightarrow> givens a = {acc_principal acct}) \<and>
   (\<forall>r a. gd_ruling (fst (pre_dispatch env acct price mode now ctx s)) = Some r \<longrightarrow>
      ruling_agent_reason r = Some a \<longrightarrow> givens a = {acc_principal acct})"
proof -
  have rd: "reserve_decision env acct p mode now ctx s = (d, s') \<Longrightarrow> gd_ruling d = Some r \<Longrightarrow>
      ruling_agent_reason r = Some a \<Longrightarrow> givens a = {acc_principal acct}" for p d s' r a
    by (auto simp: reserve_decision_def undeclared_decision_def Let_def givens_refusal_agent_reason
        unreadable_ruling_def split: prod.splits sum.splits reserve_outcome.splits)
  show ?thesis
  proof (intro conjI allI impI)
    fix r a
    assume "gd_ruling (fst (reserve_decision env acct p mode now ctx s)) = Some r" "ruling_agent_reason r = Some a"
    then show "givens a = {acc_principal acct}"
      by (cases "reserve_decision env acct p mode now ctx s") (auto dest: rd)
  next
    fix r a
    assume "gd_ruling (fst (pre_dispatch env acct price mode now ctx s)) = Some r" "ruling_agent_reason r = Some a"
    then show "givens a = {acc_principal acct}"
      by (auto simp: pre_dispatch_def undeclared_decision_def Let_def unreadable_ruling_def dest: rd
          split: prod.splits sum.splits option.splits if_splits)
  qed
qed

lemma gate_tells_the_agent_the_principal_only_witness:
  "\<exists>a. ruling_agent_reason (unreadable_ruling sample_env ''ana'' Strict (Lock_refused ''held'')) = Some a \<and> givens a = {''ana''}"
  using gate_tells_the_agent_the_principal_only [of sample_env sample_account sample_price Strict 0 "''run''"
      "sample_start\<lparr>led_locks := [Some ''held'']\<rparr>" None]
  by (simp add: reserve_decision_def reserve_def lock_ledger_def sample_account_def and_then_def unreadable_ruling_def)

text \<open>
  In observe and prefer a price that does not fit is carried and reserved, and the gap recorded with
  it still says the acquisition was declined and nothing was bought.
\<close>

theorem breach_gap_says_declined_while_carrying:
  assumes "mode \<noteq> Strict"
    and "reserve env acct price now ctx True s = (Inr (ReservedWithBreach res checks), s')"
    and "list_ex chk_would_exceed checks"
  shows "\<exists>d. reserve_decision env acct price mode now ctx s = (d, s') \<and> gd_reservation d = Some res \<and>
    gr_decision (gd_record d) = Some ''proceeded_with_breach'' \<and>
    map_option ruling_gap (gd_ruling d) = Some (Some (gap_new BudgetExhausted ''The price exceeded the principal's remaining periodic allowance, so the acquisition was declined and nothing was bought.''))"
  using assms by (simp add: reserve_decision_def breach_gap_def Let_def)

lemma breach_gap_says_declined_while_carrying_witness:
  "\<exists>d s'. reserve_decision sample_env sample_account (sample_price\<lparr>micros := 25000\<rparr>) Observe 0 ''run'' sample_start = (d, s')
     \<and> gr_decision (gd_record d) = Some ''proceeded_with_breach''"
proof -
  obtain res checks where run: "fst (reserve sample_env sample_account (sample_price\<lparr>micros := 25000\<rparr>) 0 ''run'' True sample_start)
      = Inr (ReservedWithBreach res checks)" "list_ex chk_would_exceed checks"
    by (simp add: reserve_def sample_defs ledger_eval)
  then have "reserve sample_env sample_account (sample_price\<lparr>micros := 25000\<rparr>) 0 ''run'' True sample_start
      = (Inr (ReservedWithBreach res checks), snd (reserve sample_env sample_account (sample_price\<lparr>micros := 25000\<rparr>) 0 ''run'' True sample_start))"
    by (simp add: prod_eq_iff)
  from breach_gap_says_declined_while_carrying [of Observe, OF _ this run(2)] show ?thesis by auto
qed

subsection \<open>What fitting means\<close>

lemma check_for_exact:
  assumes "check_for env es acct (Some m) now d = Inr chk" "period_key env d now = Inr k"
  shows "chk_comparable chk \<and> \<not> chk_would_exceed chk \<longleftrightarrow>
    currency m = currency (decl_amount d) \<and>
    min (held_sum es (acc_principal acct) d k now + unat (micros m)) u64_max \<le> unat (micros (decl_amount d))"
proof -
  obtain c r where sp: "spent es (acc_principal acct) d k now = (c, r)" by fastforce
  have "micros (decl_amount d) < saturating_add (saturating_add c r) (micros m) \<longleftrightarrow>
      \<not> min (held_sum es (acc_principal acct) d k now + unat (micros m)) u64_max \<le> unat (micros (decl_amount d))"
    by (simp only: word_less_nat_alt not_le unat_sat_u64 [of "saturating_add c r"] held_exact [OF sp] min_sat_assoc)
  then show ?thesis using assms sp by (auto simp: check_for_def Let_def)
qed

text \<open>
  C38. The arithmetic of a reservation is exact despite its saturating sums: the checks fit exactly when,
  for every declared period, the price is in the declaration's currency and what the period already
  holds, added without a width, leaves room for it; the one exception is a declaration of the largest
  amount a 64-bit integer can hold, which is never exceeded.
\<close>

theorem reservation_fits_exactly:
  assumes "checks_for env es acct (Some price) now = Inr checks"
  shows "fits checks = list_all (\<lambda>d. case period_key env d now of Inl _ \<Rightarrow> False | Inr k \<Rightarrow>
      currency price = currency (decl_amount d) \<and>
      (held_sum es (acc_principal acct) d k now + unat (micros price) \<le> unat (micros (decl_amount d))
       \<or> unat (micros (decl_amount d)) = u64_max)) (acc_declarations acct)"
proof -
  let ?P = "\<lambda>d. case period_key env d now of Inl _ \<Rightarrow> False | Inr k \<Rightarrow>
      currency price = currency (decl_amount d) \<and>
      (held_sum es (acc_principal acct) d k now + unat (micros price) \<le> unat (micros (decl_amount d))
       \<or> unat (micros (decl_amount d)) = u64_max)"
  have each: "(chk_comparable chk \<and> \<not> chk_would_exceed chk) = ?P d"
    if ch: "check_for env es acct (Some price) now d = Inr chk" for d chk
  proof -
    from ch obtain k where k: "period_key env d now = Inr k" by (auto simp: check_for_def res_map_Inr_iff)
    have "min a u64_max \<le> unat (micros (decl_amount d)) \<longleftrightarrow>
        a \<le> unat (micros (decl_amount d)) \<or> unat (micros (decl_amount d)) = u64_max" for a
      using unat_u64_le [of "micros (decl_amount d)"] by auto
    then show ?thesis by (simp add: check_for_exact [OF ch k] k)
  qed
  from assms have "list_all2 (\<lambda>d chk. check_for env es acct (Some price) now d = Inr chk) (acc_declarations acct) checks"
    by (simp add: checks_for_def traverse_Inr_iff)
  then show ?thesis
    unfolding fits_def by (induction rule: list_all2_induct) (simp_all add: each)
qed

lemma reservation_fits_exactly_witness:
  "\<exists>checks. checks_for sample_env [] sample_account (Some sample_price) 0 = Inr checks \<and> fits checks"
proof -
  have "\<exists>c. checks_for sample_env [] sample_account (Some sample_price) 0 = Inr c"
    by (simp add: checks_for_def check_for_def period_key_def zone_def sample_defs)
  then obtain checks where c: "checks_for sample_env [] sample_account (Some sample_price) 0 = Inr checks" by blast
  from reservation_fits_exactly [OF c] c show ?thesis
    by (simp add: sample_defs period_key_def zone_def held_sum_def)
qed

end
