(* ===== verification/Purchase.thy ===== *)
theory Purchase
  imports Policy Allowance_Gate
begin

section \<open>Where money can move: quoted purchases and priced dispatches\<close>

text \<open>
  The two spending paths of \<open>crates/commonmeasure-runtime/src/run.rs\<close>: quote, decide and buy
  (\<open>quoted_purchase\<close> with \<open>allowance_gate\<close>), and the remote dispatch that is not a quote
  (the gate, the call, the settlement). The supplier's calls and the clock are arguments: a
  confirm is \<open>None\<close> where the path never reached the spending call. A plan under construction
  is reduced to what rulings change in it.
\<close>

subsection \<open>The mode and the plan\<close>

record source_policy =
  sp_job :: context_job
  sp_authority :: ruling

fun enforcement_mode :: "policy_mode \<Rightarrow> policy_mode option \<Rightarrow> policy_mode" where
  "enforcement_mode suite home =
     (if suite = Strict \<or> home = Some Strict then Strict
      else if suite = Prefer \<or> home = Some Prefer then Prefer
      else Observe)"

record decision_record =
  dr_refuse :: bool
  dr_reason :: string
  dr_gap :: gap
  dr_source :: "string option"
  dr_basis :: "string option"

record plan =
  plan_eligible :: bool
  plan_reason :: string
  plan_decisions :: "decision_record list"
  plan_gaps :: "gap list"

record run_options =
  ro_suite_job :: context_job
  ro_source_policy :: "source_policy option"
  ro_allowance :: "account option"

definition run_mode :: "run_options \<Rightarrow> policy_mode" where
  "run_mode o1 = enforcement_mode (job_mode (ro_suite_job o1))
     (map_option (\<lambda>p. job_mode (sp_job p)) (ro_source_policy o1))"

definition min_option :: "u64 option \<Rightarrow> u64 option \<Rightarrow> u64 option" where
  "min_option a b = (case (a, b) of (None, _) \<Rightarrow> b | (_, None) \<Rightarrow> a | (Some x, Some y) \<Rightarrow> Some (min x y))"

definition context_budget :: "run_options \<Rightarrow> u64 option" where
  "context_budget o1 = min_option (maximum_context_tokens (ro_suite_job o1))
     (case ro_source_policy o1 of None \<Rightarrow> None | Some p \<Rightarrow> maximum_context_tokens (sp_job p))"

definition add_gap :: "gap \<Rightarrow> plan \<Rightarrow> plan" where
  "add_gap g p = p\<lparr>plan_gaps := plan_gaps p @ [g]\<rparr>"

definition apply_ruling :: "ruling \<Rightarrow> string option \<Rightarrow> string option \<Rightarrow> plan \<Rightarrow> plan" where
  "apply_ruling r source basis p = (case (ruling_reason r, ruling_gap r) of
      (Some reason, Some g) \<Rightarrow>
        (let p1 = add_gap g p;
             p2 = (if source = None then p1\<lparr>plan_eligible := \<not> is_refusal r, plan_reason := reason\<rparr> else p1)
         in p2\<lparr>plan_decisions := plan_decisions p2 @ [\<lparr>dr_refuse = is_refusal r, dr_reason = reason,
              dr_gap = g, dr_source = source, dr_basis = basis\<rparr>]\<rparr>)
    | _ \<Rightarrow> p)"

definition check_policy :: "run_options \<Rightarrow> string option \<Rightarrow> (context_job \<Rightarrow> ruling) \<Rightarrow> plan \<Rightarrow> ruling \<times> plan" where
  "check_policy o1 source check p =
     (let suite = (\<lambda>result basis p1.
            let r = check (in_mode (ro_suite_job o1) (run_mode o1))
            in (if r \<noteq> Allowed then r else result, apply_ruling r source basis p1))
      in case ro_source_policy o1 of
           None \<Rightarrow> suite Allowed None p
         | Some sp \<Rightarrow>
             (let r = (if is_refusal (sp_authority sp) then sp_authority sp
                       else check (in_mode (sp_job sp) (run_mode o1)));
                  p1 = apply_ruling r source (Some ''source_policy'') p
              in if is_refusal r then (r, p1) else suite r (Some ''suite'') p1))"

subsection \<open>Quote, decide, buy\<close>

record quote =
  qt_workflow :: string
  qt_billing_status :: "string option"
  qt_charge :: acquisition_charge
  qt_latency :: nat

datatype allowance_record = Not_consulted string | Gate gate_record

record quote_record =
  qr_decision :: "string option"
  qr_reason :: "string option"
  qr_allowance :: "allowance_record option"

datatype quote_step =
    Quote_failed string
  | NotPurchased quote_record nat string
  | Purchased "string + acquisition_charge" quote_record nat ruling

definition gate_unpriced :: "account \<Rightarrow> policy_mode \<Rightarrow> quote \<Rightarrow> ruling" where
  "gate_unpriced acct mode q = breach mode
     (''Principal '' @ debug_str (acc_principal acct) @ '' holds a cumulative allowance and the quote is ''
       @ (case charge_native (qt_charge q) of
            Some native \<Rightarrow> native_amount native @ '' '' @ native_unit native | None \<Rightarrow> ''no price at all'')
       @ '', which a monetary allowance cannot be checked against; buying at an unverifiable price is declined rather than discovered on the receipt.'')
     [Fixed ''Principal '', Given (acc_principal acct),
      Fixed '' holds a cumulative allowance and the quote is not a price in a currency the allowance can be checked against; buying at an unverifiable price is declined rather than discovered on the receipt.'']
     (gap_new EvidenceMissing ''The quoted price could not be verified against the principal's cumulative allowance before purchase.'')"

definition no_context_reason :: string where
  "no_context_reason = ''the run holds no principal allowance context: it was started without principal policy, or in replay, where no money moves''"

definition allowance_gate :: "ledger_env \<Rightarrow> run_options \<Rightarrow> quote \<Rightarrow> bool \<Rightarrow> int \<Rightarrow> string \<Rightarrow> ledger_state
    \<Rightarrow> (allowance_record \<times> reservation option \<times> ruling option) \<times> ledger_state" where
  "allowance_gate env o1 q trial now context_text s = (case ro_allowance o1 of
      None \<Rightarrow> ((Not_consulted no_context_reason, None, None), s)
    | Some acct \<Rightarrow>
        (if acc_declarations acct = [] then ((Gate (gd_record (undeclared_decision acct)), None, None), s)
         else if trial then
           ((Gate ((consulted acct)\<lparr>gr_decision := Some ''nothing_reserved'',
               gr_reason := Some ''the supplier states this purchase is trial-covered; no money moves, so nothing is reserved''\<rparr>),
             None, None), s)
         else case charge_money (qt_charge q) of
           None \<Rightarrow>
             (let r = gate_unpriced acct (run_mode o1) q
              in ((Gate ((consulted acct)\<lparr>gr_decision := Some (decision_word r), gr_reason := Some (reason_or_default r)\<rparr>),
                   None, Some r), s))
         | Some price \<Rightarrow>
             (case reserve_decision env acct price (run_mode o1) now context_text s of
                (d, s') \<Rightarrow> ((Gate (gd_record d), gd_reservation d, gd_ruling d), s'))))"

definition with_gate_record :: "quote_record \<Rightarrow> gate_record \<Rightarrow> quote_record" where
  "with_gate_record rec g = rec\<lparr>qr_allowance := Some (Gate g)\<rparr>"

text \<open>The settlement after the confirm, whichever way it went: the gap it leaves, if any.\<close>

definition settle_purchase :: "ledger_env \<Rightarrow> run_options \<Rightarrow> string + acquisition_charge \<Rightarrow> reservation option
    \<Rightarrow> quote_record \<Rightarrow> int \<Rightarrow> string \<Rightarrow> ledger_state \<Rightarrow> (string option \<times> quote_record) \<times> ledger_state" where
  "settle_purchase env o1 acquisition reservation rec now context_text s = (case ro_allowance o1 of
      None \<Rightarrow> ((None, rec), s)
    | Some acct \<Rightarrow>
        (let g = (case qr_allowance rec of Some (Gate g) \<Rightarrow> g | _ \<Rightarrow> consulted acct) in
         case acquisition of
           Inr charge \<Rightarrow>
             (case settle_success env acct g reservation charge now context_text s of
                (r, g', s') \<Rightarrow> ((case r of Inl f \<Rightarrow> Some (settlement_failure_text env f) | Inr _ \<Rightarrow> None,
                    with_gate_record rec g'), s'))
         | Inl error \<Rightarrow>
             (case reservation of
                None \<Rightarrow> ((None, rec), s)
              | Some res \<Rightarrow>
                  (case release_after_failure env g res (''the confirm failed before settlement ('' @ error @ '')'') now s of
                     (r, g', s') \<Rightarrow> ((case r of Inl e \<Rightarrow> Some (''The allowance reservation could not be released: '' @ e)
                         | Inr _ \<Rightarrow> None, with_gate_record rec g'), s')))))"

definition purchase_reason :: "ruling \<Rightarrow> bool \<Rightarrow> string" where
  "purchase_reason r trial = (case r of
      Allowed \<Rightarrow> (if trial then ''The supplier states the purchase is covered by the trial; no charge applies (the billing note above is the supplier's own sentence).''
        else ''No constraint declined the purchase.'')
    | _ \<Rightarrow> reason_or_default r)"

text \<open>The spending call and what follows it, past both gates.\<close>

definition buy :: "ledger_env \<Rightarrow> run_options \<Rightarrow> quote \<Rightarrow> (quote \<Rightarrow> string + acquisition_charge) \<Rightarrow> ruling
    \<Rightarrow> reservation option \<Rightarrow> quote_record \<Rightarrow> int \<Rightarrow> string \<Rightarrow> plan \<Rightarrow> ledger_state
    \<Rightarrow> quote_step \<times> plan \<times> ledger_state" where
  "buy env o1 q confirm ruling reservation rec now context_text p s =
     (let acquisition = confirm q in
      case settle_purchase env o1 acquisition reservation (rec\<lparr>qr_decision := Some ''confirmed''\<rparr>) now context_text s of
        ((gap_text, rec'), s') \<Rightarrow>
          (Purchased acquisition rec' (qt_latency q) ruling,
           (case gap_text of None \<Rightarrow> p | Some detail \<Rightarrow> add_gap (gap_new EvidenceMissing detail) p), s'))"

text \<open>The second gate, after the job's own cap has let the purchase through.\<close>

definition gate_and_buy :: "ledger_env \<Rightarrow> run_options \<Rightarrow> quote \<Rightarrow> (quote \<Rightarrow> string + acquisition_charge) \<Rightarrow> ruling
    \<Rightarrow> bool \<Rightarrow> quote_record \<Rightarrow> int \<Rightarrow> int \<Rightarrow> string \<Rightarrow> plan \<Rightarrow> ledger_state \<Rightarrow> quote_step \<times> plan \<times> ledger_state" where
  "gate_and_buy env o1 q confirm ruling trial rec now1 now2 context_text p s =
     (case allowance_gate env o1 q trial now1 context_text s of
        ((arec, reservation, aruling), s1) \<Rightarrow>
          (let rec2 = rec\<lparr>qr_allowance := Some arec\<rparr> in
           case aruling of
             None \<Rightarrow> buy env o1 q confirm ruling reservation rec2 now2 context_text p s1
           | Some r \<Rightarrow>
               (if is_refusal r then
                  (NotPurchased (rec2\<lparr>qr_decision := Some ''declined'', qr_reason := Some (reason_or_default r)\<rparr>)
                     (qt_latency q) ''refused'', apply_ruling r None None p, s1)
                else buy env o1 q confirm ruling reservation rec2 now2 context_text (apply_ruling r None None p) s1)))"

definition quoted_purchase :: "ledger_env \<Rightarrow> run_options \<Rightarrow> string + quote \<Rightarrow> (quote \<Rightarrow> string + acquisition_charge)
    \<Rightarrow> int \<Rightarrow> int \<Rightarrow> string \<Rightarrow> plan \<Rightarrow> ledger_state \<Rightarrow> quote_step \<times> plan \<times> ledger_state" where
  "quoted_purchase env o1 quoted confirm now1 now2 context_text p s = (case quoted of
      Inl error \<Rightarrow> (Quote_failed error, p, s)
    | Inr q \<Rightarrow>
        (let trial = (qt_billing_status q = Some ''trial'');
             rec = \<lparr>qr_decision = None, qr_reason = None, qr_allowance = None\<rparr>
         in if qt_workflow q \<noteq> ''requires_confirm'' then
              (let detail = ''The preview answered workflow '' @ [CHR 0x22] @ qt_workflow q @ [CHR 0x22]
                    @ ''; the only settlement path this runtime has recorded evidence for is '' @ [CHR 0x22]
                    @ ''requires_confirm'' @ [CHR 0x22] @ '', so nothing was bought and no content was taken from the preview.''
               in (NotPurchased (rec\<lparr>qr_decision := Some ''not_attempted'', qr_reason := Some detail\<rparr>)
                     (qt_latency q) ''unavailable'', add_gap (gap_new EvidenceMissing detail) p, s))
            else
              (case check_policy o1 None (\<lambda>job. purchase_decision job (qt_charge q) trial) p of
                 (ruling, p1) \<Rightarrow>
                   (let rec1 = rec\<lparr>qr_reason := Some (purchase_reason ruling trial)\<rparr>
                    in if is_refusal ruling then
                         (NotPurchased (rec1\<lparr>qr_allowance := Some (Not_consulted
                             ''the job's own cost cap declined the purchase, so the allowance was never reached''),
                             qr_decision := Some ''declined''\<rparr>) (qt_latency q) ''refused'', p1, s)
                       else gate_and_buy env o1 q confirm ruling trial rec1 now1 now2 context_text p1 s))))"

subsection \<open>A dispatch that is not a quote\<close>

datatype dispatch_step =
    Dispatch_refused gate_record
  | Dispatch_failed string "gate_record option"
  | Dispatched acquisition_charge "gate_record option"

definition remote_dispatch :: "ledger_env \<Rightarrow> run_options \<Rightarrow> money option \<Rightarrow> string + acquisition_charge
    \<Rightarrow> int \<Rightarrow> int \<Rightarrow> string \<Rightarrow> plan \<Rightarrow> ledger_state \<Rightarrow> dispatch_step \<times> plan \<times> ledger_state" where
  "remote_dispatch env o1 published acquired now1 now2 context_text p s = (case ro_allowance o1 of
      None \<Rightarrow> (case acquired of Inl error \<Rightarrow> (Dispatch_failed error None, p, s)
                | Inr charge \<Rightarrow> (Dispatched charge None, p, s))
    | Some acct \<Rightarrow>
        (case pre_dispatch env acct published (run_mode o1) now1 context_text s of
           (d, s1) \<Rightarrow>
             (let p1 = (case gd_ruling d of None \<Rightarrow> p | Some r \<Rightarrow> apply_ruling r None None p)
              in if (case gd_ruling d of None \<Rightarrow> False | Some r \<Rightarrow> is_refusal r) then (Dispatch_refused (gd_record d), p1, s1)
                 else case acquired of
                   Inl error \<Rightarrow>
                     (case gd_reservation d of
                        None \<Rightarrow> (Dispatch_failed error (Some (gd_record d)), p1, s1)
                      | Some res \<Rightarrow>
                          (case release_after_failure env (gd_record d) res
                              (''the dispatch failed before any receipt ('' @ error @ '')'') now2 s1 of
                             (r, g, s2) \<Rightarrow> (Dispatch_failed error (Some g),
                               (case r of Inl e \<Rightarrow> add_gap (gap_new EvidenceMissing
                                    (''The allowance reservation could not be released: '' @ e)) p1
                                | Inr _ \<Rightarrow> p1), s2)))
                 | Inr charge \<Rightarrow>
                     (case settle_success env acct (gd_record d) (gd_reservation d) charge now2 context_text s1 of
                        (r, g, s2) \<Rightarrow> (Dispatched charge (Some g),
                          (case r of Inl f \<Rightarrow> add_gap (gap_new EvidenceMissing (settlement_failure_text env f)) p1
                           | Inr _ \<Rightarrow> p1), s2)))))"

subsection \<open>What the gate leaves in the ledger\<close>

lemma reserve_sound_after:
  assumes "ledger_sound s" "entries_of s = Inr es" "reserve env acct amount now ctx b s = (r, s')"
  shows "ledger_sound s'"
  using reserve_extends [OF assms] by (simp add: extends_by_def)

lemma reserve_decision_run:
  assumes s: "ledger_sound s" "entries_of s = Inr es" and decl: "acc_declarations acct \<noteq> []"
    and run: "reserve_decision env acct price mode now ctx s = (d, s')"
  shows "ledger_sound s' \<and> (\<exists>rel. list_all is_released rel \<and>
    (case gd_reservation d of
       None \<Rightarrow> entries_of s' = Inr (es @ rel) \<and> (\<exists>r. gd_ruling d = Some r \<and> (is_refusal r \<longleftrightarrow> mode = Strict))
     | Some res \<Rightarrow> res_amount res = price \<and>
         (\<exists>checks keys. checks_for env (es @ rel) acct (Some price) now = Inr checks \<and> (mode = Strict \<longrightarrow> fits checks) \<and>
            period_keys env (acc_declarations acct) now = Inr keys \<and>
            entries_of s' = Inr (es @ rel @ [held_entry env acct res now keys ctx])) \<and>
         (\<forall>r. gd_ruling d = Some r \<longrightarrow> \<not> is_refusal r)))"
proof -
  obtain r where r: "reserve env acct price now ctx (mode \<noteq> Strict) s = (r, s')"
    using run by (auto simp: reserve_decision_def Let_def split: prod.splits sum.splits reserve_outcome.splits)
  note d = run [unfolded reserve_decision_def r, simplified]
  have snd: "ledger_sound s'" by (rule reserve_sound_after [OF s r])
  from reserve_run [OF s decl r] obtain rel where rel: "list_all is_released rel"
    and cases: "(\<exists>e. r = Inl e \<and> entries_of s' = Inr (es @ rel)) \<or>
     (\<exists>checks. r = Inr (Declined checks) \<and> mode = Strict \<and> entries_of s' = Inr (es @ rel)) \<or>
     (\<exists>checks res keys. res_amount res = price \<and> (mode = Strict \<longrightarrow> fits checks) \<and>
        r = Inr (if fits checks then Reserved_ok res checks else ReservedWithBreach res checks) \<and>
        checks_for env (es @ rel) acct (Some price) now = Inr checks \<and>
        period_keys env (acc_declarations acct) now = Inr keys \<and>
        entries_of s' = Inr (es @ rel @ [held_entry env acct res now keys ctx]))"
    by blast
  from cases show ?thesis
  proof (elim disjE exE conjE)
    fix checks res keys
    assume a: "res_amount res = price" "mode = Strict \<longrightarrow> fits checks"
      "r = Inr (if fits checks then Reserved_ok res checks else ReservedWithBreach res checks)"
      "checks_for env (es @ rel) acct (Some price) now = Inr checks"
      "period_keys env (acc_declarations acct) now = Inr keys"
      "entries_of s' = Inr (es @ rel @ [held_entry env acct res now keys ctx])"
    have "gd_reservation d = Some res" "\<forall>r. gd_ruling d = Some r \<longrightarrow> \<not> is_refusal r"
      using d a(2,3) by (auto simp: Let_def split: if_splits)
    with snd rel a show ?thesis by (intro conjI exI [of _ rel]) auto
  qed (use d snd rel in \<open>auto simp: Let_def intro!: exI [of _ rel]\<close>)
qed

lemma allowance_gate_run:
  assumes s: "ledger_sound s" "entries_of s = Inr es"
    and run: "allowance_gate env o1 q trial now ctx s = ((arec, reservation, aruling), s')"
  shows "ledger_sound s' \<and> (\<exists>rel. list_all is_released rel \<and>
    (case reservation of
       None \<Rightarrow> entries_of s' = Inr (es @ rel)
     | Some res \<Rightarrow> (\<exists>acct keys. ro_allowance o1 = Some acct \<and> (\<exists>g. arec = Gate g) \<and>
         entries_of s' = Inr (es @ rel @ [held_entry env acct res now keys ctx]))))"
proof -
  have triv: "s' = s \<Longrightarrow> reservation = None \<Longrightarrow> ?thesis" using s by (auto intro!: exI [of _ "[]"])
  show ?thesis
  proof (cases "ro_allowance o1")
    case None
    with run triv show ?thesis by (auto simp: allowance_gate_def)
  next
    case (Some acct)
    show ?thesis
    proof (cases "acc_declarations acct = [] \<or> trial \<or> charge_money (qt_charge q) = None")
      case True
      with Some run triv show ?thesis by (auto simp: allowance_gate_def Let_def split: if_splits)
    next
      case False
      then obtain price where p: "charge_money (qt_charge q) = Some price" and decl: "acc_declarations acct \<noteq> []" and "\<not> trial"
        by auto
      with Some run obtain d where d: "reserve_decision env acct price (run_mode o1) now ctx s = (d, s')"
        and eq: "arec = Gate (gd_record d)" "reservation = gd_reservation d"
        by (auto simp: allowance_gate_def split: prod.splits)
      from reserve_decision_run [OF s decl d] Some eq show ?thesis
        by (cases "gd_reservation d") auto
    qed
  qed
qed

subsection \<open>Settling resolves\<close>

lemma reconcile_resolves:
  assumes s: "ledger_sound s" "entries_of s = Inr es"
    and run: "reconcile env acct res receipt now ctx n s = (Inr w, s')"
  shows "\<exists>rel e. list_all is_released rel \<and> entries_of s' = Inr (es @ rel @ [e]) \<and>
    resolves e = Some (res_id res) \<and> reserve_id e = None"
proof (cases receipt)
  case None
  from swept_success [OF s run [unfolded reconcile_def None option.case]] obtain rel s1 where
    s1: "ledger_sound s1" "entries_of s1 = Inr (es @ rel)" "list_all is_released rel"
    and fin: "and_then (draw_uuid env) (\<lambda>i. and_then (append_settlement (Released i (res_id res) (stamp now) (no_charge_reason n)))
         (\<lambda>_. ret (no_charge_reason n))) s1 = (Inr w, s')" .
  have s2: "ledger_sound (s1\<lparr>led_drawn := k\<rparr>)" "entries_of (s1\<lparr>led_drawn := k\<rparr>) = Inr (es @ rel)" for k
    using s1 by simp_all
  from fin s1(3) show ?thesis
    by (auto simp: exec_simps draw_uuid_def append_run(3) [OF s2(1)] with_entry_sound(2) [OF s2] intro!: exI [of _ rel])
next
  case (Some observed)
  from swept_success [OF s run [unfolded reconcile_def Some option.case]] obtain rel s1 where
    s1: "ledger_sound s1" "entries_of s1 = Inr (es @ rel)" "list_all is_released rel"
    and fin: "and_then (draw_uuid env) (\<lambda>i. and_then (zone_result (period_keys env (acc_declarations acct) now)) (\<lambda>keys.
         and_then (append_settlement (Committed i (Some (res_id res)) (acc_principal acct) observed keys
             (stamp now) ctx (quote_note observed (res_amount res) n))) (\<lambda>_. ret (quote_note observed (res_amount res) n)))) s1
         = (Inr w, s')" .
  from keyed_settlement [OF s1(1,2) fin exec_simps(1)] s1(3) show ?thesis by auto
qed

lemma release_resolves:
  assumes s: "ledger_sound s" "entries_of s = Inr es" and run: "release env res now reason s = (Inr u, s')"
  shows "\<exists>e. is_released e \<and> entries_of s' = Inr (es @ [e]) \<and> resolves e = Some (res_id res)"
proof -
  obtain s1 where l: "lock_ledger s = (Inr (), s1)"
    and fin: "and_then (draw_uuid env) (\<lambda>i. append_entry (Released i (res_id res) (stamp now) reason)) s1 = (Inr u, s')"
    by (rule and_thenE [OF run [unfolded release_def]]) auto
  from lock_ledger_keeps [OF l] s have s1: "ledger_sound (s1\<lparr>led_drawn := k\<rparr>)" "entries_of (s1\<lparr>led_drawn := k\<rparr>) = Inr es" for k
    by (simp_all add: ledger_sound_def)
  from fin show ?thesis
    by (auto simp: exec_simps draw_uuid_def append_run(2) [OF s1(1)] with_entry_sound(2) [OF s1] is_released_def)
qed

subsection \<open>The rulings of two declarations\<close>

lemma check_policy_refuses:
  "is_refusal (fst (check_policy o1 source check p)) \<longleftrightarrow>
     (case ro_source_policy o1 of
        Some sp \<Rightarrow> is_refusal (sp_authority sp) \<or> is_refusal (check (in_mode (sp_job sp) (run_mode o1)))
      | None \<Rightarrow> False) \<or> is_refusal (check (in_mode (ro_suite_job o1) (run_mode o1)))"
  by (auto simp: check_policy_def Let_def split: option.splits)

lemma enforcement_mode_strict: "enforcement_mode suite home = Strict \<longleftrightarrow> suite = Strict \<or> home = Some Strict"
  by auto

lemma buy_run:
  assumes "buy env o1 q confirm ruling reservation rec now ctx p s = (step, p', s')"
  obtains rec' where "step = Purchased (confirm q) rec' (qt_latency q) ruling"
    "\<exists>g. settle_purchase env o1 (confirm q) reservation (rec\<lparr>qr_decision := Some ''confirmed''\<rparr>) now ctx s = ((g, rec'), s')"
  using assms by (auto simp: buy_def Let_def split: prod.splits)

lemma quoted_purchase_buys:
  assumes "quoted_purchase env o1 (Inr q) confirm now1 now2 ctx p s = (Purchased acq rec lat ruling, p', s')"
  obtains arec reservation aruling s1 rec1 g where
    "qt_workflow q = ''requires_confirm''" "acq = confirm q"
    "\<not> is_refusal (fst (check_policy o1 None (\<lambda>job. purchase_decision job (qt_charge q)
        (qt_billing_status q = Some ''trial'')) p))"
    "allowance_gate env o1 q (qt_billing_status q = Some ''trial'') now1 ctx s = ((arec, reservation, aruling), s1)"
    "\<forall>r. aruling = Some r \<longrightarrow> \<not> is_refusal r"
    "settle_purchase env o1 (confirm q) reservation rec1 now2 ctx s1 = ((g, rec), s')"
    "qr_allowance rec1 = Some arec"
proof -
  obtain cr p1 where cp: "check_policy o1 None (\<lambda>job. purchase_decision job (qt_charge q) (qt_billing_status q = Some ''trial'')) p = (cr, p1)"
    by fastforce
  obtain arec reservation aruling s1 where ag:
    "allowance_gate env o1 q (qt_billing_status q = Some ''trial'') now1 ctx s = ((arec, reservation, aruling), s1)"
    by (metis prod_cases3 surj_pair)
  have wf: "qt_workflow q = ''requires_confirm''"
    using assms by (auto simp: quoted_purchase_def Let_def split: if_splits)
  have nr: "\<not> is_refusal cr"
    using assms wf by (auto simp: quoted_purchase_def Let_def cp split: if_splits)
  obtain rec1 where gb: "gate_and_buy env o1 q confirm cr (qt_billing_status q = Some ''trial'') rec1 now1 now2 ctx p1 s
      = (Purchased acq rec lat ruling, p', s')"
    using assms wf nr by (auto simp: quoted_purchase_def Let_def cp)
  obtain p2 where b: "buy env o1 q confirm cr reservation (rec1\<lparr>qr_allowance := Some arec\<rparr>) now2 ctx p2 s1
      = (Purchased acq rec lat ruling, p', s')" and nr2: "\<forall>r. aruling = Some r \<longrightarrow> \<not> is_refusal r"
    using gb by (cases aruling) (auto simp: gate_and_buy_def ag Let_def split: if_splits)
  from buy_run [OF b] obtain rec' where st: "Purchased acq rec lat ruling = Purchased (confirm q) rec' (qt_latency q) cr"
    and settle: "\<exists>g. settle_purchase env o1 (confirm q) reservation
        (rec1\<lparr>qr_allowance := Some arec, qr_decision := Some ''confirmed''\<rparr>) now2 ctx s1 = ((g, rec'), s')"
    by auto
  from settle st obtain g where "settle_purchase env o1 (confirm q) reservation
        (rec1\<lparr>qr_allowance := Some arec, qr_decision := Some ''confirmed''\<rparr>) now2 ctx s1 = ((g, rec), s')" by auto
  with wf nr nr2 ag cp st show ?thesis by (intro that) auto
qed


definition sample_options :: run_options where
  "sample_options = \<lparr>ro_suite_job = sample_job, ro_source_policy = None, ro_allowance = Some sample_account\<rparr>"

definition sample_quote :: quote where
  "sample_quote = \<lparr>qt_workflow = ''requires_confirm'', qt_billing_status = None, qt_charge = sample_charge, qt_latency = 5\<rparr>"

definition sample_plan :: plan where
  "sample_plan = \<lparr>plan_eligible = True, plan_reason = [], plan_decisions = [], plan_gaps = []\<rparr>"

lemma sample_sound: "ledger_sound sample_start" "entries_of sample_start = Inr []"
  by (simp_all add: sample_start_def ledger_sound_def ends_in_newline_def contents_def empty_file_def read_rows_def)

lemma sample_mode: "run_mode sample_options = Strict"
  by (simp add: run_mode_def sample_options_def sample_job_def)

lemma sample_purchase:
  "\<exists>rec lat ruling p' s'. quoted_purchase sample_env sample_options (Inr sample_quote) (\<lambda>_. Inr sample_charge) 0 0 ''run'' sample_plan sample_start
     = (Purchased (Inr sample_charge) rec lat ruling, p', s')"
proof -
  have pd: "purchase_decision (in_mode sample_job Strict) sample_charge False = Allowed"
    by (simp add: purchase_decision_def sample_job_def maximum_acquisition_cost_def sample_charge_def sample_price_def
        money_compare_def cmp_u64_def)
  have cp: "check_policy sample_options None (\<lambda>job. purchase_decision job sample_charge False) sample_plan = (Allowed, sample_plan)"
    using pd sample_mode by (simp add: check_policy_def sample_options_def apply_ruling_def)
  obtain res checks where res: "fst (reserve sample_env sample_account sample_price 0 ''run'' False sample_start) = Inr (Reserved_ok res checks)"
    by (simp add: reserve_def sample_defs ledger_eval)
  obtain s1 where r: "reserve sample_env sample_account sample_price 0 ''run'' False sample_start = (Inr (Reserved_ok res checks), s1)"
    using res by (metis prod.collapse)
  obtain g where gate: "allowance_gate sample_env sample_options sample_quote False 0 ''run'' sample_start = ((Gate g, Some res, None), s1)"
    using r sample_mode by (simp add: allowance_gate_def sample_options_def sample_quote_def sample_charge_def
        sample_account_def reserve_decision_def)
  show ?thesis
    by (simp add: quoted_purchase_def Let_def sample_quote_def cp [unfolded sample_quote_def] gate_and_buy_def
        gate [unfolded sample_quote_def] buy_def split: prod.splits)
qed


subsection \<open>No hold is left silently\<close>

definition says_unrecorded :: "quote_record \<Rightarrow> bool" where
  "says_unrecorded rec \<longleftrightarrow> (case qr_allowance rec of
      Some (Gate g) \<Rightarrow> (case gr_settlement g of
          Some (Unrecorded _) \<Rightarrow> True | Some (Release_unrecorded _ _) \<Rightarrow> True | _ \<Rightarrow> False)
    | _ \<Rightarrow> False)"

lemma settles_not_reserve: "settles_for env acct res receipt now es e \<Longrightarrow> reserve_id e = None"
  by (cases e; cases receipt) (auto simp: settles_for_def commits_for_def is_released_def)

lemma settle_purchase_run:
  assumes s: "ledger_sound s" "entries_of s = Inr es"
    and run: "settle_purchase env o1 acquisition reservation rec now ctx s = ((g, rec'), s')"
    and ctxd: "reservation \<noteq> None \<Longrightarrow> ro_allowance o1 \<noteq> None"
  shows "\<exists>ext. entries_of s' = Inr (es @ ext) \<and> reserve_ids ext = [] \<and>
    (case reservation of None \<Rightarrow> True | Some res \<Rightarrow> res_id res \<in> set (resolved_ids ext) \<or> (says_unrecorded rec' \<and> g \<noteq> None))"
proof (cases "ro_allowance o1")
  case None
  with run ctxd s show ?thesis by (cases reservation) (auto simp: settle_purchase_def intro!: exI [of _ "[]"])
next
  case (Some acct)
  show ?thesis
  proof (cases acquisition)
    case (Inl error)
    show ?thesis
    proof (cases reservation)
      case None
      with run Some Inl s show ?thesis by (auto simp: settle_purchase_def Let_def intro!: exI [of _ "[]"])
    next
      case r: (Some res)
      obtain q where rel: "release env res now (''released: '' @ ''the confirm failed before settlement ('' @ error @ '')'') s = (q, s')"
        using run Some Inl r by (auto simp: settle_purchase_def Let_def release_after_failure_def split: prod.splits sum.splits)
      show ?thesis
      proof (cases q)
        case (Inl e)
        with rel run Some \<open>acquisition = Inl error\<close> r have "says_unrecorded rec'" "g \<noteq> None"
          by (auto simp: settle_purchase_def Let_def release_after_failure_def says_unrecorded_def with_gate_record_def)
        moreover from release_extends [OF s rel] obtain ext where "entries_of s' = Inr (es @ ext)" "list_all is_released ext"
          by (fastforce simp: extends_by_def)
        ultimately show ?thesis using r by (auto simp: reserve_ids_released)
      next
        case (Inr u)
        from release_resolves [OF s rel [unfolded Inr]] obtain e where
          "is_released e" "entries_of s' = Inr (es @ [e])" "resolves e = Some (res_id res)" by blast
        with r show ?thesis using reserve_ids_released [of "[e]"] by (intro exI [of _ "[e]"]) simp
      qed
    qed
  next
    case (Inr charge)
    show ?thesis
    proof (cases reservation)
      case None
      show ?thesis
      proof (cases "charge_money charge")
        case None
        with run Some Inr \<open>reservation = None\<close> s show ?thesis
          by (auto simp: settle_purchase_def Let_def settle_success_def intro!: exI [of _ "[]"])
      next
        case (Some m)
        show ?thesis
        proof (cases "acc_declarations acct = []")
          case True
          with run \<open>ro_allowance o1 = Some acct\<close> Some Inr \<open>reservation = None\<close> s show ?thesis
            by (auto simp: settle_purchase_def Let_def settle_success_def intro!: exI [of _ "[]"])
        next
          case False
          with run \<open>ro_allowance o1 = Some acct\<close> Some Inr \<open>reservation = None\<close> obtain q where
            "commit_observed env acct m now ctx (receipt_note charge) s = (q, s')"
            by (auto simp: settle_purchase_def Let_def settle_success_def split: prod.splits sum.splits)
          from commit_observed_extends [OF s this] obtain rel where "list_all is_released rel"
            "entries_of s' = Inr (es @ rel) \<or> (\<exists>e. entries_of s' = Inr (es @ rel @ [e]) \<and> reserve_id e = None)"
            by (fastforce simp: extends_by_def commits_for_def)
          with \<open>reservation = None\<close> show ?thesis by (auto simp: reserve_ids_released)
        qed
      qed
    next
      case r: (Some res)
      obtain q where rc: "reconcile env acct res (charge_money charge) now ctx (receipt_note charge) s = (q, s')"
        using run Some Inr r by (auto simp: settle_purchase_def Let_def settle_success_def split: prod.splits sum.splits)
      show ?thesis
      proof (cases q)
        case (Inl e)
        with rc run Some Inr r have "says_unrecorded rec'" "g \<noteq> None"
          by (auto simp: settle_purchase_def Let_def settle_success_def says_unrecorded_def with_gate_record_def)
        moreover from reconcile_extends [OF s rc] obtain rel where "list_all is_released rel"
            "entries_of s' = Inr (es @ rel) \<or> (\<exists>e. entries_of s' = Inr (es @ rel @ [e]) \<and> reserve_id e = None)"
          unfolding extends_by_def using settles_not_reserve by blast
        ultimately show ?thesis using r by (auto simp: reserve_ids_released)
      next
        case (Inr w)
        from reconcile_resolves [OF s rc [unfolded Inr]] obtain rel e where "list_all is_released rel"
          "entries_of s' = Inr (es @ rel @ [e])" "resolves e = Some (res_id res)" "reserve_id e = None" by blast
        with r show ?thesis by (intro exI [of _ "rel @ [e]"]) (simp add: reserve_ids_released)
      qed
    qed
  qed
qed



end
