(* ===== verification/Address.thy ===== *)
theory Address
  imports Job
begin

section \<open>Private and public addresses\<close>

text \<open>
  \<open>crates/commonmeasure-types/src/address.rs\<close>: which addresses the privacy floor calls private.
  An IPv4 address is 32 bits and an IPv6 address 128 bits; octets and segments are cut out of them as
  the standard library does. \<open>url::Url\<close> is a parameter: what the code reads of a parsed URL is
  its scheme and its host. The lemmas show that the octet patterns of the code are exactly the CIDR
  blocks its documentation names.
\<close>

type_synonym ipv4 = "32 word"
type_synonym ipv6 = "128 word"

datatype ip_addr = V4 ipv4 | V6 ipv6

definition octet :: "nat \<Rightarrow> ipv4 \<Rightarrow> u8" where
  "octet i a = ucast (drop_bit (8 * (3 - i)) a)"

definition segment :: "nat \<Rightarrow> ipv6 \<Rightarrow> u16" where
  "segment i a = ucast (drop_bit (16 * (7 - i)) a)"

subsection \<open>IPv4\<close>

text \<open>The standard library's predicates the code calls.\<close>

definition v4_is_private :: "ipv4 \<Rightarrow> bool" where
  "v4_is_private a \<longleftrightarrow> octet 0 a = 10 \<or> (octet 0 a = 172 \<and> 16 \<le> octet 1 a \<and> octet 1 a \<le> 31)
     \<or> (octet 0 a = 192 \<and> octet 1 a = 168)"

definition v4_is_documentation :: "ipv4 \<Rightarrow> bool" where
  "v4_is_documentation a \<longleftrightarrow> (octet 0 a = 192 \<and> octet 1 a = 0 \<and> octet 2 a = 2)
     \<or> (octet 0 a = 198 \<and> octet 1 a = 51 \<and> octet 2 a = 100)
     \<or> (octet 0 a = 203 \<and> octet 1 a = 0 \<and> octet 2 a = 113)"

definition v4_is_multicast :: "ipv4 \<Rightarrow> bool" where
  "v4_is_multicast a \<longleftrightarrow> 224 \<le> octet 0 a \<and> octet 0 a \<le> 239"

definition is_global_v4 :: "ipv4 \<Rightarrow> bool" where
  "is_global_v4 a \<longleftrightarrow> \<not> (octet 0 a = 0
     \<or> v4_is_private a
     \<or> (octet 0 a = 100 \<and> 64 \<le> octet 1 a \<and> octet 1 a \<le> 127)
     \<or> octet 0 a = 127
     \<or> (octet 0 a = 169 \<and> octet 1 a = 254)
     \<or> ((octet 0 a = 192 \<and> octet 1 a = 0 \<and> octet 2 a = 0) \<and> octet 3 a \<noteq> 9 \<and> octet 3 a \<noteq> 10)
     \<or> v4_is_documentation a
     \<or> (octet 0 a = 198 \<and> (octet 1 a = 18 \<or> octet 1 a = 19))
     \<or> 240 \<le> octet 0 a
     \<or> v4_is_multicast a)"

subsection \<open>IPv6\<close>

definition ipv4_of :: "u16 \<Rightarrow> u16 \<Rightarrow> ipv4" where
  "ipv4_of high low = or (push_bit 16 (ucast high)) (ucast low)"

definition embedded_ipv4 :: "ipv6 \<Rightarrow> ipv4 option" where
  "embedded_ipv4 a =
     (if segment 0 a = 0 \<and> segment 1 a = 0 \<and> segment 2 a = 0 \<and> segment 3 a = 0 \<and> segment 4 a = 0
         \<and> (segment 5 a = 0xffff \<or> segment 5 a = 0) then Some (ipv4_of (segment 6 a) (segment 7 a))
      else if segment 0 a = 0x64 \<and> segment 1 a = 0xff9b \<and> segment 2 a = 0 \<and> segment 3 a = 0 \<and> segment 4 a = 0
         \<and> segment 5 a = 0 then Some (ipv4_of (segment 6 a) (segment 7 a))
      else if segment 0 a = 0x2002 then Some (ipv4_of (segment 1 a) (segment 2 a))
      else None)"

definition v6_special :: "ipv6 \<Rightarrow> bool" where
  "v6_special a \<longleftrightarrow>
     (segment 0 a = 0x64 \<and> segment 1 a = 0xff9b \<and> segment 2 a = 1)
     \<or> (segment 0 a = 0x100 \<and> segment 1 a = 0 \<and> segment 2 a = 0 \<and> segment 3 a = 0)
     \<or> ((segment 0 a = 0x2001 \<and> segment 1 a < 0x200)
        \<and> \<not> (a = 0x20010001000000000000000000000001
           \<or> a = 0x20010001000000000000000000000002
           \<or> (segment 0 a = 0x2001 \<and> segment 1 a = 3)
           \<or> (segment 0 a = 0x2001 \<and> segment 1 a = 4 \<and> segment 2 a = 0x112)
           \<or> (segment 0 a = 0x2001 \<and> 0x20 \<le> segment 1 a \<and> segment 1 a \<le> 0x3f)))
     \<or> (segment 0 a = 0x2001 \<and> segment 1 a = 0xdb8) \<or> (segment 0 a = 0x3fff \<and> segment 1 a \<le> 0xfff)
     \<or> segment 0 a = 0x5f00
     \<or> and (segment 0 a) 0xfe00 = 0xfc00
     \<or> and (segment 0 a) 0xffc0 = 0xfe80
     \<or> and (segment 0 a) 0xffc0 = 0xfec0
     \<or> and (segment 0 a) 0xff00 = 0xff00"

definition is_global_v6 :: "ipv6 \<Rightarrow> bool" where
  "is_global_v6 a = (case embedded_ipv4 a of Some v4 \<Rightarrow> is_global_v4 v4 | None \<Rightarrow> \<not> v6_special a)"

fun is_private_ip :: "ip_addr \<Rightarrow> bool" where
  "is_private_ip (V4 a) \<longleftrightarrow> \<not> is_global_v4 a"
| "is_private_ip (V6 a) \<longleftrightarrow> \<not> is_global_v6 a"

fun as_ipv4 :: "ip_addr \<Rightarrow> ipv4 option" where
  "as_ipv4 (V4 a) = Some a"
| "as_ipv4 (V6 a) = embedded_ipv4 a"

definition is_fake_ip_range :: "ip_addr \<Rightarrow> bool" where
  "is_fake_ip_range a = (case as_ipv4 a of None \<Rightarrow> False
     | Some v4 \<Rightarrow> octet 0 v4 = 198 \<and> (octet 1 v4 = 18 \<or> octet 1 v4 = 19))"

definition is_shared_range :: "ip_addr \<Rightarrow> bool" where
  "is_shared_range a = (case as_ipv4 a of None \<Rightarrow> False
     | Some v4 \<Rightarrow> octet 0 v4 = 100 \<and> 64 \<le> octet 1 v4 \<and> octet 1 v4 \<le> 127)"

subsection \<open>URLs\<close>

datatype parsed_url_host = Domain string | Ipv4_host ipv4 | Ipv6_host ipv6

record parsed_url =
  pu_scheme :: string
  pu_host :: "parsed_url_host option"

definition ends_with :: "string \<Rightarrow> string \<Rightarrow> bool" where
  "ends_with s suffix \<longleftrightarrow> strip_suffix suffix s \<noteq> None"

definition is_private :: "url_host \<Rightarrow> parsed_url \<Rightarrow> bool" where
  "is_private url_host u =
     (if pu_scheme u = ''file'' then True
      else case pu_host u of
        None \<Rightarrow> True
      | Some (Domain d) \<Rightarrow>
          (let domain = normalised_host url_host d
           in domain = ''localhost'' \<or> ends_with domain ''.localhost'' \<or> ends_with domain ''.local''
              \<or> ends_with domain ''.internal'')
      | Some (Ipv4_host a) \<Rightarrow> is_private_ip (V4 a)
      | Some (Ipv6_host a) \<Rightarrow> is_private_ip (V6 a))"

definition is_private_address :: "url_host \<Rightarrow> (string \<Rightarrow> parsed_url option) \<Rightarrow> string \<Rightarrow> bool" where
  "is_private_address url_host parse raw = (case parse raw of None \<Rightarrow> True | Some u \<Rightarrow> is_private url_host u)"

subsection \<open>Blocks\<close>

text \<open>A CIDR block: a network and how many leading bits it fixes.\<close>

definition in_block :: "'a::len word \<Rightarrow> 'a word \<times> nat \<Rightarrow> bool" where
  "in_block a b \<longleftrightarrow> drop_bit (LENGTH('a) - snd b) a = drop_bit (LENGTH('a) - snd b) (fst b)"

definition v4_block :: "nat \<Rightarrow> nat \<Rightarrow> nat \<Rightarrow> nat \<Rightarrow> nat \<Rightarrow> ipv4 \<times> nat" where
  "v4_block a b c d n = (word_of_nat (((a * 256 + b) * 256 + c) * 256 + d), n)"

definition v4_blocks :: "(ipv4 \<times> nat) list" where
  "v4_blocks = [v4_block 0 0 0 0 8, v4_block 10 0 0 0 8, v4_block 100 64 0 0 10, v4_block 127 0 0 0 8,
     v4_block 169 254 0 0 16, v4_block 172 16 0 0 12, v4_block 192 0 0 0 24, v4_block 192 0 2 0 24,
     v4_block 192 168 0 0 16, v4_block 198 18 0 0 15, v4_block 198 51 100 0 24, v4_block 203 0 113 0 24,
     v4_block 224 0 0 0 4, v4_block 240 0 0 0 4]"

lemma unat_drop: "unat (drop_bit n a) = unat a div 2 ^ n" for a :: "'a::len word"
  by (subst unat_drop_bit_eq) (simp add: drop_bit_eq_div)

lemma unat_ucast_mod: "unat (ucast a :: 'b::len word) = unat a mod 2 ^ LENGTH('b)" for a :: "'a::len word"
  by (simp add: unsigned_ucast_eq unsigned_take_bit_eq take_bit_eq_mod)

lemma unat_octet: "unat (octet i a) = unat a div 2 ^ (8 * (3 - i)) mod 256"
  by (simp add: octet_def unat_ucast_mod unat_drop del: drop_bit_eq_div)

lemma unat_segment: "unat (segment i a) = unat a div 2 ^ (16 * (7 - i)) mod 65536"
  by (simp add: segment_def unat_ucast_mod unat_drop del: drop_bit_eq_div)

lemma in_block_unat:
  "in_block a b \<longleftrightarrow> unat a div 2 ^ (LENGTH('a) - snd b) = unat (fst b) div 2 ^ (LENGTH('a) - snd b)"
  for a :: "'a::len word"
  unfolding in_block_def word_unat_eq_iff unat_drop ..

text \<open>An address as its four octets.\<close>

lemma v4_octets:
  obtains w x y z where "unat a = ((w * 256 + x) * 256 + y) * 256 + z" "w < 256" "x < 256" "y < 256" "z < 256"
    "unat (octet 0 a) = w" "unat (octet 1 a) = x" "unat (octet 2 a) = y" "unat (octet 3 a) = z"
proof -
  let ?n = "unat a"
  have n: "?n < 2 ^ 32" using unsigned_less [of a] by simp
  show thesis
  proof (rule that)
    show "?n = (((?n div 2 ^ 24) * 256 + ?n div 2 ^ 16 mod 256) * 256 + ?n div 2 ^ 8 mod 256) * 256 + ?n mod 256"
      using div_mult_mod_eq [of ?n 256] div_mult_mod_eq [of "?n div 2 ^ 8" 256] div_mult_mod_eq [of "?n div 2 ^ 16" 256]
      by (simp add: div_mult2_eq [symmetric])
    show "?n div 2 ^ 24 < 256" using n by simp
    show "unat (octet 0 a) = ?n div 2 ^ 24" using n by (simp add: unat_octet)
  qed (simp_all add: unat_octet)
qed

lemma octet_literal: "octet i a = b \<longleftrightarrow> unat (octet i a) = unat b"
  by (rule word_unat_eq_iff)

definition private_v4_number :: "nat \<Rightarrow> nat \<Rightarrow> nat \<Rightarrow> nat \<Rightarrow> bool" where
  "private_v4_number w x y z \<longleftrightarrow> w = 0 \<or> w = 10 \<or> (w = 172 \<and> 16 \<le> x \<and> x \<le> 31) \<or> (w = 192 \<and> x = 168)
     \<or> (w = 100 \<and> 64 \<le> x \<and> x \<le> 127) \<or> w = 127 \<or> (w = 169 \<and> x = 254)
     \<or> (w = 192 \<and> x = 0 \<and> y = 0 \<and> z \<noteq> 9 \<and> z \<noteq> 10)
     \<or> (w = 192 \<and> x = 0 \<and> y = 2) \<or> (w = 198 \<and> x = 51 \<and> y = 100) \<or> (w = 203 \<and> x = 0 \<and> y = 113)
     \<or> (w = 198 \<and> (x = 18 \<or> x = 19)) \<or> 240 \<le> w \<or> (224 \<le> w \<and> w \<le> 239)"

lemma global_v4_number:
  "\<not> is_global_v4 a \<longleftrightarrow> private_v4_number (unat (octet 0 a)) (unat (octet 1 a)) (unat (octet 2 a)) (unat (octet 3 a))"
proof -
  have u: "unat (0 :: u8) = 0" "unat (2 :: u8) = 2" "unat (9 :: u8) = 9" "unat (10 :: u8) = 10" "unat (16 :: u8) = 16" "unat (18 :: u8) = 18" "unat (19 :: u8) = 19" "unat (31 :: u8) = 31" "unat (51 :: u8) = 51" "unat (64 :: u8) = 64" "unat (100 :: u8) = 100" "unat (113 :: u8) = 113" "unat (127 :: u8) = 127" "unat (168 :: u8) = 168" "unat (169 :: u8) = 169" "unat (172 :: u8) = 172" "unat (192 :: u8) = 192" "unat (198 :: u8) = 198" "unat (203 :: u8) = 203" "unat (224 :: u8) = 224" "unat (239 :: u8) = 239" "unat (240 :: u8) = 240" "unat (254 :: u8) = 254"
    by simp_all
  show ?thesis
    unfolding is_global_v4_def v4_is_private_def v4_is_documentation_def v4_is_multicast_def private_v4_number_def
      octet_literal word_le_nat_alt u
    by (simp only: not_not disj_assoc conj_assoc)
qed

lemma block_number:
  assumes "n \<le> 32" "a < 256" "b < 256" "c < 256" "d < 256"
  shows "in_block v (v4_block a b c d n) \<longleftrightarrow>
    unat v div 2 ^ (32 - n) = (((a * 256 + b) * 256 + c) * 256 + d) div 2 ^ (32 - n)"
proof -
  have m: "((a * 256 + b) * 256 + c) * 256 + d < 2 ^ 32" (is "?m < _") using assms by simp
  have "unat (word_of_nat ?m :: ipv4) = ?m"
    unfolding unat_of_nat using m by simp
  then show ?thesis unfolding in_block_unat v4_block_def fst_conv snd_conv by (simp only: len_num0 len_num1 len_bit0 len_bit1) simp
qed

lemma prefix_div:
  assumes "(n :: nat) = ((w * 256 + x) * 256 + y) * 256 + z" "w < 256" "x < 256" "y < 256" "z < 256"
  shows "n div 268435456 = w div 16" "n div 16777216 = w" "n div 4194304 = w * 4 + x div 64" "n div 1048576 = w * 16 + x div 16"
    "n div 131072 = w * 128 + x div 2" "n div 65536 = w * 256 + x" "n div 256 = (w * 256 + x) * 256 + y"
proof -
  show 8: "n div 256 = (w * 256 + x) * 256 + y" using assms by simp
  have "n div 65536 = n div 256 div 256" by (simp add: div_mult2_eq [symmetric])
  then show 16: "n div 65536 = w * 256 + x" unfolding 8 using assms by simp
  have "n div 16777216 = n div 65536 div 256" by (simp add: div_mult2_eq [symmetric])
  then show 24: "n div 16777216 = w" unfolding 16 using assms by simp
  have "n div 268435456 = n div 16777216 div 16" by (simp add: div_mult2_eq [symmetric])
  then show "n div 268435456 = w div 16" unfolding 24 .
  have "n div 4194304 = n div 65536 div 64" by (simp add: div_mult2_eq [symmetric])
  then show "n div 4194304 = w * 4 + x div 64" unfolding 16 by simp
  have "n div 1048576 = n div 65536 div 16" by (simp add: div_mult2_eq [symmetric])
  then show "n div 1048576 = w * 16 + x div 16" unfolding 16 by simp
  have "n div 131072 = n div 65536 div 2" by (simp add: div_mult2_eq [symmetric])
  then show "n div 131072 = w * 128 + x div 2" unfolding 16 by simp
qed

lemma digit_eq: "x < m \<Longrightarrow> y < m \<Longrightarrow> w * m + x = k * m + y \<longleftrightarrow> w = k \<and> x = y" for m :: nat
  by (metis div_mult_self3 div_less add_0 mod_mult_self3 mod_less add.commute mult.commute bot_nat_0.not_eq_extremum not_less_zero)

lemma block_prefix:
  assumes n: "unat a = ((w * 256 + x) * 256 + y) * 256 + z" and b: "w < 256" "x < 256" "y < 256" "z < 256"
    and c: "p < 256" "q < 256" "r < 256" "s < 256"
  shows "in_block a (v4_block p q r s 4) \<longleftrightarrow> w div 16 = p div 16"
    "in_block a (v4_block p q r s 8) \<longleftrightarrow> w = p"
    "in_block a (v4_block p q r s 10) \<longleftrightarrow> w = p \<and> x div 64 = q div 64"
    "in_block a (v4_block p q r s 12) \<longleftrightarrow> w = p \<and> x div 16 = q div 16"
    "in_block a (v4_block p q r s 15) \<longleftrightarrow> w = p \<and> x div 2 = q div 2"
    "in_block a (v4_block p q r s 16) \<longleftrightarrow> w = p \<and> x = q"
    "in_block a (v4_block p q r s 24) \<longleftrightarrow> w = p \<and> x = q \<and> y = r"
proof -
  define M where "M = ((p * 256 + q) * 256 + r) * 256 + s"
  note d = prefix_div [OF n b] prefix_div [OF M_def c]
  have k: "x div 64 < 4" "q div 64 < 4" "x div 16 < 16" "q div 16 < 16" "x div 2 < 128" "q div 2 < 128"
    using b c by simp_all
  note e = digit_eq [OF k(1,2)] digit_eq [OF k(3,4)] digit_eq [OF k(5,6)] digit_eq [OF b(2) c(2)] digit_eq [OF b(3) c(3)]
  have N: "in_block a (v4_block p q r s n) \<longleftrightarrow> unat a div 2 ^ (32 - n) = M div 2 ^ (32 - n)"
    if "n \<le> 32" for n unfolding M_def by (rule block_number [OF that c])
  show "in_block a (v4_block p q r s 4) \<longleftrightarrow> w div 16 = p div 16" by (simp add: N d e)
  show "in_block a (v4_block p q r s 8) \<longleftrightarrow> w = p" by (simp add: N d e)
  show "in_block a (v4_block p q r s 10) \<longleftrightarrow> w = p \<and> x div 64 = q div 64" by (simp add: N d e)
  show "in_block a (v4_block p q r s 12) \<longleftrightarrow> w = p \<and> x div 16 = q div 16" by (simp add: N d e)
  show "in_block a (v4_block p q r s 15) \<longleftrightarrow> w = p \<and> x div 2 = q div 2" by (simp add: N d e)
  show "in_block a (v4_block p q r s 16) \<longleftrightarrow> w = p \<and> x = q" by (simp add: N d e)
  show "in_block a (v4_block p q r s 24) \<longleftrightarrow> w = p \<and> x = q \<and> y = r"
    unfolding N [of 24, simplified] d e by simp
qed


text \<open>The patterns of the code against the blocks of the registry.\<close>

lemma blocks_number:
  assumes n: "unat a = ((w * 256 + x) * 256 + y) * 256 + z" and b: "w < 256" "x < 256" "y < 256" "z < 256"
  shows "list_ex (in_block a) v4_blocks \<longleftrightarrow> private_v4_number w x y z \<or> (w = 192 \<and> x = 0 \<and> y = 0 \<and> (z = 9 \<or> z = 10))"
proof -
  have "x div 64 = 1 \<longleftrightarrow> 64 \<le> x \<and> x \<le> 127" "x div 16 = 1 \<longleftrightarrow> 16 \<le> x \<and> x \<le> 31" "x div 2 = 9 \<longleftrightarrow> x = 18 \<or> x = 19"
    "w div 16 = 14 \<longleftrightarrow> 224 \<le> w \<and> w \<le> 239" "w div 16 = 15 \<longleftrightarrow> 240 \<le> w" using b by arith+
  then show ?thesis
    unfolding v4_blocks_def private_v4_number_def by (simp add: block_prefix [OF n b]) argo
qed

subsection \<open>Segments and IPv6 blocks\<close>

definition segments_value :: "nat list \<Rightarrow> nat" where
  "segments_value = foldl (\<lambda>n d. n * 65536 + d) 0"

definition segs_ok :: "nat list \<Rightarrow> bool" where
  "segs_ok ds \<longleftrightarrow> list_all (\<lambda>d. d < 65536) ds"

lemma segments_value_snoc [simp]: "segments_value (xs @ [d]) = segments_value xs * 65536 + d"
  by (simp add: segments_value_def)

lemma segments_value_Nil [simp]: "segments_value [] = 0"
  by (simp add: segments_value_def)

lemma segs_ok_append [simp]: "segs_ok (xs @ ys) \<longleftrightarrow> segs_ok xs \<and> segs_ok ys" "segs_ok []" "segs_ok [d] \<longleftrightarrow> d < 65536"
  by (simp_all add: segs_ok_def)

lemma segments_value_append: "segments_value (xs @ ys) = segments_value xs * 65536 ^ length ys + segments_value ys"
  by (induction ys rule: rev_induct) (simp_all add: append_assoc [symmetric] algebra_simps del: append_assoc)

lemma segments_value_less: "segs_ok ys \<Longrightarrow> segments_value ys < 65536 ^ length ys"
  by (induction ys rule: rev_induct) simp_all

lemma segments_value_eq:
  "segs_ok xs \<Longrightarrow> segs_ok ys \<Longrightarrow> length xs = length ys \<Longrightarrow> segments_value xs = segments_value ys \<longleftrightarrow> xs = ys"
proof (induction xs arbitrary: ys rule: rev_induct)
  case (snoc d xs)
  then obtain zs e where ys: "ys = zs @ [e]" by (cases ys rule: rev_cases) auto
  with snoc digit_eq [of d 65536 e "segments_value xs" "segments_value zs"] show ?case by auto
qed simp

lemma segments_prefix:
  assumes "segs_ok (xs @ d # ys)" "r \<le> 16"
  shows "segments_value (xs @ d # ys) div (2 ^ (16 - r) * 65536 ^ length ys) = segments_value xs * 2 ^ r + d div 2 ^ (16 - r)"
proof -
  have ys: "segs_ok ys" using assms(1) by (simp add: segs_ok_def)
  have "segments_value (xs @ d # ys) div 65536 ^ length ys = segments_value xs * 65536 + d"
    using segments_value_append [of "xs @ [d]" ys] segments_value_less [OF ys] by simp
  moreover have "(65536 :: nat) = 2 ^ r * 2 ^ (16 - r)" using assms(2) by (simp add: power_add [symmetric])
  ultimately have "segments_value (xs @ d # ys) div 65536 ^ length ys div 2 ^ (16 - r)
      = (segments_value xs * 2 ^ r * 2 ^ (16 - r) + d) div 2 ^ (16 - r)" by (simp add: mult.assoc)
  then show ?thesis by (simp add: div_mult2_eq [symmetric] mult.commute)
qed

definition v6_block :: "nat list \<Rightarrow> nat \<Rightarrow> ipv6 \<times> nat" where
  "v6_block ds n = (word_of_nat (segments_value (ds @ replicate (8 - length ds) 0)), n)"

lemma v6_segments: "unat a = segments_value (map (\<lambda>i. unat (segment i a)) [0..<8])"
proof -
  define d where "d k = unat a div 2 ^ (16 * k)" for k
  have n: "unat a < 2 ^ 128" using unsigned_less [of a] by simp
  have seg: "unat (segment i a) = d (7 - i) mod 65536" for i by (simp add: unat_segment d_def)
  have step: "d k = d (Suc k) * 65536 + d k mod 65536" for k
  proof -
    have "(2 :: nat) ^ (16 * Suc k) = 2 ^ (16 * k) * 65536" by (simp add: power_add)
    then have "d (Suc k) = d k div 65536" unfolding d_def by (simp only: div_mult2_eq)
    then show ?thesis by simp
  qed
  have top: "d 7 mod 65536 = d 7" using n by (simp add: d_def less_mult_imp_div_less)
  have "segments_value (map (\<lambda>i. unat (segment i a)) [0..<8]) =
    ((((((d 7 * 65536 + d 6 mod 65536) * 65536 + d 5 mod 65536) * 65536 + d 4 mod 65536) * 65536 + d 3 mod 65536) * 65536
      + d 2 mod 65536) * 65536 + d 1 mod 65536) * 65536 + d 0 mod 65536"
    by (simp add: upt_rec segments_value_def seg top)
  also have "\<dots> = d 0"
  proof -
    have "d (Suc 0) * 65536 + d 0 mod 65536 = d 0" "d (Suc 1) * 65536 + d 1 mod 65536 = d 1"
      "d (Suc 2) * 65536 + d 2 mod 65536 = d 2" "d (Suc 3) * 65536 + d 3 mod 65536 = d 3"
      "d (Suc 4) * 65536 + d 4 mod 65536 = d 4" "d (Suc 5) * 65536 + d 5 mod 65536 = d 5"
      "d (Suc 6) * 65536 + d 6 mod 65536 = d 6" by (rule step [symmetric])+
    note s = this [simplified Suc_1 Suc_numeral One_nat_def [symmetric] add_num_simps]
    show ?thesis by (simp only: s)
  qed
  finally show ?thesis by (simp add: d_def)
qed

lemma in_v6_block:
  assumes es: "segs_ok es" "length es = Suc k" "k < 8" and r: "0 < r" "r \<le> 16"
  shows "in_block a (v6_block es (16 * k + r)) \<longleftrightarrow>
    map (\<lambda>i. unat (segment i a)) [0..<k] = take k es \<and> unat (segment k a) div 2 ^ (16 - r) = es ! k div 2 ^ (16 - r)"
proof -
  define ds where "ds = map (\<lambda>i. unat (segment i a)) [0..<8]"
  have ds: "segs_ok ds" "length ds = 8"
    using unsigned_less [of "segment _ a"] by (auto simp: ds_def segs_ok_def list_all_iff)
  define fs where "fs = es @ replicate (8 - length es) 0"
  have fs: "segs_ok fs" "length fs = 8" using es by (auto simp: fs_def segs_ok_def list_all_iff)
  have "segments_value fs < 2 ^ 128" using segments_value_less [OF fs(1)] fs(2) by simp
  then have u: "unat (fst (v6_block es (16 * k + r))) = segments_value fs"
    by (simp add: v6_block_def fs_def [symmetric] unat_of_nat)
  have split: "xs = take k xs @ xs ! k # drop (Suc k) xs" if "length xs = 8" for xs :: "nat list"
    using that es(3) by (simp add: id_take_nth_drop)
  have val: "segments_value xs div 2 ^ (128 - (16 * k + r)) = segments_value (take k xs) * 2 ^ r + xs ! k div 2 ^ (16 - r)"
    if "segs_ok xs" "length xs = 8" for xs
  proof -
    have "(2::nat) ^ (128 - (16 * k + r)) = 2 ^ (16 - r) * 65536 ^ (8 - Suc k)"
    proof -
      have "(65536::nat) ^ (8 - Suc k) = 2 ^ (16 * (8 - Suc k))" by (simp add: power_mult)
      moreover have "16 - r + 16 * (8 - Suc k) = 128 - (16 * k + r)" using es(3) r by simp
      ultimately show ?thesis by (simp add: power_add [symmetric])
    qed
    with segments_prefix [of "take k xs" "xs ! k" "drop (Suc k) xs" r] split [OF that(2)] that r es(3) show ?thesis
      by simp
  qed
  have q: "x div 2 ^ (16 - r) < 2 ^ r" if "x < 65536" for x :: nat
  proof -
    have "(65536::nat) = 2 ^ (16 - r) * 2 ^ r" using r by (simp add: power_add [symmetric])
    with that show ?thesis by (simp add: less_mult_imp_div_less mult.commute)
  qed
  have nth: "xs ! k < 65536" if "segs_ok xs" "length xs = 8" for xs using that es(3) by (simp add: segs_ok_def list_all_length)
  have "in_block a (v6_block es (16 * k + r)) \<longleftrightarrow>
      segments_value ds div 2 ^ (128 - (16 * k + r)) = segments_value fs div 2 ^ (128 - (16 * k + r))"
    using u v6_segments [of a] by (simp add: in_block_unat ds_def v6_block_def)
  also have "\<dots> \<longleftrightarrow> segments_value (take k ds) = segments_value (take k fs) \<and> ds ! k div 2 ^ (16 - r) = fs ! k div 2 ^ (16 - r)"
    unfolding val [OF ds] val [OF fs] by (rule digit_eq [OF q [OF nth [OF ds]] q [OF nth [OF fs]]])
  also have "segments_value (take k ds) = segments_value (take k fs) \<longleftrightarrow> take k ds = take k fs"
    using ds fs by (intro segments_value_eq) (auto simp: segs_ok_def list_all_iff dest: in_set_takeD)
  finally show ?thesis using es by (simp add: ds_def fs_def take_map nth_append)
qed


definition v6_blocks :: "(ipv6 \<times> nat) list" where
  "v6_blocks = [v6_block [0x64, 0xff9b, 1] 48, v6_block [0x100, 0, 0, 0] 64, v6_block [0x2001, 0] 23,
     v6_block [0x2001, 0xdb8] 32, v6_block [0x3fff, 0] 20, v6_block [0x5f00] 16, v6_block [0xfc00] 7,
     v6_block [0xfe80] 10, v6_block [0xfec0] 10, v6_block [0xff00] 8]"

definition v6_excepted :: "(ipv6 \<times> nat) list" where
  "v6_excepted = [v6_block [0x2001, 1, 0, 0, 0, 0, 0, 1] 128, v6_block [0x2001, 1, 0, 0, 0, 0, 0, 2] 128,
     v6_block [0x2001, 3] 32, v6_block [0x2001, 4, 0x112] 48, v6_block [0x2001, 0x20] 27]"

lemma and_top: "and w (not (mask n)) = push_bit n (drop_bit n w)" for w :: "'a::len word"
  by (rule bit_eqI) (auto simp: bit_simps)

lemma drop_push_drop: "drop_bit n (push_bit n (drop_bit n w)) = drop_bit n w" for w :: "'a::len word"
  by (rule bit_eqI) (auto simp: bit_simps dest: bit_imp_le_length)

lemma and_top_eq: "and w (not (mask n)) = y \<longleftrightarrow> drop_bit n w = drop_bit n y" if "push_bit n (drop_bit n y) = y"
  for w :: "'a::len word"
proof
  assume "and w (not (mask n)) = y"
  then have "drop_bit n (push_bit n (drop_bit n w)) = drop_bit n y" by (simp add: and_top)
  then show "drop_bit n w = drop_bit n y" by (simp add: drop_push_drop)
next
  assume "drop_bit n w = drop_bit n y"
  with that show "and w (not (mask n)) = y" by (simp add: and_top)
qed

lemma and_prefix:
  fixes w :: u16
  shows "and w 0xfe00 = 0xfc00 \<longleftrightarrow> unat w div 2 ^ 9 = 0x7e" "and w 0xffc0 = 0xfe80 \<longleftrightarrow> unat w div 2 ^ 6 = 0x3fa"
    "and w 0xffc0 = 0xfec0 \<longleftrightarrow> unat w div 2 ^ 6 = 0x3fb" "and w 0xff00 = 0xff00 \<longleftrightarrow> unat w div 2 ^ 8 = 0xff"
proof -
  have m: "(0xfe00 :: u16) = not (mask 9)" "(0xffc0 :: u16) = not (mask 6)" "(0xff00 :: u16) = not (mask 8)"
    by (simp_all add: mask_eq_exp_minus_1)
  have d: "drop_bit n w = v \<longleftrightarrow> unat w div 2 ^ n = unat v" for n v
    by (simp only: word_unat_eq_iff unat_drop)
  show "and w 0xfe00 = 0xfc00 \<longleftrightarrow> unat w div 2 ^ 9 = 0x7e" unfolding m(1)
    by (subst and_top_eq) (simp_all add: d del: drop_bit_eq_div)
  show "and w 0xffc0 = 0xfe80 \<longleftrightarrow> unat w div 2 ^ 6 = 0x3fa" unfolding m(2)
    by (subst and_top_eq) (simp_all add: d del: drop_bit_eq_div)
  show "and w 0xffc0 = 0xfec0 \<longleftrightarrow> unat w div 2 ^ 6 = 0x3fb" unfolding m(2)
    by (subst and_top_eq) (simp_all add: d del: drop_bit_eq_div)
  show "and w 0xff00 = 0xff00 \<longleftrightarrow> unat w div 2 ^ 8 = 0xff" 
    using and_top_eq [of 8 "0xff00" w] by (simp add: d m(3) [symmetric] del: drop_bit_eq_div)
qed


lemma segment_literal: "segment i a = b \<longleftrightarrow> unat (segment i a) = unat b"
  by (rule word_unat_eq_iff)

lemma anycast_block:
  "a = 0x20010001000000000000000000000001 \<longleftrightarrow> in_block a (v6_block [0x2001, 1, 0, 0, 0, 0, 0, 1] 128)"
  "a = 0x20010001000000000000000000000002 \<longleftrightarrow> in_block a (v6_block [0x2001, 1, 0, 0, 0, 0, 0, 2] 128)"
  by (simp_all add: in_block_def v6_block_def segments_value_def)

lemma list_ex_rules: "list_ex P [] \<longleftrightarrow> False" "list_ex P (x # xs) \<longleftrightarrow> P x \<or> list_ex P xs"
  by simp_all

lemma v6_special_blocks:
  "v6_special a \<longleftrightarrow> list_ex (in_block a) v6_blocks \<and> \<not> list_ex (in_block a) v6_excepted"
proof -
  define s0 s1 s2 s3 where "s0 = unat (segment 0 a)" and "s1 = unat (segment (Suc 0) a)" and "s2 = unat (segment (Suc (Suc 0)) a)"
    and "s3 = unat (segment 3 a)"
  note d = s0_def [symmetric] s1_def [symmetric] s2_def [symmetric] s2_def [symmetric, folded numeral_2_eq_2] s3_def [symmetric]
  have q: "x div 512 = 0 \<longleftrightarrow> x < 0x200" "x div 4096 = 0 \<longleftrightarrow> x \<le> 0xfff" "x div 32 = 1 \<longleftrightarrow> 0x20 \<le> x \<and> x \<le> 0x3f" for x :: nat
    by arith+
  have b0: "in_block a (v6_block [0x64, 0xff9b, 1] 48) \<longleftrightarrow> s0 = 0x64 \<and> s1 = 0xff9b \<and> s2 = 1"
    using in_v6_block [of "[0x64, 0xff9b, 1]" 2 16 a] by (simp add: segs_ok_def upt_rec d q)
  have b1: "in_block a (v6_block [0x100, 0, 0, 0] 64) \<longleftrightarrow> s0 = 0x100 \<and> s1 = 0 \<and> s2 = 0 \<and> s3 = 0"
    using in_v6_block [of "[0x100, 0, 0, 0]" 3 16 a] by (simp add: segs_ok_def upt_rec numeral_2_eq_2 d)
  have b2: "in_block a (v6_block [0x2001, 0] 23) \<longleftrightarrow> s0 = 0x2001 \<and> s1 < 0x200"
    using in_v6_block [of "[0x2001, 0]" 1 7 a] by (simp add: segs_ok_def upt_rec d q)
  have b3: "in_block a (v6_block [0x2001, 0xdb8] 32) \<longleftrightarrow> s0 = 0x2001 \<and> s1 = 0xdb8"
    using in_v6_block [of "[0x2001, 0xdb8]" 1 16 a] by (simp add: segs_ok_def upt_rec d q)
  have b4: "in_block a (v6_block [0x3fff, 0] 20) \<longleftrightarrow> s0 = 0x3fff \<and> s1 \<le> 0xfff"
    using in_v6_block [of "[0x3fff, 0]" 1 4 a] by (simp add: segs_ok_def upt_rec d q)
  have b5: "in_block a (v6_block [0x5f00] 16) \<longleftrightarrow> s0 = 0x5f00"
    using in_v6_block [of "[0x5f00]" 0 16 a] by (simp add: segs_ok_def upt_rec d q)
  have b6: "in_block a (v6_block [0xfc00] 7) \<longleftrightarrow> s0 div 2 ^ 9 = 0x7e"
    using in_v6_block [of "[0xfc00]" 0 7 a] by (simp add: segs_ok_def upt_rec d q)
  have b7: "in_block a (v6_block [0xfe80] 10) \<longleftrightarrow> s0 div 2 ^ 6 = 0x3fa"
    using in_v6_block [of "[0xfe80]" 0 10 a] by (simp add: segs_ok_def upt_rec d q)
  have b8: "in_block a (v6_block [0xfec0] 10) \<longleftrightarrow> s0 div 2 ^ 6 = 0x3fb"
    using in_v6_block [of "[0xfec0]" 0 10 a] by (simp add: segs_ok_def upt_rec d q)
  have b9: "in_block a (v6_block [0xff00] 8) \<longleftrightarrow> s0 div 2 ^ 8 = 0xff"
    using in_v6_block [of "[0xff00]" 0 8 a] by (simp add: segs_ok_def upt_rec d q)
  have b10: "in_block a (v6_block [0x2001, 3] 32) \<longleftrightarrow> s0 = 0x2001 \<and> s1 = 3"
    using in_v6_block [of "[0x2001, 3]" 1 16 a] by (simp add: segs_ok_def upt_rec d q)
  have b11: "in_block a (v6_block [0x2001, 4, 0x112] 48) \<longleftrightarrow> s0 = 0x2001 \<and> s1 = 4 \<and> s2 = 0x112"
    using in_v6_block [of "[0x2001, 4, 0x112]" 2 16 a] by (simp add: segs_ok_def upt_rec d q)
  have b12: "in_block a (v6_block [0x2001, 0x20] 27) \<longleftrightarrow> s0 = 0x2001 \<and> 0x20 \<le> s1 \<and> s1 \<le> 0x3f"
    using in_v6_block [of "[0x2001, 0x20]" 1 11 a] q(3) [of s1] by (simp add: segs_ok_def upt_rec d)
  have b13: "in_block a (v6_block [0x2001, 1, 0, 0, 0, 0, 0, 1] 128) \<longrightarrow> s0 = 0x2001 \<and> s1 = 1"
    using in_v6_block [of "[0x2001, 1, 0, 0, 0, 0, 0, 1]" 7 16 a] by (simp add: segs_ok_def upt_rec d)
  have b14: "in_block a (v6_block [0x2001, 1, 0, 0, 0, 0, 0, 2] 128) \<longrightarrow> s0 = 0x2001 \<and> s1 = 1"
    using in_v6_block [of "[0x2001, 1, 0, 0, 0, 0, 0, 2]" 7 16 a] by (simp add: segs_ok_def upt_rec d)
  have w: "segment 1 a = y \<longleftrightarrow> s1 = unat y" "segment 0 a = y \<longleftrightarrow> s0 = unat y" "segment 2 a = y \<longleftrightarrow> s2 = unat y"
    "segment 3 a = y \<longleftrightarrow> s3 = unat y" for y
    by (simp_all add: word_unat_eq_iff s0_def s1_def s2_def s3_def numeral_2_eq_2)
  have l: "segment 1 a < y \<longleftrightarrow> s1 < unat y" "y \<le> segment 1 a \<longleftrightarrow> unat y \<le> s1" "segment 1 a \<le> y \<longleftrightarrow> s1 \<le> unat y" for y
    by (simp_all add: word_less_nat_alt word_le_nat_alt s1_def)
  have p: "and (segment 0 a) 0xfe00 = 0xfc00 \<longleftrightarrow> s0 div 2 ^ 9 = 0x7e" "and (segment 0 a) 0xffc0 = 0xfe80 \<longleftrightarrow> s0 div 2 ^ 6 = 0x3fa"
    "and (segment 0 a) 0xffc0 = 0xfec0 \<longleftrightarrow> s0 div 2 ^ 6 = 0x3fb" "and (segment 0 a) 0xff00 = 0xff00 \<longleftrightarrow> s0 div 2 ^ 8 = 0xff"
    by (simp_all only: and_prefix s0_def)
  define e1 e2 where "e1 \<longleftrightarrow> a = 0x20010001000000000000000000000001" and "e2 \<longleftrightarrow> a = 0x20010001000000000000000000000002"
  note e = e1_def [symmetric] e2_def [symmetric]
  have v: "v6_special a \<longleftrightarrow> (s0 = 0x64 \<and> s1 = 0xff9b \<and> s2 = 1) \<or> (s0 = 0x100 \<and> s1 = 0 \<and> s2 = 0 \<and> s3 = 0)
     \<or> ((s0 = 0x2001 \<and> s1 < 0x200) \<and> \<not> (e1 \<or> e2 \<or> (s0 = 0x2001 \<and> s1 = 3) \<or> (s0 = 0x2001 \<and> s1 = 4 \<and> s2 = 0x112)
           \<or> (s0 = 0x2001 \<and> 0x20 \<le> s1 \<and> s1 \<le> 0x3f)))
     \<or> (s0 = 0x2001 \<and> s1 = 0xdb8) \<or> (s0 = 0x3fff \<and> s1 \<le> 0xfff) \<or> s0 = 0x5f00
     \<or> s0 div 2 ^ 9 = 0x7e \<or> s0 div 2 ^ 6 = 0x3fa \<or> s0 div 2 ^ 6 = 0x3fb \<or> s0 div 2 ^ 8 = 0xff"
    unfolding v6_special_def e p w l by simp
  have c: "list_ex (in_block a) v6_blocks \<longleftrightarrow> (s0 = 0x64 \<and> s1 = 0xff9b \<and> s2 = 1) \<or> (s0 = 0x100 \<and> s1 = 0 \<and> s2 = 0 \<and> s3 = 0)
     \<or> (s0 = 0x2001 \<and> s1 < 0x200) \<or> (s0 = 0x2001 \<and> s1 = 0xdb8) \<or> (s0 = 0x3fff \<and> s1 \<le> 0xfff) \<or> s0 = 0x5f00
     \<or> s0 div 2 ^ 9 = 0x7e \<or> s0 div 2 ^ 6 = 0x3fa \<or> s0 div 2 ^ 6 = 0x3fb \<or> s0 div 2 ^ 8 = 0xff"
    by (simp only: v6_blocks_def list_ex_rules b0 b1 b2 b3 b4 b5 b6 b7 b8 b9 simp_thms)
  have x: "list_ex (in_block a) v6_excepted \<longleftrightarrow> e1 \<or> e2 \<or> (s0 = 0x2001 \<and> s1 = 3) \<or> (s0 = 0x2001 \<and> s1 = 4 \<and> s2 = 0x112)
     \<or> (s0 = 0x2001 \<and> 0x20 \<le> s1 \<and> s1 \<le> 0x3f)"
    by (simp only: v6_excepted_def list_ex_rules b10 b11 b12 anycast_block [symmetric] e simp_thms)
  have "e1 \<Longrightarrow> s0 = 0x2001 \<and> s1 = 1" "e2 \<Longrightarrow> s0 = 0x2001 \<and> s1 = 1"
    using b13 b14 by (simp_all only: e1_def e2_def anycast_block simp_thms)
  then show ?thesis unfolding v c x by (cases "s0 = 0x2001") auto
qed

text \<open>The two anycast addresses of \<open>192.0.0.0/24\<close> that the registry marks globally reachable.\<close>

definition v4_excepted :: "(ipv4 \<times> nat) list" where
  "v4_excepted = [v4_block 192 0 0 9 32, v4_block 192 0 0 10 32]"

lemma private_v4_blocks:
  "\<not> is_global_v4 a \<longleftrightarrow> list_ex (in_block a) v4_blocks \<and> \<not> list_ex (in_block a) v4_excepted"
proof -
  obtain w x y z where n: "unat a = ((w * 256 + x) * 256 + y) * 256 + z" and b: "w < 256" "x < 256" "y < 256" "z < 256"
    and o: "unat (octet 0 a) = w" "unat (octet 1 a) = x" "unat (octet 2 a) = y" "unat (octet 3 a) = z"
    by (rule v4_octets)
  have host: "in_block a (v4_block 192 0 0 d 32) \<longleftrightarrow> w = 192 \<and> x = 0 \<and> y = 0 \<and> z = d" if "d < 256" for d
  proof -
    have z: "0 < (256::nat)" by simp
    have "in_block a (v4_block 192 0 0 d 32) \<longleftrightarrow>
        unat a div 2 ^ (32 - 32) = (((192 * 256 + 0) * 256 + 0) * 256 + d) div 2 ^ (32 - 32)"
      by (rule block_number) (simp_all add: that)
    also have "\<dots> \<longleftrightarrow> w = 192 \<and> x = 0 \<and> y = 0 \<and> z = d"
      by (simp only: n diff_self_eq_0 power_0 div_by_1 digit_eq [OF b(4) that] digit_eq [OF b(3) z] digit_eq [OF b(2) z] conj_assoc)
    finally show ?thesis .
  qed
  have e: "list_ex (in_block a) v4_excepted \<longleftrightarrow> w = 192 \<and> x = 0 \<and> y = 0 \<and> (z = 9 \<or> z = 10)"
    by (auto simp: v4_excepted_def host)
  have "\<not> private_v4_number 192 0 0 9" "\<not> private_v4_number 192 0 0 10" by (simp_all add: private_v4_number_def)
  then show ?thesis unfolding global_v4_number o blocks_number [OF n b] e by metis
qed

subsection \<open>The rule\<close>


end
