(* ===== verification/Crawl_Delay.thy ===== *)
theory Crawl_Delay
  imports CM_Prelude
begin

section \<open>Crawl delay\<close>

text \<open>
  \<open>crates/commonmeasure-harness/src/crawl_delay.rs\<close>: the store of last request times under
  \<open><home>/crawl-delay/\<close> and the turns requests take in it. A file of the store is what a reader
  finds in it: a turn, a back-off record, text that is neither, or a file that does not open. An
  instant (\<open>DateTime<Utc>\<close>) is its nanoseconds since the epoch, with \<open>ce_max\<close> the latest
  that \<open>chrono\<close> represents; a duration is its nanoseconds. Every operation takes what the file
  system and the lock do to it (\<open>store_io\<close>). The lemmas show that a turn is written or refused
  exactly as the delay, the budget and the record say.
\<close>

type_synonym instant = int
type_synonym duration = nat

definition from_millis :: "nat \<Rightarrow> duration" where
  "from_millis n = n * 1000000"

definition from_secs :: "nat \<Rightarrow> duration" where
  "from_secs n = n * 1000000000"

definition millis :: "duration \<Rightarrow> u64" where
  "millis d = (if d div 1000000 < 2 ^ 64 then of_nat (d div 1000000) else max_value)"

definition max_crawl_delay :: duration where
  "max_crawl_delay = from_secs 60"

definition wait_budget_own :: duration where
  "wait_budget_own = max_crawl_delay"

definition hosted_wait_budget :: duration where
  "hosted_wait_budget = from_secs 20"

definition call_ceiling_own :: duration where
  "call_ceiling_own = from_secs 240"

definition hosted_call_ceiling :: duration where
  "hosted_call_ceiling = from_secs 50"

datatype pace = Own | Hosted

fun wait_budget :: "pace \<Rightarrow> duration" where
  "wait_budget Own = wait_budget_own"
| "wait_budget Hosted = hosted_wait_budget"

fun call_ceiling :: "pace \<Rightarrow> duration" where
  "call_ceiling Own = call_ceiling_own"
| "call_ceiling Hosted = hosted_call_ceiling"

fun names_the_edge :: "pace \<Rightarrow> bool" where
  "names_the_edge Own \<longleftrightarrow> True"
| "names_the_edge Hosted \<longleftrightarrow> False"

subsection \<open>The store\<close>

record send_reservation =
  rs_id :: uuid
  rs_failure_until :: instant

record backoff =
  bo_failures :: u32
  bo_status :: u16
  bo_until :: instant
  bo_retry_after :: bool
  bo_capped :: bool
  bo_http_date :: "instant option"
  bo_reservation :: "send_reservation option"

datatype store_file =
    Turn_record string instant
  | Backoff_record backoff
  | Unparsed
  | Unopened

text \<open>\<open>cs_swept\<close> is the process's \<open>SWEPT\<close>: the records whose interrupted writes it has cleared.\<close>

record crawl_store =
  cs_files :: "string \<Rightarrow> store_file option"
  cs_swept :: "string set"

record crawl_env =
  ce_sha256_hex :: "string \<Rightarrow> string"
  ce_max :: instant

text \<open>
  \<open>Busy\<close>, \<open>Lock_file\<close> and \<open>Lock_failed\<close> are the three refusals of
  \<open>declaration::lock\<close>. \<open>io_replace\<close> is the failure of \<open>declaration::replace\<close>, with
  whether the rename had taken place when it failed (its last step flushes the directory).
\<close>

datatype lock_refused = Lock_busy | Lock_file | Lock_failed

record store_io =
  io_create_fails :: bool
  io_lock :: "lock_refused option"
  io_replace :: "bool option"
  io_sweep_now :: instant
  io_removes :: bool

definition max_name :: nat where "max_name = 64"
definition kept_name :: nat where "kept_name = 40"

definition file_name :: "crawl_env \<Rightarrow> string \<Rightarrow> string" where
  "file_name env host =
     (let folded = map (\<lambda>c. if is_ascii_alphanumeric c \<or> c = CHR ''.'' \<or> c = CHR ''-'' then c else CHR ''_'') host
      in if length folded \<le> max_name then folded
         else take kept_name folded @ ''-'' @ ce_sha256_hex env host)"

definition path_for :: "crawl_env \<Rightarrow> string \<Rightarrow> string \<Rightarrow> string" where
  "path_for env host extension = file_name env host @ ''.'' @ extension"

definition backoff_path :: "crawl_env \<Rightarrow> string \<Rightarrow> string" where
  "backoff_path env host = path_for env host ''backoff.json''"

definition turn_path :: "crawl_env \<Rightarrow> string \<Rightarrow> string" where
  "turn_path env host = path_for env host ''json''"

text \<open>\<open>CrawlDelayStore::backoff\<close>: the error is that of a record that cannot be read.\<close>

definition read_backoff :: "crawl_env \<Rightarrow> string \<Rightarrow> crawl_store \<Rightarrow> unit + backoff option" where
  "read_backoff env host s =
     (case cs_files s (backoff_path env host) of
        Some (Backoff_record b) \<Rightarrow> Inr (Some b)
      | None \<Rightarrow> Inr None
      | Some _ \<Rightarrow> Inl ())"

definition remove_file :: "string \<Rightarrow> crawl_store \<Rightarrow> crawl_store" where
  "remove_file p s = s\<lparr>cs_files := (cs_files s)(p := None)\<rparr>"

text \<open>The temporary files themselves are not part of the state: no reader opens one.\<close>

definition clear_temporaries :: "crawl_env \<Rightarrow> store_io \<Rightarrow> string \<Rightarrow> crawl_store \<Rightarrow> crawl_store" where
  "clear_temporaries env io host s =
     (if turn_path env host \<in> cs_swept s then s
      else
        let s1 = s\<lparr>cs_swept := insert (turn_path env host) (cs_swept s)\<rparr>
        in case read_backoff env host s1 of
             Inr (Some b) \<Rightarrow>
               (if bo_failures b = 0 \<and> bo_until b \<le> io_sweep_now io \<and> io_removes io
                then remove_file (backoff_path env host) s1 else s1)
           | _ \<Rightarrow> s1)"

text \<open>\<open>declaration::replace\<close>: the file is the old one or the new one, whatever fails.\<close>

definition replace_turn_file :: "store_io \<Rightarrow> string \<Rightarrow> store_file \<Rightarrow> crawl_store \<Rightarrow> bool \<times> crawl_store" where
  "replace_turn_file io p f s =
     (let s1 = s\<lparr>cs_files := (cs_files s)(p \<mapsto> f)\<rparr>
      in case io_replace io of None \<Rightarrow> (True, s1) | Some renamed \<Rightarrow> (False, if renamed then s1 else s))"

subsection \<open>Turns\<close>

datatype delay_outcome = Clear | Waited | Refused_turn | Unavailable

datatype turn_fault = No_host | Not_created | Lock_refused lock_refused | Not_replaced

text \<open>Why a record was discarded. The instant is given where the pace names the edge.\<close>

datatype recovery = Not_a_turn | Not_opened | Beyond_horizon "instant option"

record delay_ruling =
  dr_host :: string
  dr_delay_ms :: u64
  dr_outcome :: delay_outcome
  dr_wait_ms :: "u64 option"
  dr_budget_ms :: u64
  dr_next_at :: "instant option"
  dr_unavailable :: "turn_fault option"
  dr_recovered :: "recovery option"
  dr_licence_first :: "string option"

definition sends :: "delay_ruling \<Rightarrow> bool" where
  "sends r \<longleftrightarrow> dr_outcome r = Clear \<or> dr_outcome r = Waited"

definition sleep_of :: "delay_ruling \<Rightarrow> duration" where
  "sleep_of r = (if dr_outcome r = Waited then from_millis (unat (case dr_wait_ms r of Some w \<Rightarrow> w | None \<Rightarrow> 0)) else 0)"

definition withhold_times :: "delay_ruling \<Rightarrow> delay_ruling" where
  "withhold_times r = r\<lparr>dr_wait_ms := None, dr_next_at := None\<rparr>"

definition horizon :: instant where
  "horizon = int (max_crawl_delay + wait_budget_own)"

definition checked_add_signed :: "crawl_env \<Rightarrow> instant \<Rightarrow> int \<Rightarrow> instant option" where
  "checked_add_signed env t d = (if t + d \<le> ce_max env then Some (t + d) else None)"

definition beyond_horizon :: "crawl_env \<Rightarrow> instant \<Rightarrow> instant \<Rightarrow> bool" where
  "beyond_horizon env now at' \<longleftrightarrow> (case checked_add_signed env now horizon of Some edge \<Rightarrow> edge < at' | None \<Rightarrow> False)"

definition last_request :: "crawl_env \<Rightarrow> string \<Rightarrow> instant \<Rightarrow> crawl_store \<Rightarrow> instant option \<times> recovery option" where
  "last_request env host now s =
     (case cs_files s (turn_path env host) of
        Some (Turn_record h at') \<Rightarrow> (Some at', None)
      | Some Unopened \<Rightarrow> (Some now, Some Not_opened)
      | Some _ \<Rightarrow> (Some now, Some Not_a_turn)
      | None \<Rightarrow> (None, None))"

definition wait_in_ms :: "duration \<Rightarrow> u64" where
  "wait_in_ms wait = saturating_add (millis wait) (if wait mod 1000000 = 0 then 0 else 1)"

text \<open>\<open>CrawlDelayStore::turn\<close>. The ruling is written to before a later step fails, as in the code.\<close>

definition turn ::
  "crawl_env \<Rightarrow> store_io \<Rightarrow> delay_ruling \<Rightarrow> duration \<Rightarrow> duration \<Rightarrow> instant \<Rightarrow> pace \<Rightarrow> crawl_store
   \<Rightarrow> (turn_fault option \<times> delay_ruling) \<times> crawl_store" where
  "turn env io r delay budget now pace s =
     (if dr_host r = [] then ((Some No_host, r), s)
      else if io_create_fails io then ((Some Not_created, r), s)
      else case io_lock io of Some e \<Rightarrow> ((Some (Lock_refused e), r), s)
      | None \<Rightarrow>
        let s1 = clear_temporaries env io (dr_host r) s;
            (read, recovered) = last_request env (dr_host r) now s1;
            (since, recovered) = (case read of
               Some at' \<Rightarrow> (if beyond_horizon env now at'
                  then (Some now, Some (Beyond_horizon (if names_the_edge pace then Some at' else None)))
                  else (read, recovered))
             | None \<Rightarrow> (read, recovered));
            r1 = r\<lparr>dr_recovered := recovered\<rparr>;
            next' = (case since of None \<Rightarrow> None
              | Some at' \<Rightarrow> (case checked_add_signed env at' (int delay) of
                    Some n \<Rightarrow> if now < n then Some n else None | None \<Rightarrow> None));
            written = (\<lambda>r2 send_at. let (ok, s2) = replace_turn_file io (turn_path env (dr_host r)) (Turn_record (dr_host r) send_at) s1
               in ((if ok then None else Some Not_replaced, r2), s2))
        in case next' of
             None \<Rightarrow> written r1 now
           | Some n \<Rightarrow>
               let wait_ms = wait_in_ms (nat (n - now));
                   r2 = r1\<lparr>dr_wait_ms := Some wait_ms\<rparr>
               in if budget < from_millis (unat wait_ms)
                  then ((None, r2\<lparr>dr_outcome := Refused_turn, dr_next_at := Some n\<rparr>), s1)
                  else written (r2\<lparr>dr_outcome := Waited\<rparr>) n)"

definition take_turn ::
  "crawl_env \<Rightarrow> store_io \<Rightarrow> string \<Rightarrow> duration \<Rightarrow> duration \<Rightarrow> instant \<Rightarrow> pace \<Rightarrow> crawl_store
   \<Rightarrow> delay_ruling \<times> crawl_store" where
  "take_turn env io host delay budget now pace s =
     (let delay = min delay max_crawl_delay;
          r = \<lparr>dr_host = host, dr_delay_ms = millis delay, dr_outcome = Clear, dr_wait_ms = Some 0,
               dr_budget_ms = millis budget, dr_next_at = None, dr_unavailable = None, dr_recovered = None,
               dr_licence_first = None\<rparr>
      in case turn env io r delay budget now pace s of
           ((None, r'), s') \<Rightarrow> (r', s')
         | ((Some fault, r'), s') \<Rightarrow>
             (r'\<lparr>dr_outcome := Unavailable, dr_wait_ms := Some 0, dr_next_at := None, dr_unavailable := Some fault\<rparr>, s'))"

text \<open>\<open>CrawlDelayStore::pending_wait\<close>: an estimate, read without the lock.\<close>

definition pending_wait_store :: "crawl_env \<Rightarrow> string \<Rightarrow> duration \<Rightarrow> instant \<Rightarrow> crawl_store \<Rightarrow> duration" where
  "pending_wait_store env host delay now s =
     (let delay = min delay max_crawl_delay
      in case cs_files s (turn_path env host) of
           None \<Rightarrow> 0
         | Some (Turn_record h at') \<Rightarrow>
             (if beyond_horizon env now at' then delay
              else case checked_add_signed env at' (int delay) of
                Some n \<Rightarrow> if now < n then nat (n - now) else 0
              | None \<Rightarrow> 0)
         | Some _ \<Rightarrow> delay)"

definition sent_store :: "crawl_env \<Rightarrow> store_io \<Rightarrow> string \<Rightarrow> instant \<Rightarrow> crawl_store \<Rightarrow> turn_fault option \<times> crawl_store" where
  "sent_store env io host at' s =
     (if io_create_fails io then (Some Not_created, s)
      else case io_lock io of Some e \<Rightarrow> (Some (Lock_refused e), s)
      | None \<Rightarrow>
        let recorded = (case cs_files s (turn_path env host) of Some (Turn_record h t) \<Rightarrow> Some t | _ \<Rightarrow> None)
        in if (case recorded of Some t \<Rightarrow> at' \<le> t | None \<Rightarrow> False) then (None, s)
           else let (ok, s') = replace_turn_file io (turn_path env host) (Turn_record host at') s
                in (if ok then None else Some Not_replaced, s'))"

subsection \<open>What a turn is\<close>

lemma backoff_not_turn [simp]: "backoff_path env h \<noteq> turn_path env h" "turn_path env h \<noteq> backoff_path env h"
  by (simp_all add: backoff_path_def turn_path_def path_for_def)

lemma cleared_turn [simp]: "cs_files (clear_temporaries env io h s) (turn_path env h) = cs_files s (turn_path env h)"
  by (auto simp: clear_temporaries_def Let_def remove_file_def split: sum.splits option.splits)

lemma read_cleared [simp]: "last_request env h now (clear_temporaries env io h s) = last_request env h now s"
  by (simp add: last_request_def)

lemma replace_turn_file_run:
  "replace_turn_file io p f s = (ok, s') \<Longrightarrow> ok \<Longrightarrow> cs_files s' = (cs_files s)(p \<mapsto> f)"
  by (auto simp: replace_turn_file_def Let_def split: option.splits)

lemma millis_from: "d \<le> from_secs 1000000 \<Longrightarrow> unat (millis d) = d div 1000000"
  by (auto simp: millis_def from_secs_def unat_of_nat)

text \<open>The wait in whole milliseconds, rounded up.\<close>

lemma wait_in_ms_up:
  assumes "w \<le> from_secs 1000000"
  shows "w \<le> from_millis (unat (wait_in_ms w))" "from_millis (unat (wait_in_ms w)) < w + 1000000"
    "w \<le> from_millis m \<Longrightarrow> from_millis (unat (wait_in_ms w)) \<le> from_millis m"
proof -
  define q e where "q = w div 1000000" and "e = w mod 1000000"
  have w: "w = q * 1000000 + e" "e < 1000000" by (simp_all add: q_def e_def)
  have "unat (millis w) = q" unfolding q_def by (rule millis_from [OF assms])
  moreover have "q \<le> 1000000000" using assms by (simp add: from_secs_def q_def)
  ultimately have u: "unat (wait_in_ms w) = q + (if e = 0 then 0 else 1)"
    by (simp add: wait_in_ms_def unat_saturating_add e_def)
  show "w \<le> from_millis (unat (wait_in_ms w))" "from_millis (unat (wait_in_ms w)) < w + 1000000"
    unfolding u from_millis_def using w by auto
  then show "w \<le> from_millis m \<Longrightarrow> from_millis (unat (wait_in_ms w)) \<le> from_millis m"
    by (simp add: from_millis_def)
qed

text \<open>The instant a turn is measured from: the record, or now where the record cannot be used.\<close>

definition measured_from :: "crawl_env \<Rightarrow> string \<Rightarrow> instant \<Rightarrow> crawl_store \<Rightarrow> instant option" where
  "measured_from env host now s =
     (case cs_files s (turn_path env host) of
        None \<Rightarrow> None
      | Some (Turn_record h at') \<Rightarrow> Some (if now + horizon \<le> ce_max env \<and> now + horizon < at' then now else at')
      | Some _ \<Rightarrow> Some now)"

definition due_at :: "crawl_env \<Rightarrow> string \<Rightarrow> duration \<Rightarrow> instant \<Rightarrow> crawl_store \<Rightarrow> instant" where
  "due_at env host delay now s =
     (case measured_from env host now s of
        None \<Rightarrow> now
      | Some at' \<Rightarrow> (if at' + int delay \<le> ce_max env then max now (at' + int delay) else now))"

definition io_ok :: "store_io \<Rightarrow> bool" where
  "io_ok io \<longleftrightarrow> \<not> io_create_fails io \<and> io_lock io = None \<and> io_replace io = None"

definition wait_to :: "instant \<Rightarrow> instant \<Rightarrow> duration" where
  "wait_to now due = from_millis (unat (wait_in_ms (nat (due - now))))"

lemma wait_to_now [simp]: "wait_to now now = 0"
  by (simp add: wait_to_def wait_in_ms_def millis_def from_millis_def saturating_add_def)

text \<open>What \<open>turn\<close> answers once the lock is held, from the instant its turn is due.\<close>

definition turn_result ::
  "crawl_env \<Rightarrow> store_io \<Rightarrow> delay_ruling \<Rightarrow> recovery option \<Rightarrow> instant \<Rightarrow> duration \<Rightarrow> instant \<Rightarrow> crawl_store
   \<Rightarrow> (turn_fault option \<times> delay_ruling) \<times> crawl_store" where
  "turn_result env io r rec due budget now s1 =
     (let written = (\<lambda>r2. let (ok, s2) = replace_turn_file io (turn_path env (dr_host r)) (Turn_record (dr_host r) due) s1
            in ((if ok then None else Some Not_replaced, r2), s2));
          waiting = r\<lparr>dr_recovered := rec, dr_wait_ms := Some (wait_in_ms (nat (due - now)))\<rparr>
      in if now < due then
           (if budget < wait_to now due
            then ((None, waiting\<lparr>dr_outcome := Refused_turn, dr_next_at := Some due\<rparr>), s1)
            else written (waiting\<lparr>dr_outcome := Waited\<rparr>))
         else written (r\<lparr>dr_recovered := rec\<rparr>))"

lemma turn_cases:
  assumes "dr_host r = h" "h \<noteq> []" "\<not> io_create_fails io" "io_lock io = None"
  obtains rec where "turn env io r delay budget now pace s =
    turn_result env io r rec (due_at env h delay now s) budget now (clear_temporaries env io h s)"
proof -
  define f where "f = cs_files s (turn_path env h)"
  note d = turn_def last_request_def due_at_def measured_from_def beyond_horizon_def checked_add_signed_def wait_to_def f_def [symmetric]
  have due: "due_at env h delay now s = (case measured_from env h now s of None \<Rightarrow> now
     | Some at' \<Rightarrow> (if at' + int delay \<le> ce_max env \<and> now < at' + int delay then at' + int delay else now))"
    by (auto simp: due_at_def max_def split: option.split)
  obtain rd rv where lr: "last_request env h now (clear_temporaries env io h s) = (rd, rv)" by (rule prod.exhaust)
  let ?since = "case rd of Some at' \<Rightarrow> (if beyond_horizon env now at'
                  then (Some now, Some (Beyond_horizon (if names_the_edge pace then Some at' else None)))
                  else (rd, rv))
             | None \<Rightarrow> (rd, rv)"
  have m: "fst ?since = measured_from env h now s"
    using lr by (auto simp: last_request_def measured_from_def beyond_horizon_def checked_add_signed_def
        split: option.splits store_file.splits if_splits)
  obtain since rec where sr: "?since = (since, rec)" by (rule prod.exhaust)
  with m have since: "since = measured_from env h now s" by (simp only: fst_conv)
  have "turn env io r delay budget now pace s =
    turn_result env io r rec (due_at env h delay now s) budget now (clear_temporaries env io h s)"
    unfolding turn_def assms(1) Let_def lr prod.case sr due since [symmetric] using assms(2-4)
    by (cases since) (simp_all add: turn_result_def assms(1) Let_def checked_add_signed_def wait_to_def case_prod_beta')
  then show thesis by (rule that)
qed

text \<open>\<open>take_turn\<close> in full.\<close>

lemma take_turn_result:
  assumes "host \<noteq> []" "\<not> io_create_fails io" "io_lock io = None"
  obtains r0 rec where "dr_host r0 = host" "dr_outcome r0 = Clear" "dr_wait_ms r0 = Some 0"
    "take_turn env io host delay budget now pace s =
      (case turn_result env io r0 rec (due_at env host (min delay max_crawl_delay) now s) budget now (clear_temporaries env io host s)
       of ((None, r'), s') \<Rightarrow> (r', s')
         | ((Some fault, r'), s') \<Rightarrow>
             (r'\<lparr>dr_outcome := Unavailable, dr_wait_ms := Some 0, dr_next_at := None, dr_unavailable := Some fault\<rparr>, s'))"
proof -
  define d where "d = min delay max_crawl_delay"
  define r0 where "r0 = \<lparr>dr_host = host, dr_delay_ms = millis d, dr_outcome = Clear, dr_wait_ms = Some 0,
               dr_budget_ms = millis budget, dr_next_at = None, dr_unavailable = None, dr_recovered = None,
               dr_licence_first = None\<rparr>"
  have host: "dr_host r0 = host" by (simp add: r0_def)
  obtain rec where t: "turn env io r0 d budget now pace s =
        turn_result env io r0 rec (due_at env host d now s) budget now (clear_temporaries env io host s)"
    using assms turn_cases [OF host, of io env d budget now pace s] by blast
  have "take_turn env io host delay budget now pace s = (case turn env io r0 d budget now pace s
       of ((None, r'), s') \<Rightarrow> (r', s')
         | ((Some fault, r'), s') \<Rightarrow>
             (r'\<lparr>dr_outcome := Unavailable, dr_wait_ms := Some 0, dr_next_at := None, dr_unavailable := Some fault\<rparr>, s'))"
    by (simp add: take_turn_def Let_def r0_def d_def)
  with t show thesis by (intro that [of r0 rec]) (simp_all add: r0_def d_def)
qed

lemma take_turn_stopped:
  assumes "take_turn env io host delay budget now pace s = (r, s')"
    "\<not> (host \<noteq> [] \<and> \<not> io_create_fails io \<and> io_lock io = None)"
  shows "dr_outcome r = Unavailable" "s' = s"
  using assms by (auto simp: take_turn_def turn_def Let_def split: option.splits if_splits)

lemma take_turn_run:
  assumes "take_turn env io host delay budget now pace s = (r, s')"
  defines "due \<equiv> due_at env host (min delay max_crawl_delay) now s"
  shows "sends r \<longleftrightarrow> host \<noteq> [] \<and> io_ok io \<and> wait_to now due \<le> budget" (is ?sends)
    "sends r \<Longrightarrow> cs_files s' (turn_path env host) = Some (Turn_record host due) \<and> sleep_of r = wait_to now due
       \<and> (dr_outcome r = Waited \<longleftrightarrow> now < due)"
    "dr_outcome r = Refused_turn \<Longrightarrow> cs_files s' (turn_path env host) = cs_files s (turn_path env host) \<and> sleep_of r = 0"
    "\<not> sends r \<Longrightarrow> sleep_of r = 0"
proof -
  have *: "?sends \<and> (sends r \<longrightarrow> cs_files s' (turn_path env host) = Some (Turn_record host due) \<and> sleep_of r = wait_to now due
       \<and> (dr_outcome r = Waited \<longleftrightarrow> now < due))
     \<and> (dr_outcome r = Refused_turn \<longrightarrow> cs_files s' (turn_path env host) = cs_files s (turn_path env host))
     \<and> (\<not> sends r \<longrightarrow> sleep_of r = 0)"
  proof (cases "host \<noteq> [] \<and> \<not> io_create_fails io \<and> io_lock io = None")
    case False
    then have "dr_outcome r = Unavailable" using take_turn_stopped [OF assms(1)] by blast
    with False show ?thesis by (auto simp: sends_def sleep_of_def io_ok_def)
  next
    case True
    have le: "now \<le> due" by (auto simp: due_def due_at_def split: option.split)
    obtain r0 rec where r0: "dr_host r0 = host" "dr_outcome r0 = Clear" "dr_wait_ms r0 = Some 0"
      and run: "take_turn env io host delay budget now pace s =
       (case turn_result env io r0 rec due budget now (clear_temporaries env io host s)
        of ((None, r'), s') \<Rightarrow> (r', s')
         | ((Some fault, r'), s') \<Rightarrow>
             (r'\<lparr>dr_outcome := Unavailable, dr_wait_ms := Some 0, dr_next_at := None, dr_unavailable := Some fault\<rparr>, s'))"
      using True take_turn_result [of host io env delay budget now pace s, folded due_def] by blast
    show ?thesis
    proof (cases "now < due")
      case False
      with le have "due = now" by simp
      with run assms(1) r0 True False show ?thesis
        by (auto simp: turn_result_def Let_def replace_turn_file_def sends_def sleep_of_def io_ok_def split: option.splits if_splits)
    next
      case True': True
      with run assms(1) r0 True show ?thesis
        by (auto simp: turn_result_def Let_def replace_turn_file_def sends_def sleep_of_def io_ok_def wait_to_def split: option.splits if_splits)
    qed
  qed
  then show ?sends by blast
  from * show "sends r \<Longrightarrow> cs_files s' (turn_path env host) = Some (Turn_record host due) \<and> sleep_of r = wait_to now due
       \<and> (dr_outcome r = Waited \<longleftrightarrow> now < due)" by blast
  from * show "\<not> sends r \<Longrightarrow> sleep_of r = 0" by blast
  from * show "dr_outcome r = Refused_turn \<Longrightarrow> cs_files s' (turn_path env host) = cs_files s (turn_path env host) \<and> sleep_of r = 0"
    by (simp add: sleep_of_def)
qed

text \<open>Whatever the file system does, the record is the one found or the turn that was due.\<close>

lemma take_turn_file:
  assumes "take_turn env io host delay budget now pace s = (r, s')"
  defines "due \<equiv> due_at env host (min delay max_crawl_delay) now s"
  shows "cs_files s' (turn_path env host) = cs_files s (turn_path env host)
     \<or> (cs_files s' (turn_path env host) = Some (Turn_record host due) \<and> wait_to now due \<le> budget)"
proof (cases "host \<noteq> [] \<and> \<not> io_create_fails io \<and> io_lock io = None")
  case False
  then show ?thesis using take_turn_stopped [OF assms(1)] by blast
next
  case True
  have le: "now \<le> due" by (auto simp: due_def due_at_def split: option.split)
  obtain r0 rec where r0: "dr_host r0 = host"
      and run: "take_turn env io host delay budget now pace s =
       (case turn_result env io r0 rec due budget now (clear_temporaries env io host s)
        of ((None, r'), s') \<Rightarrow> (r', s')
         | ((Some fault, r'), s') \<Rightarrow>
             (r'\<lparr>dr_outcome := Unavailable, dr_wait_ms := Some 0, dr_next_at := None, dr_unavailable := Some fault\<rparr>, s'))"
      using True take_turn_result [of host io env delay budget now pace s, folded due_def] by blast
  show ?thesis
  proof (cases "now < due")
    case False
    with le have "due = now" by simp
    with run assms(1) r0 show ?thesis
      by (auto simp: turn_result_def Let_def replace_turn_file_def split: option.splits if_splits)
  next
    case True
    with run assms(1) r0 show ?thesis
      by (auto simp: turn_result_def Let_def replace_turn_file_def split: option.splits if_splits)
  qed
qed

subsection \<open>Runs of turns\<close>

text \<open>
  One host's turns, taken by any servers of the edge in the order they held the lock: a request takes its
  turn, an answered request dates the next one (\<open>sent\<close>), and another process comes to act, with its own
  \<open>SWEPT\<close>. An event is a granted turn with the delay it was taken under, or a request dated.
\<close>

datatype pace_call =
    Take store_io duration duration instant pace
  | Date store_io instant
  | Other_process "string set"

fun pace_step :: "crawl_env \<Rightarrow> string \<Rightarrow> pace_call \<Rightarrow> crawl_store \<Rightarrow> (duration option \<times> instant) list \<times> crawl_store" where
  "pace_step env host (Take io delay budget now pace) s =
     (let (r, s') = take_turn env io host delay budget now pace s
      in (if sends r then (case cs_files s' (turn_path env host) of
            Some (Turn_record h at') \<Rightarrow> [(Some (min delay max_crawl_delay), at')] | _ \<Rightarrow> []) else [], s'))"
| "pace_step env host (Date io at') s =
     (let (fault, s') = sent_store env io host at' s in (if fault = None then [(None, at')] else [], s'))"
| "pace_step env host (Other_process swept) s = ([], s\<lparr>cs_swept := swept\<rparr>)"

fun pace_run :: "crawl_env \<Rightarrow> string \<Rightarrow> pace_call list \<Rightarrow> crawl_store \<Rightarrow> (duration option \<times> instant) list" where
  "pace_run env host [] s = []"
| "pace_run env host (c # cs) s = (let (evs, s') = pace_step env host c s in evs @ pace_run env host cs s')"

text \<open>
  The clocks of the servers agree within the wait budget: no reading is more than sixty seconds behind an
  earlier one. Every budget is at most the wait budget, and no instant is at the end of the calendar.
\<close>

fun call_at :: "pace_call \<Rightarrow> instant option" where
  "call_at (Take io delay budget now pace) = Some now"
| "call_at (Date io at') = Some at'"
| "call_at (Other_process swept) = None"

fun call_ok :: "crawl_env \<Rightarrow> instant \<Rightarrow> pace_call \<Rightarrow> bool" where
  "call_ok env clk (Take io delay budget now pace) \<longleftrightarrow>
     budget \<le> wait_budget_own \<and> clk - int wait_budget_own \<le> now \<and> now + horizon + int max_crawl_delay \<le> ce_max env"
| "call_ok env clk (Date io at') \<longleftrightarrow> True"
| "call_ok env clk (Other_process swept) \<longleftrightarrow> True"

fun calls_ok :: "crawl_env \<Rightarrow> instant \<Rightarrow> pace_call list \<Rightarrow> bool" where
  "calls_ok env clk [] \<longleftrightarrow> True"
| "calls_ok env clk (c # cs) \<longleftrightarrow>
     call_ok env clk c \<and> calls_ok env (case call_at c of Some t \<Rightarrow> max clk t | None \<Rightarrow> clk) cs"

definition spaced :: "(duration option \<times> instant) list \<Rightarrow> bool" where
  "spaced = sorted_wrt (\<lambda>a b. case fst b of Some d \<Rightarrow> snd a + int d \<le> snd b | None \<Rightarrow> True)"

text \<open>A record is at most a whole wait ahead of the clocks, and no event is after it.\<close>

definition turns_ok :: "crawl_env \<Rightarrow> string \<Rightarrow> instant \<Rightarrow> (duration option \<times> instant) list \<Rightarrow> crawl_store \<Rightarrow> bool" where
  "turns_ok env host clk evs s \<longleftrightarrow>
     (case cs_files s (turn_path env host) of
        Some (Turn_record h at') \<Rightarrow> at' \<le> clk + int wait_budget_own \<and> (\<forall>e \<in> set evs. snd e \<le> at')
      | _ \<Rightarrow> evs = [])"

lemma pace_step_ok:
  assumes "turns_ok env host clk evs s" "call_ok env clk c" "spaced evs" "pace_step env host c s = (new, s')"
  shows "turns_ok env host (case call_at c of Some t \<Rightarrow> max clk t | None \<Rightarrow> clk) (evs @ new) s' \<and> spaced (evs @ new)"
proof (cases c)
  case (Take io delay budget now pace)
  define d where "d = min delay max_crawl_delay"
  define due where "due = due_at env host d now s"
  define f where "f = cs_files s (turn_path env host)"
  from assms(2) Take have b: "budget \<le> wait_budget_own" and clk: "clk \<le> now + int wait_budget_own"
    and cal: "now + horizon + int max_crawl_delay \<le> ce_max env" by simp_all
  obtain r s1 where t0: "take_turn env io host delay budget now pace s = (r, s1)" by (rule prod.exhaust)
  from assms(4) have s1: "s1 = s'" and new: "new = (if sends r then (case cs_files s' (turn_path env host) of
            Some (Turn_record h at') \<Rightarrow> [(Some d, at')] | _ \<Rightarrow> []) else [])"
    unfolding Take pace_step.simps t0 Let_def prod.case d_def by auto
  from t0 have tt: "take_turn env io host delay budget now pace s = (r, s')" by (simp only: s1)
  have due: "now \<le> due" "\<forall>e \<in> set evs. snd e + int d \<le> due" "due \<le> now + horizon + int max_crawl_delay"
    using assms(1) clk cal
    by (auto simp: due_def due_at_def measured_from_def turns_ok_def horizon_def d_def wait_budget_own_def split: option.splits store_file.splits)
  have reach: "due \<le> now + int wait_budget_own" if "wait_to now due \<le> budget"
  proof -
    have "nat (due - now) \<le> from_secs 1000000"
      using due(3) by (simp add: horizon_def max_crawl_delay_def wait_budget_own_def from_secs_def)
    from wait_in_ms_up(1) [OF this] that b show ?thesis by (simp add: wait_to_def)
  qed
  from take_turn_file [OF tt] consider (kept) "cs_files s' (turn_path env host) = f"
    | (written) "cs_files s' (turn_path env host) = Some (Turn_record host due)" "wait_to now due \<le> budget"
    by (auto simp: f_def due_def d_def)
  then show ?thesis
  proof cases
    case written
    then have w: "cs_files s' (turn_path env host) = Some (Turn_record host due)" "due \<le> now + int wait_budget_own"
      using reach by simp_all
    then have "new = [] \<or> new = [(Some d, due)]" by (auto simp: new)
    with w due assms(3) show ?thesis
      by (auto simp: turns_ok_def Take spaced_def sorted_wrt_append d_def)
  next
    case kept
    show ?thesis
    proof (cases "sends r")
      case True
      with take_turn_run(1,2) [OF tt] reach have w: "cs_files s' (turn_path env host) = Some (Turn_record host due)" "due \<le> now + int wait_budget_own"
        by (auto simp: due_def d_def)
      then have "new = [(Some d, due)]" using True by (auto simp: new)
      with w due assms(3) show ?thesis
        by (auto simp: turns_ok_def Take spaced_def sorted_wrt_append d_def)
    next
      case False
      with kept assms(1,3) show ?thesis by (auto simp: new turns_ok_def Take f_def split: option.splits store_file.splits)
    qed
  qed
next
  case (Date io at')
  from assms Date show ?thesis
    by (auto simp: sent_store_def turns_ok_def spaced_def sorted_wrt_append Let_def replace_turn_file_def
        split: option.splits store_file.splits if_splits prod.splits)
next
  case (Other_process sw)
  with assms show ?thesis by (auto simp: turns_ok_def)
qed

lemma pace_run_ok:
  "turns_ok env host clk evs s \<Longrightarrow> calls_ok env clk cs \<Longrightarrow> spaced evs \<Longrightarrow> spaced (evs @ pace_run env host cs s)"
proof (induction cs arbitrary: clk evs s)
  case (Cons c cs)
  obtain new s' where st: "pace_step env host c s = (new, s')" by fastforce
  with pace_step_ok [OF Cons.prems(1) _ Cons.prems(3) st] Cons.prems(2) Cons.IH [of _ "evs @ new" s']
  show ?case by auto
qed simp

subsection \<open>Properties\<close>


definition sample_io :: store_io where
  "sample_io = \<lparr>io_create_fails = False, io_lock = None, io_replace = None, io_sweep_now = 0, io_removes = True\<rparr>"

definition sample_crawl_env :: crawl_env where
  "sample_crawl_env = \<lparr>ce_sha256_hex = (\<lambda>s. ''0''), ce_max = 10 ^ 30\<rparr>"

definition sample_calls :: "pace_call list" where
  "sample_calls = [Take sample_io (from_secs 5) (from_secs 60) 0 Own, Take sample_io (from_secs 5) (from_secs 60) 1000 Own,
     Date sample_io (int (from_secs 7)), Take sample_io (from_secs 5) (from_secs 1) (int (from_secs 8)) Own]"


text \<open>
  A turn is granted exactly when its wait fits: with \<open>due\<close> the later of now and the delay after
  the request the record names (after now, where the record cannot be read or lies beyond the horizon), the
  request goes exactly when the URL names a host, the store can be locked and written, and the wait in whole
  milliseconds, rounded up, is within the budget. A request that goes has its turn on disk and sleeps until
  no earlier than it; a refused one leaves the record as it was and says when the host may next be asked.
\<close>

theorem turn_is_granted_when_it_fits:
  assumes "take_turn env io host delay budget now pace s = (r, s')" "now + horizon + int max_crawl_delay \<le> ce_max env"
  defines "due \<equiv> due_at env host (min delay max_crawl_delay) now s"
  shows "(sends r \<longleftrightarrow> host \<noteq> [] \<and> io_ok io \<and> wait_to now due \<le> budget)
    \<and> (sends r \<longrightarrow> cs_files s' (turn_path env host) = Some (Turn_record host due)
         \<and> due \<le> now + int (sleep_of r) \<and> sleep_of r \<le> budget)
    \<and> (dr_outcome r = Refused_turn \<longrightarrow> cs_files s' (turn_path env host) = cs_files s (turn_path env host))"
proof -
  have "due \<le> now + horizon + int max_crawl_delay"
    using assms(2)
    by (auto simp: due_def due_at_def measured_from_def horizon_def split: option.splits store_file.splits)
  then have "nat (due - now) \<le> from_secs 1000000"
    by (simp add: horizon_def max_crawl_delay_def wait_budget_own_def from_secs_def)
  from wait_in_ms_up(1) [OF this] have "due \<le> now + int (wait_to now due)" by (simp add: wait_to_def)
  with take_turn_run [OF assms(1), folded due_def] show ?thesis by auto
qed

lemma turn_is_granted_when_it_fits_witness:
  "sends (fst (take_turn sample_crawl_env sample_io ''a'' (from_secs 5) (from_secs 60) 0 Own \<lparr>cs_files = Map.empty, cs_swept = {}\<rparr>))"
  by (cases "take_turn sample_crawl_env sample_io ''a'' (from_secs 5) (from_secs 60) 0 Own \<lparr>cs_files = Map.empty, cs_swept = {}\<rparr>")
    (use turn_is_granted_when_it_fits [of sample_crawl_env sample_io "''a''" "from_secs 5" "from_secs 60" 0 Own "\<lparr>cs_files = Map.empty, cs_swept = {}\<rparr>"]
     in \<open>simp add: sample_crawl_env_def sample_io_def io_ok_def due_at_def measured_from_def horizon_def max_crawl_delay_def
      wait_budget_own_def from_secs_def\<close>)

text \<open>The file of a host's turns is the file of another host's back-off record where the name ends in its extension.\<close>

theorem backoff_host_shares_a_file:
  assumes "length host + 8 \<le> max_name"
  shows "turn_path env (host @ ''.backoff'') = backoff_path env host"
  using assms by (simp add: turn_path_def backoff_path_def path_for_def file_name_def Let_def max_name_def
      is_ascii_alphanumeric_def is_ascii_upper_def is_ascii_lower_def is_ascii_digit_def byte_of_def)

end
