(* ===== verification/Backoff.thy ===== *)
theory Backoff
  imports Crawl_Delay
begin

section \<open>Back-off and the pacing of one call\<close>

text \<open>
  \<open>crates/commonmeasure-harness/src/crawl_delay/backoff.rs\<close> and the \<open>Pacing\<close> of
  \<open>crawl_delay.rs\<close>: what a host's answers impose on later requests, and how one call spends what it may
  sleep. The state (\<open>edge\<close>) is the \<open>Pacing\<close>, the store, the clock and a script of what happens
  around the call: at each point where the code reads the clock or waits for the lock, time passes and other
  processes change the store (\<open>moves\<close>), and each store operation meets the next \<open>store_io\<close>. One clock
  stands for \<open>Instant\<close> and \<open>Utc::now\<close>: a wall clock that steps back is not modelled here. The
  sentences of a refusal are not modelled, only which refusal it is. The lemmas show that a send waits out the
  pause, that the wait ends, and that an answer never shortens a pause.
\<close>

definition retry_after_cap :: nat where "retry_after_cap = 3600"
definition exponential_cap :: nat where "exponential_cap = 900"

definition held :: "backoff \<Rightarrow> send_reservation option" where
  "held b = (case bo_reservation b of Some r \<Rightarrow> if rs_failure_until r < bo_until b then Some r else None | None \<Rightarrow> None)"

definition is_failure :: "u16 \<Rightarrow> bool" where
  "is_failure status \<longleftrightarrow> status = 429 \<or> (500 \<le> status \<and> status < 600)"

subsection \<open>Answers\<close>

text \<open>\<open>ch_rfc2822\<close> and \<open>ch_naive\<close> are \<open>chrono\<close>'s parsers, the second by format.\<close>

record chrono =
  ch_rfc2822 :: "string \<Rightarrow> instant option"
  ch_naive :: "string \<Rightarrow> string \<Rightarrow> instant option"

definition retry_after_date :: "chrono \<Rightarrow> string \<Rightarrow> instant option" where
  "retry_after_date ch value =
     (case ch_rfc2822 ch (trim value) of
        Some d \<Rightarrow> Some d
      | None \<Rightarrow> (case ch_naive ch ''%A, %d-%b-%y %H:%M:%S GMT'' (trim value) of
            Some d \<Rightarrow> Some d
          | None \<Rightarrow> ch_naive ch ''%a %b %e %H:%M:%S %Y'' (trim value)))"

definition retry_after_seconds :: "chrono \<Rightarrow> string \<Rightarrow> instant \<Rightarrow> nat option" where
  "retry_after_seconds ch value now =
     (let value = trim value
      in if value \<noteq> [] \<and> all_digits value then Some (case parse_uint value :: u64 option of Some n \<Rightarrow> unat n | None \<Rightarrow> 2 ^ 64 - 1)
         else case retry_after_date ch value of
           None \<Rightarrow> None
         | Some at' \<Rightarrow> (let ms = nat (at' - now) div 1000000 in Some ((ms + 999) div 1000)))"

datatype store_fault = Fault_record | Fault_directory | Fault_lock lock_refused

definition write_backoff :: "crawl_env \<Rightarrow> store_io \<Rightarrow> string \<Rightarrow> backoff \<Rightarrow> crawl_store \<Rightarrow> bool \<times> crawl_store" where
  "write_backoff env io host b s = replace_turn_file io (backoff_path env host) (Backoff_record b) s"

definition pause_end :: "backoff \<Rightarrow> instant" where
  "pause_end b = (case bo_reservation b of Some r \<Rightarrow> rs_failure_until r | None \<Rightarrow> bo_until b)"

definition failure_count :: "backoff option \<Rightarrow> instant \<Rightarrow> u32" where
  "failure_count previous now =
     (case previous of None \<Rightarrow> 1
      | Some old \<Rightarrow> if pause_end old \<le> now \<or> bo_failures old = 0 then saturating_add (bo_failures old) 1 else bo_failures old)"

definition exponential_seconds :: "u32 \<Rightarrow> nat" where
  "exponential_seconds failures = min (10 * 2 ^ min (unat (saturating_sub failures 1)) 7) exponential_cap"

text \<open>What a failing answer makes of the record, before the previous one is weighed in.\<close>

definition failed_answer :: "chrono \<Rightarrow> u16 \<Rightarrow> string option \<Rightarrow> instant \<Rightarrow> u32 \<Rightarrow> backoff" where
  "failed_answer ch status retry_after now failures =
     (let supplied = (if status = 429 \<or> status = 503
            then (case retry_after of Some v \<Rightarrow> retry_after_seconds ch v now | None \<Rightarrow> None) else None);
          seconds = (case supplied of Some n \<Rightarrow> n | None \<Rightarrow> exponential_seconds failures);
          http_date = (case supplied of
              Some n \<Rightarrow> if n \<le> retry_after_cap then (case retry_after of Some v \<Rightarrow> retry_after_date ch v | None \<Rightarrow> None) else None
            | None \<Rightarrow> None);
          until = max (case http_date of Some d \<Rightarrow> d | None \<Rightarrow> now + int (from_secs (min seconds retry_after_cap))) now
      in \<lparr>bo_failures = failures, bo_status = status, bo_until = until, bo_retry_after = (supplied \<noteq> None),
          bo_capped = (case supplied of Some n \<Rightarrow> retry_after_cap < n | None \<Rightarrow> False),
          bo_http_date = (if http_date = Some until then http_date else None), bo_reservation = None\<rparr>)"

definition weigh_previous :: "bool \<Rightarrow> backoff \<Rightarrow> backoff \<Rightarrow> backoff" where
  "weigh_previous owns old new =
     (let new = (if bo_until new < pause_end old
            then new\<lparr>bo_status := bo_status old, bo_until := pause_end old, bo_retry_after := bo_retry_after old,
                     bo_capped := bo_capped old, bo_http_date := bo_http_date old\<rparr>
            else new)
      in case (if owns then None else bo_reservation old) of
           None \<Rightarrow> new
         | Some r \<Rightarrow> new\<lparr>bo_until := max (bo_until new) (bo_until old),
                           bo_reservation := Some (r\<lparr>rs_failure_until := bo_until new\<rparr>)\<rparr>)"

text \<open>\<open>CrawlDelayStore::answer\<close>.\<close>

definition answer ::
  "crawl_env \<Rightarrow> chrono \<Rightarrow> store_io \<Rightarrow> string \<Rightarrow> u16 \<Rightarrow> string option \<Rightarrow> instant \<Rightarrow> uuid option
   \<Rightarrow> (crawl_store, store_fault, backoff option) exec" where
  "answer env ch io host status retry_after now mine s =
     (let failure = is_failure status
      in case (if failure then Inr True
               else res_map (\<lambda>old. case old of None \<Rightarrow> False | Some old \<Rightarrow> \<not> (bo_failures old = 0 \<and> bo_reservation old = None))
                      (read_backoff env host s)) of
        Inl _ \<Rightarrow> (Inl Fault_record, s)
      | Inr False \<Rightarrow> (Inr None, s)
      | Inr True \<Rightarrow>
         if io_create_fails io then (Inl Fault_directory, s)
         else case io_lock io of Some e \<Rightarrow> (Inl (Fault_lock e), s)
         | None \<Rightarrow>
           let s1 = clear_temporaries env io host s
           in case read_backoff env host s1 of
                Inl _ \<Rightarrow> (Inl Fault_record, s1)
              | Inr previous \<Rightarrow>
                  let owns = (case previous of Some old \<Rightarrow> (case bo_reservation old of Some r \<Rightarrow> Some (rs_id r) = mine | None \<Rightarrow> False)
                                | None \<Rightarrow> False);
                      next' = (if failure then
                          (let new = failed_answer ch status retry_after now (failure_count previous now)
                           in Some (case previous of Some old \<Rightarrow> weigh_previous owns old new | None \<Rightarrow> new))
                        else case previous of
                          None \<Rightarrow> None
                        | Some old \<Rightarrow>
                            if bo_failures old = 0 \<and> \<not> owns then None
                            else Some (if owns then old\<lparr>bo_failures := 0, bo_until := pause_end old, bo_reservation := None\<rparr>
                                       else old\<lparr>bo_failures := 0\<rparr>))
                  in case next' of
                       None \<Rightarrow> (Inr None, s1)
                     | Some b \<Rightarrow>
                         if bo_until b \<le> now \<and> bo_failures b = 0
                         then (if io_removes io then (Inr (Some (b\<lparr>bo_reservation := None\<rparr>)), remove_file (backoff_path env host) s1)
                               else (Inl Fault_directory, s1))
                         else let (ok, s2) = write_backoff env io host b s1
                              in (if ok then Inr (Some b) else Inl Fault_directory, s2))"

text \<open>\<open>CrawlDelayStore::release\<close>; its error is only that it failed.\<close>

definition release_store :: "crawl_env \<Rightarrow> store_io \<Rightarrow> string \<Rightarrow> uuid \<Rightarrow> instant \<Rightarrow> crawl_store \<Rightarrow> bool \<times> crawl_store" where
  "release_store env io host rid now s =
     (if io_lock io \<noteq> None then (False, s)
      else
        let s1 = clear_temporaries env io host s
        in case read_backoff env host s1 of
             Inl _ \<Rightarrow> (False, s1)
           | Inr None \<Rightarrow> (True, s1)
           | Inr (Some b) \<Rightarrow>
               (case bo_reservation b of
                  None \<Rightarrow> (True, s1)
                | Some r \<Rightarrow>
                    if rs_id r \<noteq> rid then (True, s1)
                    else
                      let b' = b\<lparr>bo_until := rs_failure_until r, bo_reservation := None\<rparr>
                      in if bo_until b' \<le> now \<and> bo_failures b' = 0
                         then (if io_removes io then (True, remove_file (backoff_path env host) s1) else (False, s1))
                         else write_backoff env io host b' s1))"

subsection \<open>The pacing of a call\<close>

datatype event_outcome = Set_event | Reset_event | Waited_event | Refused_event | Unavailable_event

text \<open>
  A hosted edge's evidence is the host's own absolute date or an empty object; an own edge's is the record
  without its reservation, with the deadline of one beside it.
\<close>

datatype evidence = Host_date instant | Host_nothing | Own_record backoff "instant option"

text \<open>
  Why a send was refused, as its sentence states it: the host is in back-off, or until when by its own date;
  another request holds the turn, and the pause it waits behind with its status; the pause outlasts what may be
  spent; the store failed. The wording around these is not modelled.
\<close>

datatype told =
    Told_in_backoff
  | Told_until instant
  | Told_turn_held instant "(instant \<times> u16) option"
  | Told_over_budget instant u16 u64
  | Told_fault store_fault

record backoff_event =
  be_target :: string
  be_outcome :: event_outcome
  be_backoff :: "evidence option"
  be_wait_ms :: "u64 option"
  be_budget_ms :: "u64 option"
  be_reason :: "told option"

record move =
  mv_time :: duration
  mv_store :: "crawl_store \<Rightarrow> crawl_store"

record edge =
  ed_budget :: duration
  ed_delays :: "string \<Rightarrow> u64 option"
  ed_pace :: pace
  ed_ceiling :: duration
  ed_events :: "backoff_event list"
  ed_reservations :: "string \<Rightarrow> uuid option"
  ed_reserve :: duration
  ed_store :: crawl_store
  ed_elapsed :: duration
  ed_utc :: instant
  ed_moves :: "move list"
  ed_ios :: "store_io list"
  ed_next_id :: nat
  ed_slept :: duration

definition pass_time :: "duration \<Rightarrow> edge \<Rightarrow> edge" where
  "pass_time d e = e\<lparr>ed_elapsed := ed_elapsed e + d, ed_utc := ed_utc e + int d\<rparr>"

text \<open>A point where time passes and other processes act.\<close>

definition tick :: "edge \<Rightarrow> edge" where
  "tick e = (case ed_moves e of [] \<Rightarrow> e
     | m # ms \<Rightarrow> (pass_time (mv_time m) e)\<lparr>ed_moves := ms, ed_store := mv_store m (ed_store e)\<rparr>)"

definition quiet_io :: store_io where
  "quiet_io = \<lparr>io_create_fails = False, io_lock = None, io_replace = None, io_sweep_now = 0, io_removes = True\<rparr>"

definition next_io :: "edge \<Rightarrow> store_io \<times> edge" where
  "next_io e = (case ed_ios e of [] \<Rightarrow> (quiet_io, e) | io # ios \<Rightarrow> (io, e\<lparr>ed_ios := ios\<rparr>))"

definition left :: "edge \<Rightarrow> duration" where
  "left e = ed_ceiling e - ed_elapsed e"

definition over_ceiling :: "edge \<Rightarrow> bool" where
  "over_ceiling e \<longleftrightarrow> left e = 0"

definition request_timeout :: "duration \<Rightarrow> edge \<Rightarrow> duration option" where
  "request_timeout limit e = (if left e = 0 then None else Some (min limit (left e)))"

definition spendable :: "edge \<Rightarrow> duration" where
  "spendable e = min (ed_budget e) (left e)"

text \<open>\<open>WaitBudget::sleep\<close>; \<open>ed_slept\<close> counts what the call has slept in all.\<close>

definition budget_sleep :: "duration \<Rightarrow> edge \<Rightarrow> edge" where
  "budget_sleep w e = (if w = 0 then e
     else (pass_time w e)\<lparr>ed_budget := ed_budget e - w, ed_slept := ed_slept e + w\<rparr>)"

definition learn :: "string \<Rightarrow> u64 \<Rightarrow> edge \<Rightarrow> edge" where
  "learn host honoured_ms e =
     (if host = [] then e
      else e\<lparr>ed_delays := (ed_delays e)(host \<mapsto> (case ed_delays e host of Some kept \<Rightarrow> max kept honoured_ms | None \<Rightarrow> honoured_ms))\<rparr>)"

definition delay_ms :: "string \<Rightarrow> edge \<Rightarrow> u64 option" where
  "delay_ms host e = (case ed_delays e host of Some ms \<Rightarrow> if 0 < ms then Some ms else None | None \<Rightarrow> None)"

definition evidence_of :: "pace \<Rightarrow> backoff \<Rightarrow> evidence" where
  "evidence_of p b =
     (if p = Hosted then
        (case bo_http_date b of
           Some d \<Rightarrow> if d = bo_until b \<and> held b = None then Host_date d else Host_nothing
         | None \<Rightarrow> Host_nothing)
      else case held b of
        Some r \<Rightarrow> Own_record (b\<lparr>bo_reservation := None, bo_until := rs_failure_until r\<rparr>) (Some (bo_until b))
      | None \<Rightarrow> Own_record (b\<lparr>bo_reservation := None\<rparr>) None)"

definition push_event :: "backoff_event \<Rightarrow> edge \<Rightarrow> edge" where
  "push_event ev e = e\<lparr>ed_events := ed_events e @ [ev]\<rparr>"

definition backoff_error :: "string \<Rightarrow> store_fault \<Rightarrow> edge \<Rightarrow> edge" where
  "backoff_error url fault = push_event \<lparr>be_target = url, be_outcome = Unavailable_event, be_backoff = None,
     be_wait_ms = None, be_budget_ms = None, be_reason = Some (Told_fault fault)\<rparr>"

text \<open>\<open>Pacing::backoff_refusal\<close>: the most recent refusal.\<close>

definition backoff_refusal :: "edge \<Rightarrow> told option" where
  "backoff_refusal e = (case find (\<lambda>ev. be_outcome ev = Refused_event \<or> be_outcome ev = Unavailable_event) (rev (ed_events e)) of
     Some ev \<Rightarrow> be_reason ev | None \<Rightarrow> None)"

definition told_of :: "pace \<Rightarrow> instant \<Rightarrow> duration \<Rightarrow> backoff \<Rightarrow> told" where
  "told_of p now budget b =
     (if p = Hosted then
        (case bo_http_date b of
           Some d \<Rightarrow> if d = bo_until b \<and> held b = None then Told_until d else Told_in_backoff
         | None \<Rightarrow> Told_in_backoff)
      else case held b of
        Some r \<Rightarrow> Told_turn_held (bo_until b) (if now < rs_failure_until r then Some (rs_failure_until r, bo_status b) else None)
      | None \<Rightarrow> Told_over_budget (bo_until b) (bo_status b) (millis budget))"

datatype send_refusal = Store_fault store_fault | In_backoff told

text \<open>One round of the loop of \<open>before_host_send\<close>: the send may go, is refused, or is looked at again.\<close>

datatype 'r round = Goes 'r | Stops send_refusal | Again duration

text \<open>A send's reservation, taken under the host's lock once the pause is over.\<close>

definition reserve_send :: "crawl_env \<Rightarrow> string \<Rightarrow> string \<Rightarrow> duration \<Rightarrow> duration \<Rightarrow> backoff \<Rightarrow> edge \<Rightarrow> uuid option round \<times> edge" where
  "reserve_send env host url allowance timeout b e0 =
     (let (io, e1) = next_io e0
      in case io_lock io of
           Some l \<Rightarrow> (Stops (Store_fault (Fault_lock l)), backoff_error url (Fault_lock l) e1)
         | None \<Rightarrow>
             let e2 = tick e1;
                 e3 = e2\<lparr>ed_store := clear_temporaries env io host (ed_store e2)\<rparr>
             in case read_backoff env host (ed_store e3) of
                  Inl _ \<Rightarrow> (Stops (Store_fault Fault_record), backoff_error url Fault_record e3)
                | Inr None \<Rightarrow> (Goes None, e3)
                | Inr (Some current) \<Rightarrow>
                    if current \<noteq> b then (Again allowance, e3)
                    else
                      let rid = Uuid (ed_next_id e3);
                          b' = b\<lparr>bo_reservation := Some \<lparr>rs_id = rid, rs_failure_until = pause_end b\<rparr>,
                                 bo_until := ed_utc e3 + int (min timeout (left e3))\<rparr>;
                          (ok, s) = write_backoff env io host b' (ed_store e3);
                          e4 = e3\<lparr>ed_next_id := Suc (ed_next_id e3), ed_store := s\<rparr>
                      in if ok then (Goes (Some rid), e4\<lparr>ed_reservations := (ed_reservations e4)(host \<mapsto> rid)\<rparr>)
                         else (Stops (Store_fault Fault_directory), backoff_error url Fault_directory e4))"

definition poll_interval :: duration where
  "poll_interval = from_millis 50"

text \<open>Waiting, or refusing to: \<open>wait\<close> is positive. A wait on another request's reservation is polled.\<close>

definition wait_refused :: "duration \<Rightarrow> duration \<Rightarrow> backoff \<Rightarrow> bool" where
  "wait_refused budget wait b = (if held b \<noteq> None then budget = 0 else budget < wait)"

definition sleep_for :: "duration \<Rightarrow> duration \<Rightarrow> backoff \<Rightarrow> duration" where
  "sleep_for budget wait b = (if held b \<noteq> None then min (min wait budget) poll_interval else wait)"

definition note_wait :: "string \<Rightarrow> duration \<Rightarrow> duration \<Rightarrow> backoff \<Rightarrow> edge \<Rightarrow> edge" where
  "note_wait url budget wait b e =
     (let refused = wait_refused budget wait b;
          sleep = sleep_for budget wait b;
          evidence = Some (evidence_of (ed_pace e) b);
          ev = \<lparr>be_target = url, be_outcome = (if refused then Refused_event else Waited_event), be_backoff = evidence,
                be_wait_ms = (if ed_pace e = Own then Some (millis (if refused then wait else sleep)) else None),
                be_budget_ms = Some (millis budget),
                be_reason = (if refused then Some (told_of (ed_pace e) (ed_utc e) budget b) else None)\<rparr>
      in if held b \<noteq> None \<and> \<not> refused \<and> ed_events e \<noteq> []
            \<and> (let l = last (ed_events e) in be_target l = url \<and> be_outcome l = Waited_event \<and> be_backoff l = evidence)
         then e\<lparr>ed_events := butlast (ed_events e) @ [(last (ed_events e))\<lparr>be_wait_ms :=
                         map_option (\<lambda>w. w + millis sleep) (be_wait_ms (last (ed_events e)))\<rparr>]\<rparr>
         else push_event ev e)"

definition wait_round :: "string \<Rightarrow> duration \<Rightarrow> duration \<Rightarrow> backoff \<Rightarrow> edge \<Rightarrow> uuid option round \<times> edge" where
  "wait_round url allowance wait b e =
     (let budget = min (spendable e) allowance;
          sleep = sleep_for budget wait b;
          e1 = note_wait url budget wait b e
      in if wait_refused budget wait b then (Stops (In_backoff (told_of (ed_pace e) (ed_utc e) budget b)), e1)
         else (Again (allowance - sleep), budget_sleep sleep e1))"

definition send_round ::
  "crawl_env \<Rightarrow> string \<Rightarrow> string \<Rightarrow> duration \<Rightarrow> duration option \<Rightarrow> edge \<Rightarrow> uuid option round \<times> edge" where
  "send_round env host url allowance timeout e0 =
     (let e = tick e0
      in case read_backoff env host (ed_store e) of
           Inl _ \<Rightarrow> (Stops (Store_fault Fault_record), backoff_error url Fault_record e)
         | Inr None \<Rightarrow> (Goes None, e)
         | Inr (Some b) \<Rightarrow>
             let wait = nat (bo_until b - ed_utc e)
             in if wait = 0 then
                  (if bo_failures b = 0 then (Goes None, e)
                   else case timeout of None \<Rightarrow> (Goes None, e) | Some t \<Rightarrow> reserve_send env host url allowance t b e)
                else wait_round url allowance wait b e)"

text \<open>
  Every round that looks again has slept from the budget or has met another process: that bounds the loop.
\<close>

definition rounds_left :: "edge \<Rightarrow> nat" where
  "rounds_left e = ed_budget e + length (ed_moves e)"

lemma tick_moves: "length (ed_moves (tick e)) \<le> length (ed_moves e)" "ed_moves e \<noteq> [] \<Longrightarrow> length (ed_moves (tick e)) < length (ed_moves e)"
  "ed_moves e = [] \<Longrightarrow> tick e = e" "ed_budget (tick e) = ed_budget e"
  by (auto simp: tick_def pass_time_def split: list.splits)

lemma tick_slept: "ed_slept (tick e) = ed_slept e" "ed_pace (tick e) = ed_pace e" "ed_ceiling (tick e) = ed_ceiling e"
  "ed_utc e \<le> ed_utc (tick e)" "ed_elapsed e \<le> ed_elapsed (tick e)"
  by (auto simp: tick_def pass_time_def split: list.splits)

lemma cleared_backoff:
  "read_backoff env h s = Inr (Some b) \<Longrightarrow> bo_failures b \<noteq> 0 \<Longrightarrow> read_backoff env h (clear_temporaries env io h s) = Inr (Some b)"
  by (auto simp: clear_temporaries_def read_backoff_def Let_def split: option.splits store_file.splits)

lemma next_io_fields:
  assumes "next_io e = (io, e1)"
  shows "ed_budget e1 = ed_budget e" "ed_moves e1 = ed_moves e" "ed_store e1 = ed_store e" "ed_slept e1 = ed_slept e"
    "ed_utc e1 = ed_utc e" "ed_elapsed e1 = ed_elapsed e" "ed_ceiling e1 = ed_ceiling e" "ed_pace e1 = ed_pace e"
  using assms by (auto simp: next_io_def split: list.splits)

lemma reserve_send_again:
  assumes "reserve_send env host url allowance t b e = (Again a, e')"
    and b: "read_backoff env host (ed_store e) = Inr (Some b)" "bo_failures b \<noteq> 0"
  shows "rounds_left e' < rounds_left e \<and> a = allowance \<and> ed_slept e' = ed_slept e \<and> ed_budget e' = ed_budget e"
proof -
  obtain io e1 where io: "next_io e = (io, e1)" by (rule prod.exhaust)
  note n = next_io_fields [OF io]
  have "ed_moves e1 \<noteq> []"
  proof
    assume "ed_moves e1 = []"
    then have t: "tick e1 = e1" by (rule tick_moves(3))
    have "read_backoff env host (clear_temporaries env io host (ed_store e1)) = Inr (Some b)"
      unfolding n(3) by (rule cleared_backoff [OF b])
    then have "fst (reserve_send env host url allowance t b e) \<noteq> Again a"
      unfolding reserve_send_def io Let_def prod.case t by (simp split: option.split prod.split)
    with assms(1) show False by simp
  qed
  then have m: "length (ed_moves (tick e1)) < length (ed_moves e)" using tick_moves(2) n(2) by metis
  have "fst (reserve_send env host url allowance t b e) = Again a \<longrightarrow>
      a = allowance \<and> snd (reserve_send env host url allowance t b e) = (tick e1)\<lparr>ed_store := clear_temporaries env io host (ed_store (tick e1))\<rparr>"
    unfolding reserve_send_def io Let_def prod.case by (simp split: option.split sum.split prod.split)
  with m assms(1) show ?thesis by (simp add: rounds_left_def tick_moves(4) tick_slept n)
qed

lemma note_wait_fields [simp]:
  "ed_budget (note_wait url budget wait b e) = ed_budget e" "ed_moves (note_wait url budget wait b e) = ed_moves e"
  "ed_slept (note_wait url budget wait b e) = ed_slept e" "ed_store (note_wait url budget wait b e) = ed_store e"
  "ed_elapsed (note_wait url budget wait b e) = ed_elapsed e" "ed_ceiling (note_wait url budget wait b e) = ed_ceiling e"
  "ed_pace (note_wait url budget wait b e) = ed_pace e"
  by (simp_all add: note_wait_def Let_def push_event_def)

lemma budget_sleep_fields [simp]:
  "ed_budget (budget_sleep w e) = ed_budget e - w" "ed_slept (budget_sleep w e) = ed_slept e + w"
  "ed_moves (budget_sleep w e) = ed_moves e" "ed_elapsed (budget_sleep w e) = ed_elapsed e + w"
  "ed_ceiling (budget_sleep w e) = ed_ceiling e" "ed_store (budget_sleep w e) = ed_store e"
  "ed_pace (budget_sleep w e) = ed_pace e"
  by (simp_all add: budget_sleep_def pass_time_def)

lemma wait_round_again:
  assumes "wait_round url allowance wait b e = (Again a, e')" "0 < wait"
  shows "\<exists>w. 0 < w \<and> w \<le> allowance \<and> w \<le> spendable e \<and> a = allowance - w
     \<and> ed_slept e' = ed_slept e + w \<and> ed_budget e' = ed_budget e - w \<and> ed_moves e' = ed_moves e"
proof -
  define budget where "budget = min (spendable e) allowance"
  from assms(1) have n: "\<not> wait_refused budget wait b" and a: "a = allowance - sleep_for budget wait b"
    and e': "e' = budget_sleep (sleep_for budget wait b) (note_wait url budget wait b e)"
    unfolding wait_round_def Let_def budget_def [symmetric] by (simp_all split: if_splits)
  have "0 < sleep_for budget wait b" "sleep_for budget wait b \<le> budget"
    using n assms(2) by (auto simp: wait_refused_def sleep_for_def poll_interval_def from_millis_def split: if_splits)
  moreover have "budget \<le> spendable e" "budget \<le> allowance" by (simp_all add: budget_def)
  ultimately show ?thesis
    by (intro exI [of _ "sleep_for budget wait b"]) (simp add: a e')
qed

lemma send_round_again:
  assumes "send_round env host url allowance timeout e = (Again a, e')"
  shows "rounds_left e' < rounds_left e" "\<exists>w. w \<le> allowance \<and> w \<le> ed_budget e \<and> a = allowance - w
     \<and> ed_slept e' = ed_slept e + w \<and> ed_budget e' = ed_budget e - w"
proof -
  from assms obtain b where b: "read_backoff env host (ed_store (tick e)) = Inr (Some b)"
    by (auto simp: send_round_def Let_def split: sum.splits option.splits)
  have t: "rounds_left (tick e) \<le> rounds_left e" "ed_budget (tick e) = ed_budget e" "ed_slept (tick e) = ed_slept e"
    using tick_moves [of e] by (simp_all add: rounds_left_def tick_slept)
  have "rounds_left e' < rounds_left e \<and> (\<exists>w. w \<le> allowance \<and> w \<le> ed_budget e \<and> a = allowance - w
     \<and> ed_slept e' = ed_slept e + w \<and> ed_budget e' = ed_budget e - w)"
  proof (cases "nat (bo_until b - ed_utc (tick e)) = 0")
    case True
    with assms b obtain t where "reserve_send env host url allowance t b (tick e) = (Again a, e')" "bo_failures b \<noteq> 0"
      by (auto simp: send_round_def Let_def split: if_splits option.splits)
    with reserve_send_again [OF this(1) b this(2)] t show ?thesis by auto
  next
    case False
    with assms b have "wait_round url allowance (nat (bo_until b - ed_utc (tick e))) b (tick e) = (Again a, e')"
      by (auto simp: send_round_def Let_def split: if_splits)
    from wait_round_again [OF this] False obtain w where w: "0 < w" "w \<le> allowance" "w \<le> spendable (tick e)" "a = allowance - w"
      "ed_slept e' = ed_slept (tick e) + w" "ed_budget e' = ed_budget (tick e) - w" "ed_moves e' = ed_moves (tick e)" by auto
    have "w \<le> ed_budget (tick e)" using w(3) by (simp add: spendable_def)
    with w t show ?thesis by (intro conjI exI [of _ w]) (simp_all add: rounds_left_def)
  qed
  then show "rounds_left e' < rounds_left e" "\<exists>w. w \<le> allowance \<and> w \<le> ed_budget e \<and> a = allowance - w
     \<and> ed_slept e' = ed_slept e + w \<and> ed_budget e' = ed_budget e - w" by simp_all
qed

function before_host_send ::
  "crawl_env \<Rightarrow> string \<Rightarrow> string \<Rightarrow> duration \<Rightarrow> duration option \<Rightarrow> edge \<Rightarrow> (send_refusal + uuid option) \<times> edge" where
  "before_host_send env host url allowance timeout e =
     (case send_round env host url allowance timeout e of
        (Goes r, e') \<Rightarrow> (Inr r, e')
      | (Stops f, e') \<Rightarrow> (Inl f, e')
      | (Again a, e') \<Rightarrow> before_host_send env host url a timeout e')"
  by pat_completeness auto
termination
  by (relation "measure (\<lambda>(env, host, url, allowance, timeout, e). rounds_left e)") (auto dest!: sym [THEN send_round_again(1)])

declare before_host_send.simps [simp del]


subsection \<open>What a granted send means\<close>

text \<open>The record a granted send leaves, as the send's edge shows it.\<close>

definition granted :: "crawl_env \<Rightarrow> string \<Rightarrow> duration option \<Rightarrow> uuid option \<Rightarrow> edge \<Rightarrow> bool" where
  "granted env host timeout r e =
     (case read_backoff env host (ed_store e) of
        Inl _ \<Rightarrow> False
      | Inr None \<Rightarrow> r = None
      | Inr (Some b) \<Rightarrow>
          (case r of
             None \<Rightarrow> bo_until b \<le> ed_utc e \<and> (bo_failures b = 0 \<or> timeout = None)
           | Some rid \<Rightarrow> (\<exists>t. timeout = Some t \<and> bo_until b = ed_utc e + int (min t (left e)))
               \<and> (case bo_reservation b of Some q \<Rightarrow> rs_id q = rid | None \<Rightarrow> False)))"

lemma replace_turn_file_ok: "replace_turn_file io p f s = (True, s') \<Longrightarrow> cs_files s' p = Some f"
  by (auto simp: replace_turn_file_def Let_def split: option.splits)

lemma reserve_send_goes:
  assumes "reserve_send env host url allowance t b e = (Goes r, e')" "bo_failures b \<noteq> 0"
  shows "granted env host (Some t) r e'"
proof -
  obtain io e1 where io: "next_io e = (io, e1)" by (rule prod.exhaust)
  define e3 where "e3 = (tick e1)\<lparr>ed_store := clear_temporaries env io host (ed_store (tick e1))\<rparr>"
  define b' where "b' = b\<lparr>bo_reservation := Some \<lparr>rs_id = Uuid (ed_next_id e3), rs_failure_until = pause_end b\<rparr>,
     bo_until := ed_utc e3 + int (min t (left e3))\<rparr>"
  obtain ok s where w: "write_backoff env io host b' (ed_store e3) = (ok, s)" by (rule prod.exhaust)
  note r = assms(1) [unfolded reserve_send_def io Let_def prod.case, folded e3_def, folded b'_def, unfolded w prod.case]
  show ?thesis
  proof (cases "read_backoff env host (ed_store e3)")
    case (Inl u)
    with r show ?thesis by (simp split: option.splits)
  next
    case (Inr c)
    show ?thesis
    proof (cases c)
      case None
      with r Inr have "r = None" "e' = e3" by (simp_all split: option.splits)
      with Inr None show ?thesis by (simp add: granted_def)
    next
      case (Some d)
      with r Inr have e': "r = Some (Uuid (ed_next_id e3))" "ok"
         "e' = e3\<lparr>ed_next_id := Suc (ed_next_id e3), ed_store := s, ed_reservations := (ed_reservations e3)(host \<mapsto> Uuid (ed_next_id e3))\<rparr>"
        by (auto split: option.splits if_splits)
      with w have "read_backoff env host s = Inr (Some b')"
        by (simp add: write_backoff_def read_backoff_def replace_turn_file_ok)
      with e' show ?thesis by (simp add: granted_def b'_def left_def)
    qed
  qed
qed

lemma send_round_goes:
  assumes "send_round env host url allowance timeout e = (Goes r, e')"
  shows "granted env host timeout r e'"
proof (cases "read_backoff env host (ed_store (tick e))")
  case (Inl u)
  with assms show ?thesis by (simp add: send_round_def)
next
  case (Inr c)
  show ?thesis
  proof (cases c)
    case None
    with assms Inr have "r = None" "e' = tick e" by (simp_all add: send_round_def)
    with Inr None show ?thesis by (simp add: granted_def)
  next
    case (Some b)
    show ?thesis
    proof (cases "nat (bo_until b - ed_utc (tick e)) = 0 \<and> bo_failures b \<noteq> 0 \<and> timeout \<noteq> None")
      case True
      with assms Inr Some obtain t where "timeout = Some t" "reserve_send env host url allowance t b (tick e) = (Goes r, e')"
        by (auto simp: send_round_def)
      with reserve_send_goes True show ?thesis by auto
    next
      case False
      have "r = None \<and> e' = tick e \<and> bo_until b \<le> ed_utc (tick e)"
      proof (cases "nat (bo_until b - ed_utc (tick e)) = 0")
        case True
        with assms Inr Some False show ?thesis by (auto simp: send_round_def Let_def split: option.splits if_splits)
      next
        case False
        with assms Inr Some show ?thesis by (auto simp: send_round_def wait_round_def Let_def split: if_splits)
      qed
      moreover have "bo_failures b = 0 \<or> timeout = None"
        using False calculation by auto
      ultimately show ?thesis using Inr Some by (simp add: granted_def)
    qed
  qed
qed

lemma backoff_error_fields [simp]:
  "ed_budget (backoff_error url f e) = ed_budget e" "ed_slept (backoff_error url f e) = ed_slept e"
  by (simp_all add: backoff_error_def push_event_def)

lemma reserve_send_kept:
  "ed_slept (snd (reserve_send env host url allowance t b e)) = ed_slept e
   \<and> ed_budget (snd (reserve_send env host url allowance t b e)) = ed_budget e"
proof -
  obtain io e1 where io: "next_io e = (io, e1)" by (rule prod.exhaust)
  show ?thesis
    unfolding reserve_send_def io Let_def prod.case
    by (simp add: tick_slept tick_moves next_io_fields [OF io] split: option.split sum.split prod.split)
qed

lemma send_round_kept:
  "send_round env host url allowance timeout e = (Goes r, e') \<Longrightarrow> ed_slept e' = ed_slept e \<and> ed_budget e' = ed_budget e"
  "send_round env host url allowance timeout e = (Stops f, e') \<Longrightarrow> ed_slept e' = ed_slept e \<and> ed_budget e' = ed_budget e"
proof -
  have "(case fst (send_round env host url allowance timeout e) of Again a \<Rightarrow> True
      | _ \<Rightarrow> ed_slept (snd (send_round env host url allowance timeout e)) = ed_slept e
           \<and> ed_budget (snd (send_round env host url allowance timeout e)) = ed_budget e)"
    unfolding send_round_def wait_round_def Let_def
    by (simp add: tick_slept tick_moves reserve_send_kept split: sum.split option.split round.split)
  then show "send_round env host url allowance timeout e = (Goes r, e') \<Longrightarrow> ed_slept e' = ed_slept e \<and> ed_budget e' = ed_budget e"
    "send_round env host url allowance timeout e = (Stops f, e') \<Longrightarrow> ed_slept e' = ed_slept e \<and> ed_budget e' = ed_budget e"
    by simp_all
qed

lemma before_host_send_run:
  assumes "before_host_send env host url allowance timeout e = (res, e')"
  shows "(case res of Inr r \<Rightarrow> granted env host timeout r e' | Inl f \<Rightarrow> True)
     \<and> (\<exists>w. w \<le> allowance \<and> w \<le> ed_budget e \<and> ed_slept e' = ed_slept e + w \<and> ed_budget e' = ed_budget e - w)"
  using assms
proof (induction env host url allowance timeout e rule: before_host_send.induct)
  case (1 env host url allowance timeout e)
  show ?case
  proof (cases "send_round env host url allowance timeout e")
    case (Pair rd e1)
    show ?thesis
    proof (cases rd)
      case (Goes r)
      with Pair 1(2) have "res = Inr r" "e' = e1" by (simp_all add: before_host_send.simps)
      with send_round_goes Pair Goes send_round_kept(1) [of env host url allowance timeout e] show ?thesis
        by (auto intro!: exI [of _ 0])
    next
      case (Stops f)
      with Pair 1(2) have "res = Inl f" "e' = e1" by (simp_all add: before_host_send.simps)
      with Pair Stops send_round_kept(2) [of env host url allowance timeout e] show ?thesis
        by (auto intro!: exI [of _ 0])
    next
      case (Again a)
      with Pair 1(2) have b: "before_host_send env host url a timeout e1 = (res, e')" by (simp add: before_host_send.simps)
      from send_round_again(2) Pair Again obtain w where w: "w \<le> allowance" "w \<le> ed_budget e" "a = allowance - w"
        "ed_slept e1 = ed_slept e + w" "ed_budget e1 = ed_budget e - w" by blast
      from 1(1) [OF Pair [symmetric] Again b] obtain v where v: "v \<le> a" "v \<le> ed_budget e1"
        "ed_slept e' = ed_slept e1 + v" "ed_budget e' = ed_budget e1 - v"
        and g: "case res of Inr r \<Rightarrow> granted env host timeout r e' | Inl f \<Rightarrow> True" by blast
      from v w g show ?thesis by (intro conjI exI [of _ "w + v"]) simp_all
    qed
  qed
qed

subsection \<open>The operations of a call\<close>

text \<open>\<open>grounding::host_of\<close>; \<open>url::Url\<close>'s \<open>host_str\<close> is the parameter \<open>host_str\<close>.\<close>

definition host_of :: "(string \<Rightarrow> string option) \<Rightarrow> string \<Rightarrow> string" where
  "host_of host_str url = (case host_str url of Some h \<Rightarrow> rev (dropWhile (\<lambda>c. c = CHR ''.'') (rev h)) | None \<Rightarrow> [])"

definition pacing_with_budget :: "duration \<Rightarrow> pace \<Rightarrow> crawl_store \<Rightarrow> instant \<Rightarrow> move list \<Rightarrow> store_io list \<Rightarrow> nat \<Rightarrow> edge" where
  "pacing_with_budget budget p s now moves ios next' =
     \<lparr>ed_budget = budget, ed_delays = Map.empty, ed_pace = p, ed_ceiling = call_ceiling p, ed_events = [],
      ed_reservations = Map.empty, ed_reserve = 0, ed_store = s, ed_elapsed = 0, ed_utc = now, ed_moves = moves,
      ed_ios = ios, ed_next_id = next', ed_slept = 0\<rparr>"

definition pacing_new :: "pace \<Rightarrow> crawl_store \<Rightarrow> instant \<Rightarrow> move list \<Rightarrow> store_io list \<Rightarrow> nat \<Rightarrow> edge" where
  "pacing_new p = pacing_with_budget (wait_budget p) p"

definition end_probe :: "edge \<Rightarrow> edge" where
  "end_probe e = e\<lparr>ed_reserve := 0\<rparr>"

definition turn_within ::
  "crawl_env \<Rightarrow> string \<Rightarrow> duration \<Rightarrow> duration \<Rightarrow> instant \<Rightarrow> edge \<Rightarrow> delay_ruling \<times> edge" where
  "turn_within env host delay budget now e =
     (let (io, e1) = next_io e;
          (r, s) = take_turn env io host delay budget now (ed_pace e1) (ed_store e1);
          e2 = budget_sleep (sleep_of r) (e1\<lparr>ed_store := s\<rparr>)
      in (if \<not> names_the_edge (ed_pace e2) \<and> dr_outcome r = Refused_turn then withhold_times r else r, e2))"

definition pacing_turn :: "crawl_env \<Rightarrow> string \<Rightarrow> duration \<Rightarrow> instant \<Rightarrow> edge \<Rightarrow> delay_ruling \<times> edge" where
  "pacing_turn env host delay now e0 = (let e = tick e0 in turn_within env host delay (spendable e) now e)"

definition pending_wait :: "crawl_env \<Rightarrow> string \<Rightarrow> instant \<Rightarrow> edge \<Rightarrow> duration" where
  "pending_wait env host now e =
     (case delay_ms host e of Some ms \<Rightarrow> pending_wait_store env host (from_millis (unat ms)) now (ed_store e) | None \<Rightarrow> 0)"

definition before_turn :: "crawl_env \<Rightarrow> string \<Rightarrow> duration \<Rightarrow> edge \<Rightarrow> (send_refusal + uuid option) \<times> edge" where
  "before_turn env host allowance e = before_host_send env host host allowance None e"

datatype probe_refusal =
    Call_over
  | Needed_after
  | Probe_backoff send_refusal
  | Probe_turn delay_ruling

definition probe_within ::
  "crawl_env \<Rightarrow> (string \<Rightarrow> string option) \<Rightarrow> string \<Rightarrow> instant \<Rightarrow> duration \<Rightarrow> edge \<Rightarrow> (probe_refusal + instant) \<times> edge" where
  "probe_within env host_str url now budget start =
     (let e0 = tick start
      in if over_ceiling e0 then (Inl Call_over, e0)
      else
        let e1 = e0\<lparr>ed_reserve := spendable e0 - budget\<rparr>;
            host = host_of host_str url
        in case before_turn env host budget e1 of
             (Inl f, e2) \<Rightarrow> (Inl (Probe_backoff f), e2)
           | (Inr _, e2) \<Rightarrow>
               let waited = ed_budget e1 - ed_budget e2;
                   now = (if waited = 0 then now else ed_utc e2);
                   budget = budget - waited
               in case delay_ms host e2 of
                    None \<Rightarrow> (Inr now, e2)
                  | Some ms \<Rightarrow>
                      let (r, e3) = turn_within env host (from_millis (unat ms)) budget now e2
                      in (if sends r
                          then Inr (case checked_add_signed env now
                                 (int (from_millis (unat (case dr_wait_ms r of Some w \<Rightarrow> w | None \<Rightarrow> 0)))) of Some t \<Rightarrow> t | None \<Rightarrow> now)
                          else Inl (Probe_turn r), e3))"

definition probe :: "crawl_env \<Rightarrow> (string \<Rightarrow> string option) \<Rightarrow> string \<Rightarrow> instant \<Rightarrow> edge \<Rightarrow> (probe_refusal + instant) \<times> edge" where
  "probe env hs url now e0 = (let e = tick e0 in probe_within env hs url now (spendable e) e)"

definition probe_reserving ::
  "crawl_env \<Rightarrow> (string \<Rightarrow> string option) \<Rightarrow> string \<Rightarrow> instant \<Rightarrow> duration \<Rightarrow> edge \<Rightarrow> (probe_refusal + instant) \<times> edge" where
  "probe_reserving env hs url now reserve e0 =
     (let e = tick e0
      in if spendable e < reserve then (Inl Needed_after, e)
         else probe_within env hs url now (spendable e - reserve) e)"

definition probe_hop :: "crawl_env \<Rightarrow> (string \<Rightarrow> string option) \<Rightarrow> string \<Rightarrow> instant \<Rightarrow> edge \<Rightarrow> (probe_refusal + instant) \<times> edge" where
  "probe_hop env hs url now e0 = (let e = tick e0 in probe_within env hs url now (spendable e - ed_reserve e) e)"

definition free_probe :: "crawl_env \<Rightarrow> (string \<Rightarrow> string option) \<Rightarrow> string \<Rightarrow> instant \<Rightarrow> edge \<Rightarrow> (probe_refusal + instant) \<times> edge" where
  "free_probe env hs url now e = probe_within env hs url now 0 e"

definition sent :: "crawl_env \<Rightarrow> (string \<Rightarrow> string option) \<Rightarrow> string \<Rightarrow> edge \<Rightarrow> turn_fault option \<times> edge" where
  "sent env hs url e0 =
     (let host = host_of hs url
      in if delay_ms host e0 = None then (None, e0)
         else let e = tick e0; (io, e1) = next_io e; (fault, s) = sent_store env io host (ed_utc e1) (ed_store e1)
              in (fault, e1\<lparr>ed_store := s\<rparr>))"

definition before_send ::
  "crawl_env \<Rightarrow> (string \<Rightarrow> string option) \<Rightarrow> string \<Rightarrow> duration \<Rightarrow> edge \<Rightarrow> (send_refusal + (string \<times> uuid) option) \<times> edge" where
  "before_send env hs url timeout e0 =
     (let e = tick e0; host = host_of hs url;
          (r, e1) = before_host_send env host url (spendable e - ed_reserve e) (Some timeout) e
      in (res_map (map_option (\<lambda>rid. (host, rid))) r, e1))"

text \<open>\<open>Pacing::release\<close>, which dropping a \<open>Reserved\<close> calls; a failed release is ignored.\<close>

definition release_send :: "crawl_env \<Rightarrow> string \<Rightarrow> uuid \<Rightarrow> edge \<Rightarrow> edge" where
  "release_send env host rid e =
     (if ed_reservations e host \<noteq> Some rid then e
      else
        let e1 = tick (e\<lparr>ed_reservations := (ed_reservations e)(host := None)\<rparr>);
            (io, e2) = next_io e1;
            (ok, s) = release_store env io host rid (ed_utc e2) (ed_store e2)
        in e2\<lparr>ed_store := s\<rparr>)"

fun drop_reserved :: "crawl_env \<Rightarrow> (string \<times> uuid) option \<Rightarrow> edge \<Rightarrow> edge" where
  "drop_reserved env None e = e"
| "drop_reserved env (Some (host, rid)) e = release_send env host rid e"

definition edge_answered ::
  "crawl_env \<Rightarrow> chrono \<Rightarrow> (string \<Rightarrow> string option) \<Rightarrow> string \<Rightarrow> u16 \<Rightarrow> string option \<Rightarrow> edge \<Rightarrow> (store_fault + unit) \<times> edge" where
  "edge_answered env ch hs url status retry_after e0 =
     (let e = tick e0; host = host_of hs url;
          (io, e1) = next_io e;
          (recorded, s) = answer env ch io host status retry_after (ed_utc e1) (ed_reservations e1 host) (ed_store e1);
          e2 = e1\<lparr>ed_store := s\<rparr>;
          e3 = (if (case recorded of Inr _ \<Rightarrow> True | Inl _ \<Rightarrow> is_failure status)
                then e2\<lparr>ed_reservations := (ed_reservations e2)(host := None)\<rparr> else e2)
      in case recorded of
           Inl f \<Rightarrow> (Inl f, backoff_error url f e3)
         | Inr None \<Rightarrow> (Inr (), e3)
         | Inr (Some b) \<Rightarrow> (Inr (), push_event \<lparr>be_target = url,
              be_outcome = (if bo_failures b = 0 then Reset_event else Set_event),
              be_backoff = Some (evidence_of (ed_pace e3) b), be_wait_ms = None, be_budget_ms = None, be_reason = None\<rparr> e3))"

subsection \<open>Calls in any order\<close>

datatype pacing_op =
    Learn string u64
  | Turn string duration instant
  | Probe string instant
  | Probe_reserving string instant duration
  | Probe_hop string instant
  | Free_probe string instant
  | End_probe
  | Sent string
  | Before_send string duration
  | Drop_reserved "(string \<times> uuid) option"
  | Answered string u16 "string option"

fun apply_op :: "crawl_env \<Rightarrow> chrono \<Rightarrow> (string \<Rightarrow> string option) \<Rightarrow> pacing_op \<Rightarrow> edge \<Rightarrow> edge" where
  "apply_op env ch hs (Learn host ms) e = learn host ms e"
| "apply_op env ch hs (Turn host delay now) e = snd (pacing_turn env host delay now e)"
| "apply_op env ch hs (Probe url now) e = snd (probe env hs url now e)"
| "apply_op env ch hs (Probe_reserving url now reserve) e = snd (probe_reserving env hs url now reserve e)"
| "apply_op env ch hs (Probe_hop url now) e = snd (probe_hop env hs url now e)"
| "apply_op env ch hs (Free_probe url now) e = snd (free_probe env hs url now e)"
| "apply_op env ch hs End_probe e = end_probe e"
| "apply_op env ch hs (Sent url) e = snd (sent env hs url e)"
| "apply_op env ch hs (Before_send url timeout) e = snd (before_send env hs url timeout e)"
| "apply_op env ch hs (Drop_reserved r) e = drop_reserved env r e"
| "apply_op env ch hs (Answered url status retry_after) e = snd (edge_answered env ch hs url status retry_after e)"

definition pacing_ops :: "crawl_env \<Rightarrow> chrono \<Rightarrow> (string \<Rightarrow> string option) \<Rightarrow> pacing_op list \<Rightarrow> edge \<Rightarrow> edge" where
  "pacing_ops env ch hs ops e = fold (apply_op env ch hs) ops e"

text \<open>What is slept comes from the budget, and from nowhere else.\<close>

definition spends :: "duration \<Rightarrow> edge \<Rightarrow> edge \<Rightarrow> bool" where
  "spends most e e' \<longleftrightarrow> (\<exists>w. w \<le> most \<and> w \<le> ed_budget e \<and> ed_slept e' = ed_slept e + w \<and> ed_budget e' = ed_budget e - w)"

lemma spends_trans: "spends a e e1 \<Longrightarrow> spends b e1 e2 \<Longrightarrow> spends (a + b) e e2"
  unfolding spends_def by (elim exE) (rename_tac v w, rule_tac x = "v + w" in exI, auto)

lemma spends_mono: "spends a e e1 \<Longrightarrow> a \<le> b \<Longrightarrow> spends b e e1"
  unfolding spends_def by (elim exE) (rename_tac v, rule_tac x = v in exI, auto)

lemma spends_same: "ed_slept e' = ed_slept e \<Longrightarrow> ed_budget e' = ed_budget e \<Longrightarrow> spends a e e'"
  unfolding spends_def by (rule exI [of _ 0]) auto

lemma spends_tick: "spends a (tick e) e' \<Longrightarrow> spends a e e'"
  by (simp add: spends_def tick_slept tick_moves)

lemma before_host_send_spends: "spends allowance e (snd (before_host_send env host url allowance timeout e))"
  using before_host_send_run [of env host url allowance timeout e]
  by (cases "before_host_send env host url allowance timeout e") (auto simp: spends_def)

lemma take_turn_sleeps: "take_turn env io host delay budget now p s = (r, s') \<Longrightarrow> sleep_of r \<le> budget"
  using take_turn_run(1,2,4) [of env io host delay budget now p s r s'] by (cases "sends r") auto

lemma turn_within_spends:
  assumes "budget \<le> ed_budget e"
  shows "spends budget e (snd (turn_within env host delay budget now e))"
proof -
  obtain io e1 where io: "next_io e = (io, e1)" by (rule prod.exhaust)
  obtain r s where t: "take_turn env io host delay budget now (ed_pace e1) (ed_store e1) = (r, s)" by (rule prod.exhaust)
  show ?thesis
    unfolding turn_within_def io t Let_def prod.case spends_def
    using take_turn_sleeps [OF t] assms
    by (intro exI [of _ "sleep_of r"]) (simp add: next_io_fields [OF io])
qed

lemma turn_within_spends_from:
  assumes "turn_within env host delay budget now e = (r, e')" "budget \<le> ed_budget e"
  shows "spends budget e e'"
  using turn_within_spends [OF assms(2), of env host delay now] by (simp add: assms(1))

lemma probe_within_spends:
  assumes "budget \<le> ed_budget e"
  shows "spends budget e (snd (probe_within env hs url now budget e))"
proof (cases "over_ceiling (tick e)")
  case True
  then show ?thesis by (simp add: probe_within_def Let_def spends_same tick_slept tick_moves)
next
  case False
  define e1 where "e1 = (tick e)\<lparr>ed_reserve := spendable (tick e) - budget\<rparr>"
  have e1: "ed_slept e1 = ed_slept e" "ed_budget e1 = ed_budget e" by (simp_all add: e1_def tick_slept tick_moves)
  define host where "host = host_of hs url"
  obtain f e2 where b: "before_turn env host budget e1 = (f, e2)" by (rule prod.exhaust)
  then have "spends budget e1 e2" using before_host_send_spends [of budget e1 env host host None] by (simp add: before_turn_def)
  then obtain w where w: "w \<le> budget" "w \<le> ed_budget e1" "ed_slept e2 = ed_slept e1 + w" "ed_budget e2 = ed_budget e1 - w"
    by (auto simp: spends_def)
  have waited: "ed_budget e1 - ed_budget e2 = w" using w by simp
  have two: "spends budget e e2" using w e1 by (auto simp: spends_def)
  show ?thesis
  proof (cases "\<exists>g. f = Inr g \<and> delay_ms host e2 \<noteq> None")
    case True
    then obtain g ms where g: "f = Inr g" "delay_ms host e2 = Some ms" by auto
    define now' where "now' = (if w = 0 then now else ed_utc e2)"
    obtain r e3 where t: "turn_within env host (from_millis (unat ms)) (budget - w) now' e2 = (r, e3)" by (rule prod.exhaust)
    have "spends (budget - w) e2 e3" by (rule turn_within_spends_from [OF t]) (use w assms e1 in simp)
    then have "spends budget e e3" using w e1 assms by (auto simp: spends_def)
    moreover have "snd (probe_within env hs url now budget e) = e3"
      unfolding probe_within_def Let_def e1_def [symmetric] host_def [symmetric] b waited
      using False by (simp add: g waited t now'_def [symmetric])
    ultimately show ?thesis by simp
  next
    case nothing_more: False
    then have "snd (probe_within env hs url now budget e) = e2"
      unfolding probe_within_def Let_def e1_def [symmetric] host_def [symmetric] b
      using False by (auto split: sum.split option.split)
    with two show ?thesis by simp
  qed
qed

lemma release_spends: "spends a e (release_send env host rid e)"
proof -
  let ?e = "tick (e\<lparr>ed_reservations := (ed_reservations e)(host := None)\<rparr>)"
  obtain io e2 where io: "next_io ?e = (io, e2)" by (rule prod.exhaust)
  show ?thesis
    unfolding release_send_def io Let_def prod.case
    by (intro spends_same) (simp_all add: tick_slept tick_moves next_io_fields [OF io] split: prod.split)
qed

lemma answered_spends: "spends a e (snd (edge_answered env ch hs url status retry_after e))"
proof -
  obtain io e1 where io: "next_io (tick e) = (io, e1)" by (rule prod.exhaust)
  show ?thesis
    unfolding edge_answered_def io Let_def prod.case
    by (intro spends_same)
      (simp_all add: push_event_def tick_slept tick_moves next_io_fields [OF io] split: prod.split sum.split option.split)
qed

lemma sent_spends: "spends a e (snd (sent env hs url e))"
proof -
  obtain io e1 where io: "next_io (tick e) = (io, e1)" by (rule prod.exhaust)
  show ?thesis
    unfolding sent_def io Let_def prod.case
    by (intro spends_same) (simp_all add: tick_slept tick_moves next_io_fields [OF io] split: prod.split)
qed

lemma spendable_le: "spendable e \<le> ed_budget e"
  by (simp add: spendable_def)

lemma apply_op_spends: "spends (ed_budget e) e (apply_op env ch hs oper e)"
proof -
  have le: "spendable (tick e) \<le> ed_budget e" "spendable (tick e) \<le> ed_budget (tick e)" "spendable (tick e) - x \<le> ed_budget (tick e)"
    "spendable (tick e) - x \<le> ed_budget e" for x
    using spendable_le [of "tick e"] tick_moves(4) [of e] by simp_all
  show ?thesis
  proof (cases oper)
    case (Turn host delay now)
    show ?thesis unfolding Turn apply_op.simps pacing_turn_def Let_def
      by (rule spends_tick, rule spends_mono [OF turn_within_spends], rule le, rule le)
  next
    case (Probe url now)
    show ?thesis unfolding Probe apply_op.simps probe_def Let_def
      by (rule spends_tick, rule spends_mono [OF probe_within_spends], rule le, rule le)
  next
    case (Probe_reserving url now reserve)
    have "spends (ed_budget e) e (snd (probe_within env hs url now (spendable (tick e) - reserve) (tick e)))"
      by (rule spends_tick, rule spends_mono [OF probe_within_spends], rule le, rule le)
    moreover have "spends (ed_budget e) e (tick e)" by (rule spends_same) (simp_all add: tick_slept tick_moves)
    ultimately show ?thesis unfolding Probe_reserving apply_op.simps probe_reserving_def Let_def by simp
  next
    case (Probe_hop url now)
    show ?thesis unfolding Probe_hop apply_op.simps probe_hop_def Let_def
      by (rule spends_tick, rule spends_mono [OF probe_within_spends], rule le, rule le)
  next
    case (Free_probe url now)
    show ?thesis unfolding Free_probe apply_op.simps free_probe_def
      by (intro spends_mono [OF probe_within_spends]) simp_all
  next
    case (Before_send url timeout)
    show ?thesis unfolding Before_send apply_op.simps before_send_def Let_def
      using spends_tick [OF spends_mono [OF before_host_send_spends le(4)]]
      by (simp add: case_prod_beta')
  next
    case (Drop_reserved r)
    show ?thesis unfolding Drop_reserved apply_op.simps
      by (cases "(env, r, e)" rule: drop_reserved.cases) (auto intro: release_spends spends_same)
  qed (simp_all add: learn_def end_probe_def answered_spends sent_spends spends_same)
qed

lemma apply_ops_spend: "spends (ed_budget e) e (pacing_ops env ch hs ops e)"
proof (induction ops arbitrary: e)
  case Nil
  show ?case by (simp add: pacing_ops_def spends_same)
next
  case (Cons oper ops)
  from apply_op_spends [of e env ch hs oper] obtain w where w: "w \<le> ed_budget e"
    "ed_slept (apply_op env ch hs oper e) = ed_slept e + w" "ed_budget (apply_op env ch hs oper e) = ed_budget e - w"
    by (auto simp: spends_def)
  from Cons [of "apply_op env ch hs oper e"] obtain v where "v \<le> ed_budget (apply_op env ch hs oper e)"
    "ed_slept (pacing_ops env ch hs ops (apply_op env ch hs oper e)) = ed_slept (apply_op env ch hs oper e) + v"
    "ed_budget (pacing_ops env ch hs ops (apply_op env ch hs oper e)) = ed_budget (apply_op env ch hs oper e) - v"
    by (auto simp: spends_def)
  with w show ?case unfolding spends_def by (intro exI [of _ "w + v"]) (simp add: pacing_ops_def)
qed

subsection \<open>What an answer does to the pause\<close>

lemma weigh_previous_pause:
  assumes "bo_reservation new = None"
  shows "pause_end (weigh_previous owns old new) = max (pause_end old) (bo_until new)"
    "bo_failures (weigh_previous owns old new) = bo_failures new"
    "\<not> owns \<Longrightarrow> bo_reservation old = Some r \<Longrightarrow> bo_until old \<le> bo_until (weigh_previous owns old new)
       \<and> (case bo_reservation (weigh_previous owns old new) of Some q \<Rightarrow> rs_id q = rs_id r | None \<Rightarrow> False)"
  using assms by (auto simp: weigh_previous_def Let_def pause_end_def max_def split: option.split)

text \<open>No date is digits alone: every format \<open>chrono\<close> is asked for names its month.\<close>

definition dates_ok :: "chrono \<Rightarrow> bool" where
  "dates_ok ch \<longleftrightarrow> (\<forall>v. all_digits v \<longrightarrow> ch_rfc2822 ch v = None \<and> (\<forall>f. ch_naive ch f v = None))"

lemma trim_idem [simp]: "trim (trim s) = trim s"
proof (cases "dropWhile is_space s")
  case Nil
  then have "trim s = []" by (simp only: trim_def rev.simps dropWhile.simps)
  moreover have "trim [] = []" by (simp add: trim_def)
  ultimately show ?thesis by (simp only:)
next
  case (Cons c t)
  then have c: "\<not> is_space c" by (metis hd_dropWhile list.discI list.sel(1))
  have "\<exists>u. dropWhile is_space (rev t @ [c]) = u @ [c] \<and> dropWhile is_space u = u"
  proof (cases "\<forall>x \<in> set (rev t). is_space x")
    case True
    then have "dropWhile is_space (rev t @ [c]) = dropWhile is_space [c]" by (intro dropWhile_append2) simp
    then show ?thesis using c by (intro exI [of _ "[]"]) simp
  next
    case False
    then show ?thesis by (intro exI [of _ "dropWhile is_space (rev t)"]) (auto simp: dropWhile_append1 dropWhile_idem)
  qed
  then obtain u where u: "dropWhile is_space (rev t @ [c]) = u @ [c]" by blast
  then have t: "trim s = c # rev u" by (simp add: trim_def Cons)
  have "dropWhile is_space (u @ [c]) = u @ [c]" unfolding u [symmetric] by simp
  then show ?thesis unfolding t using c by (simp add: trim_def)
qed

lemma failed_answer_bounds:
  assumes "dates_ok ch"
  shows "now \<le> bo_until (failed_answer ch status ra now n)"
    "bo_until (failed_answer ch status ra now n) < now + int (from_secs retry_after_cap) + 1000000"
proof -
  show "now \<le> bo_until (failed_answer ch status ra now n)" by (simp add: failed_answer_def Let_def)
  have date: "d < now + int (from_secs retry_after_cap) + 1000000"
    if "retry_after_seconds ch v now = Some k" "k \<le> retry_after_cap" "retry_after_date ch v = Some d" for v k d
  proof -
    have "\<not> all_digits (trim v)" using that(3) assms by (auto simp: retry_after_date_def dates_ok_def)
    moreover have "retry_after_date ch (trim v) = Some d" using that(3) by (simp only: retry_after_date_def trim_idem)
    ultimately have "k = (nat (d - now) div 1000000 + 999) div 1000"
      using that(1) by (simp add: retry_after_seconds_def Let_def)
    with that(2) have "nat (d - now) div 1000000 + 999 < 3601 * 1000"
      by (simp add: retry_after_cap_def less_eq_div_iff_mult_less_eq flip: not_less)
    then have "nat (d - now) < 3600001 * 1000000" by (simp add: div_less_iff_less_mult)
    then show ?thesis by (simp add: from_secs_def retry_after_cap_def)
  qed
  have "from_secs (min k retry_after_cap) \<le> from_secs retry_after_cap" for k by (simp add: from_secs_def)
  then have "now + int (from_secs (min k retry_after_cap)) < now + int (from_secs retry_after_cap) + 1000000" for k
    by (smt (verit) of_nat_le_iff)
  with date show "bo_until (failed_answer ch status ra now n) < now + int (from_secs retry_after_cap) + 1000000"
    by (auto simp: failed_answer_def Let_def split: option.split)
qed

lemma failure_count_pos: "bo_failures old \<noteq> 0 \<Longrightarrow> failure_count (Some old) now \<noteq> 0"
proof -
  assume "bo_failures old \<noteq> 0"
  then have "unat (bo_failures old) \<noteq> 0" by (simp add: word_unat_eq_iff)
  moreover have "unat (saturating_add (bo_failures old) 1) = min (unat (bo_failures old) + 1) (2 ^ 32 - 1)"
    by (simp add: unat_saturating_add)
  ultimately show ?thesis by (auto simp: failure_count_def word_unat_eq_iff)
qed

text \<open>The loop with a bound on its rounds.\<close>

fun send_loop ::
  "nat \<Rightarrow> crawl_env \<Rightarrow> string \<Rightarrow> string \<Rightarrow> duration \<Rightarrow> duration option \<Rightarrow> edge \<Rightarrow> ((send_refusal + uuid option) \<times> edge) option" where
  "send_loop 0 env host url allowance timeout e = None"
| "send_loop (Suc n) env host url allowance timeout e =
     (case send_round env host url allowance timeout e of
        (Goes r, e') \<Rightarrow> Some (Inr r, e')
      | (Stops f, e') \<Rightarrow> Some (Inl f, e')
      | (Again a, e') \<Rightarrow> send_loop n env host url a timeout e')"

lemma send_loop_ends:
  "rounds_left e < n \<Longrightarrow> send_loop n env host url allowance timeout e = Some (before_host_send env host url allowance timeout e)"
proof (induction n arbitrary: e allowance)
  case (Suc n)
  show ?case
  proof (cases "send_round env host url allowance timeout e")
    case (Pair rd e1)
    show ?thesis
    proof (cases rd)
      case (Again a)
      with send_round_again(1) Pair Suc.prems have "rounds_left e1 < n" by fastforce
      with Suc.IH Pair Again show ?thesis by (simp add: before_host_send.simps)
    qed (use Pair in \<open>simp_all add: before_host_send.simps\<close>)
  qed
qed simp

subsection \<open>Properties\<close>


text \<open>
  C16. A call sleeps within its budget: over any operations of one call in any order, on any store and
  whatever other processes do, what was slept and what is left make up the pace's wait budget, one minute
  on a person's own edge and twenty seconds on a hosted one.
\<close>

theorem waiting_stays_in_the_budget:
  fixes p s now moves ios n
  defines "start \<equiv> pacing_new p s now moves ios n"
  shows "ed_slept (pacing_ops env ch hs ops start) + ed_budget (pacing_ops env ch hs ops start) = wait_budget p"
proof -
  have "ed_slept start = 0" "ed_budget start = wait_budget p" by (simp_all add: start_def pacing_new_def pacing_with_budget_def)
  with apply_ops_spend [of start env ch hs ops] show ?thesis by (auto simp: spends_def)
qed

text \<open>
  C17. The wait before a send ends: the loop stops within as many rounds as there are nanoseconds of budget
  and interventions of other processes, since a round that looks again has slept from the budget or has met
  one of them.
\<close>

theorem send_wait_ends:
  "send_loop (Suc (rounds_left e)) env host url allowance timeout e
     = Some (before_host_send env host url allowance timeout e)"
  by (rule send_loop_ends) simp

text \<open>
  A failing answer extends the pause and never shortens it. On a host already in back-off, an answer 429
  or 5xx that is recorded leaves a record whose pause ends no earlier than the one before and than now, and
  no later than the one before or an hour (and a millisecond) from now; the failures count grows by one, and
  only once the earlier pause had ended; and another request's reservation is kept with a deadline no earlier.
\<close>

theorem failure_extends_the_pause:
  assumes "answer env ch io host status ra now rid s = (Inr res, s')" "is_failure status"
    and old: "read_backoff env host s = Inr (Some old)" "bo_failures old \<noteq> 0" and "dates_ok ch"
  shows "\<exists>b. res = Some b \<and> read_backoff env host s' = Inr (Some b)
     \<and> max (pause_end old) now \<le> pause_end b
     \<and> pause_end b < max (pause_end old + 1) (now + int (from_secs retry_after_cap) + 1000000)
     \<and> bo_failures b = (if pause_end old \<le> now then saturating_add (bo_failures old) 1 else bo_failures old)
     \<and> (\<forall>r. bo_reservation old = Some r \<and> rid \<noteq> Some (rs_id r) \<longrightarrow> bo_until old \<le> bo_until b
          \<and> map_option rs_id (bo_reservation b) = Some (rs_id r))"
proof -
  define s1 where "s1 = clear_temporaries env io host s"
  have read: "read_backoff env host s1 = Inr (Some old)" unfolding s1_def by (rule cleared_backoff [OF old])
  define new where "new = failed_answer ch status ra now (failure_count (Some old) now)"
  define owns where "owns = (case bo_reservation old of Some r \<Rightarrow> Some (rs_id r) = rid | None \<Rightarrow> False)"
  define b where "b = weigh_previous owns old new"
  have new: "bo_reservation new = None" "bo_failures new = failure_count (Some old) now"
    by (simp_all add: new_def failed_answer_def Let_def)
  note w = weigh_previous_pause [OF new(1), of owns old, folded b_def]
  have bf: "bo_failures b \<noteq> 0" using w(2) new(2) failure_count_pos [OF old(2)] by simp
  obtain ok s2 where wb: "write_backoff env io host b s1 = (ok, s2)" by (rule prod.exhaust)
  have "\<not> io_create_fails io" "io_lock io = None" and ans: "res = Some b" "s' = s2" ok
    using assms(1,2) read bf wb
    by (auto simp: answer_def s1_def [symmetric] new_def [symmetric] owns_def [symmetric] b_def [symmetric]
        split: if_splits option.splits)
  then have "read_backoff env host s' = Inr (Some b)"
    using wb by (simp add: write_backoff_def read_backoff_def replace_turn_file_ok)
  moreover have "now \<le> bo_until new" "bo_until new < now + int (from_secs retry_after_cap) + 1000000"
    unfolding new_def using failed_answer_bounds [OF assms(5)] by simp_all
  moreover have "bo_failures b = (if pause_end old \<le> now then saturating_add (bo_failures old) 1 else bo_failures old)"
    using w(2) new(2) old(2) by (simp add: failure_count_def)
  moreover have "bo_until old \<le> bo_until b \<and> map_option rs_id (bo_reservation b) = Some (rs_id r)"
    if "bo_reservation old = Some r" "rid \<noteq> Some (rs_id r)" for r
    using w(3) [of r] that by (auto simp: owns_def split: option.splits)
  ultimately show ?thesis using ans(1) w(1) by auto
qed

text \<open>A host after HTTP 503 at time zero, asked by two requests.\<close>

definition sample_backoff :: backoff where
  "sample_backoff = \<lparr>bo_failures = 1, bo_status = 503, bo_until = int (from_secs 10), bo_retry_after = False,
     bo_capped = False, bo_http_date = None, bo_reservation = None\<rparr>"

definition sample_store :: crawl_store where
  "sample_store = \<lparr>cs_files = [''a.backoff.json'' \<mapsto> Backoff_record sample_backoff], cs_swept = {''a.json''}\<rparr>"

definition sample_chrono :: chrono where
  "sample_chrono = \<lparr>ch_rfc2822 = (\<lambda>v. None), ch_naive = (\<lambda>f v. None)\<rparr>"

definition sample_edge :: edge where
  "sample_edge = pacing_new Own sample_store (int (from_secs 20)) [] [] 0"

lemma file_name_a: "file_name env ''a'' = ''a''"
  by (simp add: file_name_def max_name_def is_ascii_alphanumeric_def is_ascii_lower_def byte_of_def)

lemma sample_paths: "backoff_path env ''a'' = ''a.backoff.json''" "turn_path env ''a'' = ''a.json''"
  by (simp_all add: backoff_path_def turn_path_def path_for_def file_name_a)

lemma sample_read: "read_backoff env ''a'' sample_store = Inr (Some sample_backoff)"
  by (simp add: read_backoff_def sample_paths sample_store_def)

lemma sample_clear: "clear_temporaries env io ''a'' sample_store = sample_store"
  by (simp add: clear_temporaries_def sample_paths) (simp add: sample_store_def)


lemma failure_extends_the_pause_witness:
  "\<exists>s' b. answer sample_crawl_env sample_chrono sample_io ''a'' 503 None 0 None sample_store = (Inr (Some b), s')
     \<and> pause_end sample_backoff \<le> pause_end b"
proof -
  obtain res s' where a: "answer sample_crawl_env sample_chrono sample_io ''a'' 503 None 0 None sample_store = (res, s')"
    by (rule prod.exhaust)
  then have "\<exists>v. res = Inr v"
    by (auto simp: answer_def is_failure_def sample_read sample_clear sample_io_def write_backoff_def replace_turn_file_def
        Let_def failed_answer_def sample_backoff_def weigh_previous_def failure_count_def pause_end_def split: if_splits)
  then obtain v where v: "res = Inr v" ..
  from failure_extends_the_pause [OF a [unfolded v] _ sample_read] show ?thesis
    using a v by (simp add: is_failure_def sample_backoff_def dates_ok_def sample_chrono_def) blast
qed

subsection \<open>What a hosted edge discloses\<close>

text \<open>
  The store of a hosted edge is its operator's, and what it holds of a host is other tenants' requests. An event
  it may disclose names no wait, no status and no count of failures, and no instant but one the host stated.
\<close>

fun discreet_reason :: "evidence option \<Rightarrow> told option \<Rightarrow> bool" where
  "discreet_reason evidence (Some (Told_until d)) \<longleftrightarrow> evidence = Some (Host_date d)"
| "discreet_reason evidence (Some (Told_turn_held d s)) \<longleftrightarrow> False"
| "discreet_reason evidence (Some (Told_over_budget d s b)) \<longleftrightarrow> False"
| "discreet_reason evidence _ \<longleftrightarrow> True"

definition discreet :: "backoff_event \<Rightarrow> bool" where
  "discreet ev \<longleftrightarrow> be_wait_ms ev = None \<and> (case be_backoff ev of Some (Own_record b d) \<Rightarrow> False | _ \<Rightarrow> True)
     \<and> discreet_reason (be_backoff ev) (be_reason ev)"

definition hush :: "edge \<Rightarrow> bool" where
  "hush e \<longleftrightarrow> ed_pace e = Hosted \<and> (\<forall>ev \<in> set (ed_events e). discreet ev)"

lemma hush_same: "hush e \<Longrightarrow> ed_pace e' = ed_pace e \<Longrightarrow> ed_events e' = ed_events e \<Longrightarrow> hush e'"
  by (simp add: hush_def)

lemma hush_updates [simp]:
  "hush (e\<lparr>ed_reserve := r\<rparr>) = hush e" "hush (e\<lparr>ed_reservations := m\<rparr>) = hush e" "hush (e\<lparr>ed_store := s\<rparr>) = hush e"
  "hush (e\<lparr>ed_next_id := n\<rparr>) = hush e" "hush (e\<lparr>ed_delays := d\<rparr>) = hush e" "hush (budget_sleep t e) = hush e"
  by (simp_all add: hush_def budget_sleep_def pass_time_def)

lemma hush_tick [simp]: "hush (tick e) = hush e"
  by (simp add: hush_def tick_def pass_time_def split: list.split)

lemma hush_next_io: "next_io e = (io, e1) \<Longrightarrow> hush e1 = hush e"
proof -
  assume io: "next_io e = (io, e1)"
  have "hush (snd (next_io e)) = hush e" by (simp add: hush_def next_io_def split: list.split)
  with io show ?thesis by simp
qed

lemma hush_push [simp]: "hush (push_event ev e) \<longleftrightarrow> hush e \<and> discreet ev"
  by (auto simp: hush_def push_event_def)

lemma hush_error [simp]: "hush (backoff_error url f e) = hush e"
  by (simp add: backoff_error_def discreet_def)

lemma evidence_discreet: "case evidence_of Hosted b of Own_record b' d \<Rightarrow> False | _ \<Rightarrow> True"
  by (simp add: evidence_of_def split: option.split)

lemma reason_discreet: "discreet_reason (Some (evidence_of Hosted b)) (Some (told_of Hosted now budget b))"
  by (simp add: evidence_of_def told_of_def split: option.split)

lemma hush_note_wait:
  assumes "hush e"
  shows "hush (note_wait url budget wait b e)"
proof -
  have old: "discreet ev" if "ev \<in> set (ed_events e)" for ev
    using assms that by (auto simp: hush_def)
  have p: "ed_pace e = Hosted" using assms by (simp add: hush_def)
  have grown: "discreet (ev\<lparr>be_wait_ms := map_option f (be_wait_ms ev)\<rparr>)" if "discreet ev" for ev f
    using that by (simp add: discreet_def)
  have new: "discreet \<lparr>be_target = url, be_outcome = oc, be_backoff = Some (evidence_of Hosted b), be_wait_ms = None,
      be_budget_ms = bm, be_reason = (if c then Some (told_of Hosted (ed_utc e) budget b) else None)\<rparr>" for oc bm c
    using evidence_discreet [of b] reason_discreet [of b "ed_utc e" budget] by (auto simp: discreet_def)
  have last: "ed_events e \<noteq> [] \<Longrightarrow> last (ed_events e) \<in> set (ed_events e)" by simp
  show ?thesis
  proof (cases "held b \<noteq> None \<and> \<not> wait_refused budget wait b \<and> ed_events e \<noteq> []
      \<and> (let l = last (ed_events e) in be_target l = url \<and> be_outcome l = Waited_event \<and> be_backoff l = Some (evidence_of (ed_pace e) b))")
    case True
    then show ?thesis
      unfolding note_wait_def Let_def using assms old last grown
      by (auto simp: hush_def dest!: in_set_butlastD)
  next
    case False
    then have "note_wait url budget wait b e = push_event \<lparr>be_target = url,
        be_outcome = (if wait_refused budget wait b then Refused_event else Waited_event),
        be_backoff = Some (evidence_of Hosted b), be_wait_ms = None, be_budget_ms = Some (millis budget),
        be_reason = (if wait_refused budget wait b then Some (told_of Hosted (ed_utc e) budget b) else None)\<rparr> e"
      unfolding note_wait_def Let_def p by (simp only: if_False pace.simps)
    then show ?thesis using assms new by simp
  qed
qed

lemma hush_reserve_send:
  assumes "hush e"
  shows "hush (snd (reserve_send env host url allowance t b e))"
proof -
  obtain io e1 where io: "next_io e = (io, e1)" by (rule prod.exhaust)
  show ?thesis
    unfolding reserve_send_def io Let_def prod.case
    using assms hush_next_io [OF io] by (simp split: option.split sum.split prod.split)
qed

lemma hush_send_round: "hush e \<Longrightarrow> hush (snd (send_round env host url allowance timeout e))"
  unfolding send_round_def wait_round_def Let_def
  by (auto simp: hush_reserve_send hush_note_wait split: sum.split option.split)

lemma hush_before_host_send: "hush e \<Longrightarrow> hush (snd (before_host_send env host url allowance timeout e))"
proof (induction env host url allowance timeout e rule: before_host_send.induct)
  case (1 env host url allowance timeout e)
  obtain rd e1 where r: "send_round env host url allowance timeout e = (rd, e1)" by (rule prod.exhaust)
  with hush_send_round [OF 1(2), of env host url allowance timeout] have "hush e1" by simp
  with r 1(1) [OF r [symmetric]] show ?case by (subst before_host_send.simps) (auto split: round.split)
qed

lemma hush_turn_within:
  assumes "hush e"
  shows "hush (snd (turn_within env host delay budget now e))"
proof -
  obtain io e1 where io: "next_io e = (io, e1)" by (rule prod.exhaust)
  show ?thesis
    unfolding turn_within_def io Let_def prod.case
    using assms hush_next_io [OF io] by (simp split: prod.split)
qed

lemma hush_probe_within:
  assumes "hush e"
  shows "hush (snd (probe_within env hs url now budget e))"
proof -
  define e1 where "e1 = (tick e)\<lparr>ed_reserve := spendable (tick e) - budget\<rparr>"
  obtain f e2 where b: "before_turn env (host_of hs url) budget e1 = (f, e2)" by (rule prod.exhaust)
  have "hush e1" using assms by (simp add: e1_def)
  with b have e2: "hush e2"
    using hush_before_host_send [of e1 env "host_of hs url" "host_of hs url" budget None] by (simp add: before_turn_def)
  have turn: "hush (snd (let (r, e3) = turn_within env h d bu n e2 in (g r e3, e3)))" for h d bu n and g :: "_ \<Rightarrow> _ \<Rightarrow> probe_refusal + instant"
    using hush_turn_within [OF e2, of env h d bu n] by (simp add: case_prod_beta Let_def)
  show ?thesis
    unfolding probe_within_def Let_def e1_def [symmetric] b
    using assms e2 turn [unfolded Let_def] by (auto split: sum.split option.split)
qed

lemma hush_release: "hush e \<Longrightarrow> hush (release_send env host rid e)"
proof -
  assume e: "hush e"
  obtain io e2 where io: "next_io (tick (e\<lparr>ed_reservations := (ed_reservations e)(host := None)\<rparr>)) = (io, e2)" by (rule prod.exhaust)
  show ?thesis
    unfolding release_send_def io Let_def prod.case
    using e hush_next_io [OF io] by (simp split: prod.split)
qed

lemma hush_answered: "hush e \<Longrightarrow> hush (snd (edge_answered env ch hs url status retry_after e))"
proof -
  assume e: "hush e"
  obtain io e1 where io: "next_io (tick e) = (io, e1)" by (rule prod.exhaust)
  have e1: "hush e1" using hush_next_io [OF io] e by simp
  then have "ed_pace e1 = Hosted" by (simp add: hush_def)
  then have "discreet \<lparr>be_target = url, be_outcome = oc, be_backoff = Some (evidence_of (ed_pace e1) b),
      be_wait_ms = None, be_budget_ms = None, be_reason = None\<rparr>" for oc b
    using evidence_discreet [of b] by (simp add: discreet_def split: evidence.splits)
  then show ?thesis
    unfolding edge_answered_def io Let_def prod.case
    using e1 by (auto split: prod.split sum.split option.split)
qed

lemma hush_sent: "hush e \<Longrightarrow> hush (snd (sent env hs url e))"
proof -
  assume e: "hush e"
  obtain io e1 where io: "next_io (tick e) = (io, e1)" by (rule prod.exhaust)
  show ?thesis
    unfolding sent_def io Let_def prod.case
    using e hush_next_io [OF io] by (simp split: prod.split)
qed

lemma hush_apply: "hush e \<Longrightarrow> hush (apply_op env ch hs oper e)"
proof (cases oper)
  case (Before_send url timeout)
  assume "hush e"
  then show ?thesis unfolding Before_send apply_op.simps before_send_def Let_def
    using hush_before_host_send [of "tick e" env "host_of hs url" url "spendable (tick e) - ed_reserve (tick e)" "Some timeout"]
    by (simp add: case_prod_beta')
next
  case (Drop_reserved r)
  assume "hush e"
  then show ?thesis unfolding Drop_reserved apply_op.simps
    by (cases "(env, r, e)" rule: drop_reserved.cases) (auto intro: hush_release)
qed (simp_all add: pacing_turn_def probe_def probe_reserving_def probe_hop_def free_probe_def Let_def
    hush_turn_within hush_probe_within learn_def end_probe_def hush_answered hush_sent)


end
