(* ===== verification/Spool.thy ===== *)
theory Spool
  imports CM_Prelude
begin

section \<open>The outbound spool\<close>

text \<open>
  \<open>crates/commonmeasure-relay/src/spool.rs\<close>: batches queued durably before delivery, their
  delivery state in a snapshot and a journal of the changes since, and the compaction that
  folds one into the other and prunes what retention releases.

  A file is its complete lines and what stands after the last newline, and a byte offset into
  the queue is the line that starts there. Every durable step (an append, an atomic replace)
  consumes one entry of the list of coming faults: a fault either ends the process or is an
  error the process sees, and says how much of the step had reached the disk. Instants are
  counts of nanoseconds. Indices, generations and counts are natural numbers: the counters of
  64 bits are incremented once per batch, per compaction and per pruned batch.
\<close>

subsection \<open>Entries and delivery states\<close>

record document =
  doc_events :: "uuid option list option"
  doc_session :: "uuid option"
  doc_agent :: "string option"
  doc_refused :: "nat option"

record spool_entry =
  se_origin :: string
  se_queued_at :: "int option"
  se_document :: document
  se_directory_selection :: bool

datatype delivery_status = Queued | Delivered | Dead

record delivery_state =
  ds_status :: delivery_status
  ds_attempts :: nat
  ds_next_attempt_at :: "int option"
  ds_last_attempt_at :: "int option"
  ds_last_error :: "string option"
  ds_hold_reason :: "string option"
  ds_delivered_subset :: "bool option"
  ds_withheld :: "nat option"

definition queued_state :: delivery_state where
  "queued_state = \<lparr>ds_status = Queued, ds_attempts = 0, ds_next_attempt_at = None, ds_last_attempt_at = None,
     ds_last_error = None, ds_hold_reason = None, ds_delivered_subset = None, ds_withheld = None\<rparr>"

abbreviation max_attempts :: nat where "max_attempts \<equiv> 10"
abbreviation retry_base_seconds :: int where "retry_base_seconds \<equiv> 60"
abbreviation retry_ceiling_seconds :: int where "retry_ceiling_seconds \<equiv> 3600"
abbreviation second_ns :: int where "second_ns \<equiv> 1000000000"
abbreviation retain_delivered_ns :: int where "retain_delivered_ns \<equiv> 30 * 86400 * 1000000000"
abbreviation retain_delivered_batches :: nat where "retain_delivered_batches \<equiv> 1000"
abbreviation prune_fraction :: nat where "prune_fraction \<equiv> 8"

subsection \<open>The changes of one batch's state\<close>

datatype spool_error =
    Damaged_queue nat
  | Damaged_journal
  | Unsupported_header
  | Missing_batches
  | Stale_or_missing
  | Kept_changing
  | Snapshot_unreadable
  | Read_only
  | Failed_writer
  | Lock_held
  | No_such_batch
  | Not_queued
  | Not_claimed
  | Not_dead
  | No_events
  | Entry_unparsed nat
  | Pins_unreadable string
  | Io
  | Died

text \<open>A claim answers whether the attempt may be made, and the change to record, if any.\<close>

definition retry_delay :: "nat \<Rightarrow> int" where
  "retry_delay attempts = min (retry_base_seconds * 2 ^ (attempts - 1)) retry_ceiling_seconds"

definition claim_change :: "int \<Rightarrow> delivery_state \<Rightarrow> delivery_state option \<times> bool" where
  "claim_change now st =
     (if ds_status st \<noteq> Queued \<or> (case ds_next_attempt_at st of None \<Rightarrow> False | Some t \<Rightarrow> now < t)
      then (None, False)
      else if max_attempts \<le> ds_attempts st
      then (Some (st\<lparr>ds_status := Dead, ds_next_attempt_at := None\<rparr>), False)
      else (Some (st\<lparr>ds_hold_reason := None, ds_attempts := Suc (ds_attempts st),
             ds_last_attempt_at := Some now,
             ds_next_attempt_at := Some (now + retry_delay (Suc (ds_attempts st)) * second_ns),
             ds_last_error := Some ''Attempt claimed; receiver acceptance has not been recorded.''\<rparr>), True))"

definition failure_change :: "string \<Rightarrow> delivery_state \<Rightarrow> spool_error + delivery_state" where
  "failure_change error st =
     (if ds_status st \<noteq> Queued then Inl Not_queued
      else
        (let st1 = st\<lparr>ds_last_error := Some error\<rparr>
         in Inr (if max_attempts \<le> ds_attempts st1 then st1\<lparr>ds_status := Dead, ds_next_attempt_at := None\<rparr> else st1)))"

definition hold_change :: "string \<Rightarrow> delivery_state \<Rightarrow> spool_error + delivery_state option" where
  "hold_change reason st =
     (if ds_status st \<noteq> Queued then Inl Not_queued
      else if ds_hold_reason st = Some reason then Inr None
      else Inr (Some (st\<lparr>ds_hold_reason := Some reason\<rparr>)))"

definition subset_delivered :: "uuid list \<Rightarrow> uuid option list \<Rightarrow> bool" where
  "subset_delivered accepted events \<longleftrightarrow>
     list_ex (\<lambda>e. case e of None \<Rightarrow> True | Some i \<Rightarrow> i \<notin> set accepted) events"

definition acceptance_change :: "uuid option list \<Rightarrow> uuid list \<Rightarrow> nat \<Rightarrow> delivery_state \<Rightarrow> spool_error + delivery_state" where
  "acceptance_change events accepted withheld st =
     (if ds_status st = Queued \<and> 0 < ds_attempts st
      then Inr (st\<lparr>ds_status := Delivered, ds_delivered_subset := Some (subset_delivered accepted events),
             ds_withheld := Some withheld, ds_next_attempt_at := None, ds_last_error := None, ds_hold_reason := None\<rparr>)
      else Inl Not_claimed)"

definition requeue_change :: "int \<Rightarrow> delivery_state \<Rightarrow> delivery_state" where
  "requeue_change now st = st\<lparr>ds_status := Queued, ds_attempts := 0, ds_next_attempt_at := Some now\<rparr>"

subsection \<open>The files\<close>

text \<open>A queue line as its reader finds it: blank, without an index, with an index and no whole
  entry, or a batch. The tail is what stands after the last newline: a line that does not parse as
  JSON, or one that does.\<close>

datatype queue_row = QBlank | QNoIndex | QBad nat | QBatch nat spool_entry

datatype queue_tail = No_tail | Cut_short | Unterminated queue_row

record queue_file =
  qf_rows :: "queue_row list"
  qf_tail :: queue_tail

datatype journal_record =
    Header nat nat nat "nat option"
  | State nat delivery_state
  | Prune "nat list" nat

datatype journal_row = JRecord journal_record | JUnparsed

record journal_file =
  jf_rows :: "journal_row list"
  jf_tail :: bool

datatype snapshot_file = Snapshot_missing | Snapshot "(nat, delivery_state) btree" | Snapshot_damaged

record spool_disk =
  dk_queue :: queue_file
  dk_snapshot :: snapshot_file
  dk_journal :: journal_file
  dk_marker :: bool
  dk_close_error :: "spool_error option"

definition empty_disk :: spool_disk where
  "empty_disk = \<lparr>dk_queue = \<lparr>qf_rows = [], qf_tail = No_tail\<rparr>, dk_snapshot = Snapshot_missing,
     dk_journal = \<lparr>jf_rows = [], jf_tail = False\<rparr>, dk_marker = False, dk_close_error = None\<rparr>"

abbreviation journal_version :: nat where "journal_version \<equiv> 1"
abbreviation load_attempts :: nat where "load_attempts \<equiv> 8"

subsection \<open>Parsing\<close>

record journal =
  jn_generation :: "nat option"
  jn_next_index :: nat
  jn_pruned :: "nat option"
  jn_states :: "(nat \<times> delivery_state) list"
  jn_prune :: "nat list"

definition journal_start :: journal where
  "journal_start = \<lparr>jn_generation = None, jn_next_index = 0, jn_pruned = Some 0, jn_states = [], jn_prune = []\<rparr>"

fun journal_step :: "bool \<Rightarrow> journal \<Rightarrow> journal_record \<Rightarrow> spool_error + journal" where
  "journal_step first j (Header v generation next_index pruned) =
     (if first \<and> v = journal_version
      then Inr (j\<lparr>jn_generation := Some generation, jn_next_index := next_index, jn_pruned := pruned\<rparr>)
      else Inl Unsupported_header)"
| "journal_step first j (State index st) = Inr (j\<lparr>jn_states := jn_states j @ [(index, st)]\<rparr>)"
| "journal_step first j (Prune indices next_index) =
     Inr (j\<lparr>jn_prune := jn_prune j @ indices, jn_next_index := max (jn_next_index j) next_index\<rparr>)"

fun parse_journal_from :: "bool \<Rightarrow> journal \<Rightarrow> journal_row list \<Rightarrow> spool_error + journal" where
  "parse_journal_from first j [] = Inr j"
| "parse_journal_from first j (JUnparsed # rs) = Inl Damaged_journal"
| "parse_journal_from first j (JRecord r # rs) =
     res_bind (journal_step first j r) (\<lambda>j'.
       if jn_generation j' = None then Inl Damaged_journal else parse_journal_from False j' rs)"

definition parse_journal :: "journal_file \<Rightarrow> spool_error + journal" where
  "parse_journal f = parse_journal_from True journal_start (jf_rows f)"

record queue_lines =
  ql_lines :: "(nat \<times> spool_entry) list"
  ql_pruning_evident :: bool

text \<open>One line more: blank lines are passed over, an index must rise, and a gap above the index
  that follows shows a prune.\<close>

fun queue_step :: "nat \<Rightarrow> queue_lines \<Rightarrow> queue_row \<Rightarrow> spool_error + queue_lines" where
  "queue_step n q QBlank = Inr q"
| "queue_step n q QNoIndex = Inl (Damaged_queue n)"
| "queue_step n q (QBad index) = Inl (Damaged_queue n)"
| "queue_step n q (QBatch index entry) =
     (if ql_lines q \<noteq> [] \<and> index \<le> fst (last (ql_lines q)) then Inl (Damaged_queue n)
      else
        (let follows = (if ql_lines q = [] then 0 else Suc (fst (last (ql_lines q))))
         in Inr (q\<lparr>ql_lines := ql_lines q @ [(index, entry)],
                ql_pruning_evident := ql_pruning_evident q \<or> follows < index\<rparr>)))"

fun parse_queue_from :: "nat \<Rightarrow> queue_lines \<Rightarrow> queue_row list \<Rightarrow> spool_error + queue_lines" where
  "parse_queue_from n q [] = Inr q"
| "parse_queue_from n q (r # rs) = res_bind (queue_step n q r) (\<lambda>q'. parse_queue_from (Suc n) q' rs)"

definition queue_rows :: "queue_file \<Rightarrow> queue_row list" where
  "queue_rows f = qf_rows f @ (case qf_tail f of Unterminated r \<Rightarrow> [r] | _ \<Rightarrow> [])"

definition parse_queue :: "queue_file \<Rightarrow> spool_error + queue_lines" where
  "parse_queue f = parse_queue_from 0 \<lparr>ql_lines = [], ql_pruning_evident = False\<rparr> (queue_rows f)"

subsection \<open>Reading the spool as one generation\<close>

record view =
  vw_lines :: "(nat \<times> spool_entry) list"
  vw_explicit :: "(nat, delivery_state) btree"
  vw_generation :: "nat option"
  vw_next_index :: nat
  vw_pruned :: "nat option"
  vw_journal_records :: nat

record loaded =
  ld_view :: view
  ld_queue :: queue_file
  ld_interrupted_prune :: "nat list"

text \<open>What one attempt reads, in the order it reads it: the journal, the queue, the snapshot, the
  marker and the journal again, each as it stood at that moment.\<close>

record observation =
  ob_before :: journal_file
  ob_queue :: queue_file
  ob_snapshot :: snapshot_file
  ob_marker :: bool
  ob_after :: journal_file

definition observe :: "spool_disk \<Rightarrow> observation" where
  "observe d = \<lparr>ob_before = dk_journal d, ob_queue = dk_queue d, ob_snapshot = dk_snapshot d,
     ob_marker = dk_marker d, ob_after = dk_journal d\<rparr>"

definition read_snapshot :: "snapshot_file \<Rightarrow> spool_error + (nat, delivery_state) btree" where
  "read_snapshot f = (case f of Snapshot_missing \<Rightarrow> Inr [] | Snapshot m \<Rightarrow> Inr m | Snapshot_damaged \<Rightarrow> Inl Snapshot_unreadable)"

text \<open>The view the three files state together.\<close>

definition assemble :: "queue_lines \<Rightarrow> (nat, delivery_state) btree \<Rightarrow> bool \<Rightarrow> journal \<Rightarrow> view" where
  "assemble q snapshot marker j =
     (let pruned = jn_prune j;
          lines = filter (\<lambda>l. fst l \<notin> set pruned) (ql_lines q);
          explicit = filter (\<lambda>kv. fst kv \<notin> set pruned) (bt_extend snapshot (jn_states j))
      in \<lparr>vw_lines = lines, vw_explicit = explicit, vw_generation = jn_generation j,
          vw_next_index = max (jn_next_index j) (if lines = [] then 0 else Suc (fst (last lines))),
          vw_pruned = (if jn_generation j = None \<and> (ql_pruning_evident q \<or> marker) then None
            else map_option (\<lambda>n. n + card (set pruned)) (jn_pruned j)),
          vw_journal_records = length (jn_states j)\<rparr>)"

definition names_missing :: "view \<Rightarrow> bool" where
  "names_missing v \<longleftrightarrow> list_ex (\<lambda>kv. fst kv \<notin> fst ` set (vw_lines v)) (vw_explicit v)"

datatype attempt = Reloaded loaded | Overtaken | Names_missing

definition load_once :: "bool \<Rightarrow> observation \<Rightarrow> spool_error + attempt" where
  "load_once locked ob =
     res_bind (parse_journal (ob_before ob)) (\<lambda>before.
     res_bind (read_snapshot (ob_snapshot ob)) (\<lambda>snapshot.
     res_bind (parse_journal (ob_after ob)) (\<lambda>j.
       if jn_generation j \<noteq> jn_generation before then Inr Overtaken
       else res_bind (parse_queue (ob_queue ob)) (\<lambda>q.
         let v = assemble q snapshot (ob_marker ob) j
         in if names_missing v then (if locked then Inl Missing_batches else Inr Names_missing)
            else Inr (Reloaded \<lparr>ld_view = v, ld_queue = ob_queue ob, ld_interrupted_prune = jn_prune j\<rparr>)))))"

fun load_from :: "bool \<Rightarrow> bool \<Rightarrow> observation list \<Rightarrow> spool_error + loaded" where
  "load_from locked missing [] = Inl (if missing then Stale_or_missing else Kept_changing)"
| "load_from locked missing (ob # obs) =
     (case load_once locked ob of
        Inl e \<Rightarrow> Inl e
      | Inr (Reloaded l) \<Rightarrow> Inr l
      | Inr Overtaken \<Rightarrow> load_from locked missing obs
      | Inr Names_missing \<Rightarrow> load_from locked True obs)"

definition load :: "bool \<Rightarrow> observation list \<Rightarrow> spool_error + loaded" where
  "load locked obs = load_from locked False (take load_attempts obs)"

text \<open>A load under the lock, or while nobody writes, sees one disk throughout.\<close>

definition load_disk :: "bool \<Rightarrow> spool_disk \<Rightarrow> spool_error + loaded" where
  "load_disk locked d = load locked (replicate load_attempts (observe d))"

subsection \<open>The writer and its durable steps\<close>

text \<open>A fault says how many whole lines (of a replace: whether the rename) and what of the next
  had reached the disk; an error the process sees also says whether cutting the file back worked.\<close>

datatype torn_line = Nothing_more | Part_of_line | Line_without_newline

datatype io_fault = Dies nat torn_line | Fails nat torn_line bool

record writer =
  wr_view :: view
  wr_failed :: bool

record spool =
  sp_disk :: spool_disk
  sp_writer :: "writer option"
  sp_locked :: bool
  sp_faults :: "io_fault option list"

type_synonym 'a spool_op = "(spool, spool_error, 'a) exec"

definition next_fault :: "spool \<Rightarrow> io_fault option \<times> spool" where
  "next_fault s = (case sp_faults s of [] \<Rightarrow> (None, s) | f # r \<Rightarrow> (f, s\<lparr>sp_faults := r\<rparr>))"

definition on_disk :: "(spool_disk \<Rightarrow> spool_disk) \<Rightarrow> spool \<Rightarrow> spool" where
  "on_disk f s = s\<lparr>sp_disk := f (sp_disk s)\<rparr>"

text \<open>\<open>Spool::replace\<close>: the rename either happened or did not.\<close>

definition replace_file :: "(spool_disk \<Rightarrow> spool_disk) \<Rightarrow> unit spool_op" where
  "replace_file f s = (case next_fault s of
      (None, s1) \<Rightarrow> (Inr (), on_disk f s1)
    | (Some (Dies k _), s1) \<Rightarrow> (Inl Died, if k = 0 then s1 else on_disk f s1)
    | (Some (Fails k _ _), s1) \<Rightarrow> (Inl Io, if k = 0 then s1 else on_disk f s1))"

definition with_queue :: "(queue_file \<Rightarrow> queue_file) \<Rightarrow> spool_disk \<Rightarrow> spool_disk" where
  "with_queue f d = d\<lparr>dk_queue := f (dk_queue d)\<rparr>"

definition with_journal :: "(journal_file \<Rightarrow> journal_file) \<Rightarrow> spool_disk \<Rightarrow> spool_disk" where
  "with_journal f d = d\<lparr>dk_journal := f (dk_journal d)\<rparr>"

text \<open>An append joins what a failed one left after the last newline: two texts on one line, which has
  at best an index and is no entry.\<close>

definition append_queue_line :: "queue_row \<Rightarrow> queue_file \<Rightarrow> queue_file" where
  "append_queue_line r f = \<lparr>qf_rows = qf_rows f @ [case qf_tail f of
      No_tail \<Rightarrow> r
    | Unterminated (QBatch i _) \<Rightarrow> QBad i
    | _ \<Rightarrow> QNoIndex], qf_tail = No_tail\<rparr>"

definition tear_queue :: "nat \<Rightarrow> torn_line \<Rightarrow> queue_row \<Rightarrow> queue_file \<Rightarrow> queue_file" where
  "tear_queue k t r f =
     (if 0 < k then append_queue_line r f
      else case t of
        Nothing_more \<Rightarrow> f
      | Part_of_line \<Rightarrow> f\<lparr>qf_tail := Cut_short\<rparr>
      | Line_without_newline \<Rightarrow> f\<lparr>qf_tail := (if qf_tail f = No_tail then Unterminated r else Cut_short)\<rparr>)"

definition append_journal_lines :: "journal_record list \<Rightarrow> journal_file \<Rightarrow> journal_file" where
  "append_journal_lines rs f = f\<lparr>jf_rows := jf_rows f @ map JRecord rs\<rparr>"

definition tear_journal :: "nat \<Rightarrow> torn_line \<Rightarrow> journal_record list \<Rightarrow> journal_file \<Rightarrow> journal_file" where
  "tear_journal k t rs f =
     (append_journal_lines (take k rs) f)\<lparr>jf_tail := jf_tail f \<or> (k < length rs \<and> t \<noteq> Nothing_more)\<rparr>"

definition change_writer :: "(writer \<Rightarrow> writer) \<Rightarrow> spool \<Rightarrow> spool" where
  "change_writer f s = s\<lparr>sp_writer := map_option f (sp_writer s)\<rparr>"

definition change_view :: "(view \<Rightarrow> view) \<Rightarrow> spool \<Rightarrow> spool" where
  "change_view f = change_writer (\<lambda>w. w\<lparr>wr_view := f (wr_view w)\<rparr>)"

definition modify :: "(spool \<Rightarrow> spool) \<Rightarrow> unit spool_op" where
  "modify f s = (Inr (), f s)"

definition get_writer :: "writer spool_op" where
  "get_writer s = (case sp_writer s of None \<Rightarrow> (Inl Read_only, s) | Some w \<Rightarrow> (Inr w, s))"

definition get_view :: "view spool_op" where
  "get_view = and_then get_writer (\<lambda>w. ret (wr_view w))"

definition get_disk :: "spool_disk spool_op" where
  "get_disk s = (Inr (sp_disk s), s)"

text \<open>The next generation of the journal: a header and no records.\<close>

definition replace_journal :: "unit spool_op" where
  "replace_journal =
     and_then get_view (\<lambda>v.
       let generation = Suc (case vw_generation v of None \<Rightarrow> 0 | Some g \<Rightarrow> g)
       in and_then (replace_file (with_journal (\<lambda>_. \<lparr>jf_rows =
              [JRecord (Header journal_version generation (vw_next_index v) (vw_pruned v))], jf_tail = False\<rparr>)))
          (\<lambda>_. modify (change_view (\<lambda>v. v\<lparr>vw_generation := Some generation, vw_journal_records := 0\<rparr>))))"

text \<open>The append itself. After an error the file is cut back to its last durable record where that
  works, and this writer appends nothing more.\<close>

definition write_records :: "journal_record list \<Rightarrow> unit spool_op" where
  "write_records rs s = (case next_fault s of
      (None, s1) \<Rightarrow> (Inr (), on_disk (with_journal (append_journal_lines rs)) s1)
    | (Some (Dies k t), s1) \<Rightarrow> (Inl Died, on_disk (with_journal (tear_journal k t rs)) s1)
    | (Some (Fails k t cut_back), s1) \<Rightarrow>
        (Inl Io, change_writer (\<lambda>w. w\<lparr>wr_failed := True\<rparr>)
          (if cut_back then s1 else on_disk (with_journal (tear_journal k t rs)) s1)))"

definition append_to_journal :: "journal_record list \<Rightarrow> unit spool_op" where
  "append_to_journal rs =
     and_then get_writer (\<lambda>w.
       if wr_failed w then fail Failed_writer
       else and_then (if vw_generation (wr_view w) = None then replace_journal else ret ()) (\<lambda>_. write_records rs))"

text \<open>A state change takes effect in memory only when it is durable.\<close>

definition record_changes :: "(nat \<times> delivery_state) list \<Rightarrow> unit spool_op" where
  "record_changes changes =
     (if changes = [] then ret ()
      else and_then (append_to_journal (map (\<lambda>(i, st). State i st) changes)) (\<lambda>_.
        modify (change_view (\<lambda>v. v\<lparr>vw_journal_records := vw_journal_records v + length changes,
          vw_explicit := bt_extend (vw_explicit v) changes\<rparr>))))"

subsection \<open>Batches and their states\<close>

definition line_of :: "view \<Rightarrow> nat \<Rightarrow> spool_entry option" where
  "line_of v index = map_of (vw_lines v) index"

definition full_states :: "view \<Rightarrow> (nat, delivery_state) btree" where
  "full_states v = foldl (\<lambda>m l. if fst l \<in> fst ` set m then m else bt_insert (fst l) queued_state m)
     (vw_explicit v) (vw_lines v)"

definition state_of :: "view \<Rightarrow> nat \<Rightarrow> spool_error + delivery_state" where
  "state_of v index = (case map_of (vw_explicit v) index of
      Some st \<Rightarrow> Inr st
    | None \<Rightarrow> if line_of v index = None then Inl No_such_batch else Inr queued_state)"

definition enqueue :: "spool_entry \<Rightarrow> nat spool_op" where
  "enqueue e =
     and_then get_view (\<lambda>v.
       let index = vw_next_index v; r = QBatch index e
       in and_then (\<lambda>s. case next_fault s of
            (None, s1) \<Rightarrow> (Inr (), on_disk (with_queue (append_queue_line r)) s1)
          | (Some (Dies k t), s1) \<Rightarrow> (Inl Died, on_disk (with_queue (tear_queue k t r)) s1)
          | (Some (Fails k t _), s1) \<Rightarrow> (Inl Io, on_disk (with_queue (tear_queue k t r)) s1))
        (\<lambda>_. and_then (modify (change_view (\<lambda>v. v\<lparr>vw_lines := vw_lines v @ [(index, e)], vw_next_index := Suc index\<rparr>)))
        (\<lambda>_. ret index)))"

definition claim :: "nat \<Rightarrow> int \<Rightarrow> bool spool_op" where
  "claim index now =
     and_then get_view (\<lambda>v. and_then (lift (state_of v index)) (\<lambda>st.
       case claim_change now st of
         (None, b) \<Rightarrow> ret b
       | (Some st', b) \<Rightarrow> and_then (record_changes [(index, st')]) (\<lambda>_. ret b)))"

definition record_failure :: "nat \<Rightarrow> string \<Rightarrow> unit spool_op" where
  "record_failure index error =
     and_then get_view (\<lambda>v. and_then (lift (res_bind (state_of v index) (failure_change error))) (\<lambda>st.
       record_changes [(index, st)]))"

definition hold :: "nat \<Rightarrow> string \<Rightarrow> unit spool_op" where
  "hold index reason =
     and_then get_view (\<lambda>v. and_then (lift (res_bind (state_of v index) (hold_change reason))) (\<lambda>change.
       case change of None \<Rightarrow> ret () | Some st \<Rightarrow> record_changes [(index, st)]))"

definition record_acceptance :: "nat \<Rightarrow> uuid list \<Rightarrow> nat \<Rightarrow> unit spool_op" where
  "record_acceptance index accepted withheld =
     and_then get_view (\<lambda>v. case line_of v index of
       None \<Rightarrow> fail No_such_batch
     | Some entry \<Rightarrow> (case doc_events (se_document entry) of
         None \<Rightarrow> fail No_events
       | Some events \<Rightarrow>
           and_then (lift (res_bind (state_of v index) (acceptance_change events accepted withheld))) (\<lambda>st.
             record_changes [(index, st)])))"

definition requeue :: "nat option \<Rightarrow> int \<Rightarrow> nat spool_op" where
  "requeue chosen now =
     and_then get_view (\<lambda>v.
       and_then (lift (case chosen of None \<Rightarrow> Inr ()
           | Some index \<Rightarrow> res_bind (state_of v index) (\<lambda>st. if ds_status st = Dead then Inr () else Inl Not_dead))) (\<lambda>_.
         let changes = map (\<lambda>(i, st). (i, requeue_change now st))
               (filter (\<lambda>(i, st). ds_status st = Dead \<and> (case chosen of None \<Rightarrow> True | Some index \<Rightarrow> index = i)) (vw_explicit v))
         in and_then (record_changes changes) (\<lambda>_. ret (length changes))))"

record spool_snapshot =
  ss_states :: "(nat, delivery_state) btree"
  ss_undelivered :: "(nat \<times> spool_entry) list"
  ss_pruned :: "nat option"
  ss_close_error :: "spool_error option"

text \<open>One read for status, with the reason the last close left. A close-error file that does not read
  is not modelled.\<close>

definition snapshot_of :: "spool_disk \<Rightarrow> view \<Rightarrow> spool_snapshot" where
  "snapshot_of d v = (let states = full_states v in
     \<lparr>ss_states = states,
      ss_undelivered = filter (\<lambda>l. case map_of states (fst l) of None \<Rightarrow> False
         | Some st \<Rightarrow> ds_status st \<noteq> Delivered) (vw_lines v),
      ss_pruned = vw_pruned v, ss_close_error = dk_close_error d\<rparr>)"

subsection \<open>Compaction\<close>

text \<open>The delivered batches the retention rule releases: past the period, or among the lowest
  indices beyond the count and with no member withheld.\<close>

definition released_by_retention :: "(nat, delivery_state) btree \<Rightarrow> int \<Rightarrow> nat list" where
  "released_by_retention states now =
     (let delivered = filter (\<lambda>kv. ds_status (snd kv) = Delivered) states;
          beyond = length delivered - retain_delivered_batches
      in List.map_filter (\<lambda>(position, index, st).
           if (position < beyond \<and> \<not> (case ds_withheld st of None \<Rightarrow> False | Some n \<Rightarrow> 0 < n))
              \<or> (case ds_last_attempt_at st of None \<Rightarrow> False | Some t \<Rightarrow> retain_delivered_ns \<le> now - t)
           then Some index else None)
         (List.enumerate 0 delivered))"

definition only_record_of_agent :: "uuid list \<Rightarrow> spool_entry \<Rightarrow> bool" where
  "only_record_of_agent pins e \<longleftrightarrow> doc_agent (se_document e) \<noteq> None \<and>
     (case doc_session (se_document e) of None \<Rightarrow> False | Some session \<Rightarrow> session \<notin> set pins)"

definition prunable :: "view \<Rightarrow> (nat, delivery_state) btree \<Rightarrow> string + uuid list \<Rightarrow> int \<Rightarrow> spool_error + nat list" where
  "prunable v states pins now =
     (let released = released_by_retention states now
      in if released = [] \<or> length released * prune_fraction < length (vw_lines v) then Inr []
         else case pins of
           Inl e \<Rightarrow> Inl (Pins_unreadable e)
         | Inr pinned \<Rightarrow>
             res_bind (traverse (\<lambda>index. case line_of v index of None \<Rightarrow> Inl No_such_batch
                 | Some e \<Rightarrow> Inr (index, e)) released) (\<lambda>lines.
               let prune = map fst (filter (\<lambda>(index, e). \<not> only_record_of_agent pinned e) lines)
               in Inr (if length prune * prune_fraction < length (vw_lines v) then [] else prune)))"

definition record_pruning :: "unit spool_op" where
  "record_pruning = and_then get_disk (\<lambda>d.
     if dk_marker d then ret () else replace_file (\<lambda>d. d\<lparr>dk_marker := True\<rparr>))"

definition rewritten :: "view \<Rightarrow> queue_file" where
  "rewritten v = \<lparr>qf_rows = map (\<lambda>(i, e). QBatch i e) (vw_lines v), qf_tail = No_tail\<rparr>"

definition fold_spool :: "bool \<Rightarrow> unit spool_op" where
  "fold_spool pruning =
     and_then (modify (change_view (\<lambda>v. v\<lparr>vw_explicit := full_states v\<rparr>))) (\<lambda>_.
     and_then (if pruning then and_then record_pruning (\<lambda>_. and_then get_view (\<lambda>v.
         replace_file (with_queue (\<lambda>_. rewritten v)))) else ret ()) (\<lambda>_.
     and_then get_view (\<lambda>v.
     and_then (replace_file (\<lambda>d. d\<lparr>dk_snapshot := Snapshot (vw_explicit v)\<rparr>)) (\<lambda>_. replace_journal))))"

definition drop_pruned :: "nat list \<Rightarrow> view \<Rightarrow> view" where
  "drop_pruned prune v = v\<lparr>vw_lines := filter (\<lambda>l. fst l \<notin> set prune) (vw_lines v),
     vw_explicit := filter (\<lambda>kv. fst kv \<notin> set prune) (vw_explicit v),
     vw_pruned := map_option (\<lambda>n. n + length prune) (vw_pruned v)\<rparr>"

definition compact :: "string + uuid list \<Rightarrow> int \<Rightarrow> unit spool_op" where
  "compact pins now s = (case sp_writer s of
      None \<Rightarrow> (Inr (), s)
    | Some w \<Rightarrow>
        (if wr_failed w then (Inl Failed_writer, s)
         else (case prunable (wr_view w) (full_states (wr_view w)) pins now of
             Inl e \<Rightarrow> (Inl e, s)
           | Inr prune \<Rightarrow>
               (if vw_journal_records (wr_view w) = 0 \<and> prune = [] then (Inr (), s)
                else if prune = [] then fold_spool False s
                else and_then (append_to_journal [Prune prune (vw_next_index (wr_view w))]) (\<lambda>_.
                  and_then (modify (change_view (drop_pruned prune))) (\<lambda>_. fold_spool True)) s))))"

text \<open>The close of a writer: the reason of a failed fold is kept for status.\<close>

definition close_spool :: "string + uuid list \<Rightarrow> int \<Rightarrow> spool \<Rightarrow> spool" where
  "close_spool pins now s =
     (if \<not> sp_locked s then s
      else case compact pins now s of
        (Inr _, s1) \<Rightarrow> (on_disk (\<lambda>d. d\<lparr>dk_close_error := None\<rparr>) s1)\<lparr>sp_writer := None, sp_locked := False\<rparr>
      | (Inl Died, s1) \<Rightarrow> s1\<lparr>sp_writer := None, sp_locked := False\<rparr>
      | (Inl e, s1) \<Rightarrow> (on_disk (\<lambda>d. d\<lparr>dk_close_error := Some e\<rparr>) s1)\<lparr>sp_writer := None, sp_locked := False\<rparr>)"

subsection \<open>Opening\<close>

definition mend_queue :: "queue_file \<Rightarrow> queue_file" where
  "mend_queue f = (case qf_tail f of
      No_tail \<Rightarrow> f
    | Cut_short \<Rightarrow> f\<lparr>qf_tail := No_tail\<rparr>
    | Unterminated r \<Rightarrow> \<lparr>qf_rows = qf_rows f @ [r], qf_tail = No_tail\<rparr>)"

definition repair_tails :: "unit spool_op" where
  "repair_tails =
     and_then get_disk (\<lambda>d.
     and_then (if qf_tail (dk_queue d) = No_tail then ret () else replace_file (with_queue mend_queue)) (\<lambda>_.
       if jf_tail (dk_journal d) then replace_file (with_journal (\<lambda>f. f\<lparr>jf_tail := False\<rparr>)) else ret ()))"

text \<open>Once the lock is held, an open that fails drops the spool, whose close finds no writer and so
  nothing to fold.\<close>

definition open_spool :: "bool \<Rightarrow> unit spool_op" where
  "open_spool lock_free s =
     (if \<not> lock_free then (Inl Lock_held, s)
      else
        (let s0 = s\<lparr>sp_writer := None, sp_locked := True\<rparr> in
         case (case load_disk True (sp_disk s0) of
             Inl e \<Rightarrow> (Inl e, s0)
           | Inr l \<Rightarrow>
               and_then repair_tails (\<lambda>_.
               and_then (modify (\<lambda>s. s\<lparr>sp_writer := Some \<lparr>wr_view = ld_view l, wr_failed = False\<rparr>\<rparr>)) (\<lambda>_.
                 if ld_interrupted_prune l \<noteq> [] then fold_spool True else ret ())) s0) of
           (Inr u, s1) \<Rightarrow> (Inr u, s1)
         | (Inl Died, s1) \<Rightarrow> (Inl Died, s1\<lparr>sp_writer := None, sp_locked := False\<rparr>)
         | (Inl e, s1) \<Rightarrow> (Inl e, close_spool (Inr []) 0 (s1\<lparr>sp_writer := None\<rparr>))))"

end
