(* ===== verification/Spool_Runs.thy ===== *)
theory Spool_Runs
  imports Spool
begin

section \<open>What the spool keeps through faults\<close>

text \<open>
  Proofs over the model of \<open>relay/src/spool.rs\<close>. A load of the disk reads back exactly the view
  the writer holds in memory (\<open>in_sync\<close>); each durable step (journal append, announced prune,
  marker, queue rewrite, snapshot, journal renewal) takes a disk that shows a view to one that shows
  the view after the step or the same content; and every public operation, stopped by any fault,
  leaves a disk whose content is that of before or of after.
\<close>

subsection \<open>Loading under the lock\<close>

lemma load_disk_Inr:
  "load_disk locked d = Inr l \<longleftrightarrow>
     (\<exists>j m q. parse_journal (dk_journal d) = Inr j \<and> read_snapshot (dk_snapshot d) = Inr m \<and>
        parse_queue (dk_queue d) = Inr q \<and> \<not> names_missing (assemble q m (dk_marker d) j) \<and>
        l = \<lparr>ld_view = assemble q m (dk_marker d) j, ld_queue = dk_queue d, ld_interrupted_prune = jn_prune j\<rparr>)"
proof -
  have rep: "take load_attempts (replicate load_attempts (observe d)) = replicate load_attempts (observe d)" by simp
  have once: "load_once locked (observe d) = Inr (Reloaded l) \<longleftrightarrow>
     (\<exists>j m q. parse_journal (dk_journal d) = Inr j \<and> read_snapshot (dk_snapshot d) = Inr m \<and>
        parse_queue (dk_queue d) = Inr q \<and> \<not> names_missing (assemble q m (dk_marker d) j) \<and>
        l = \<lparr>ld_view = assemble q m (dk_marker d) j, ld_queue = dk_queue d, ld_interrupted_prune = jn_prune j\<rparr>)"
    by (auto simp: load_once_def observe_def res_bind_Inr_iff Let_def)
  have "load_from locked b (replicate n (observe d)) = Inr l \<longleftrightarrow> 0 < n \<and> load_once locked (observe d) = Inr (Reloaded l)" for b n
    by (induction n arbitrary: b) (auto split: sum.splits attempt.splits)
  then show ?thesis by (simp add: load_disk_def load_def rep once)
qed

subsection \<open>Parsing what was appended\<close>

lemma parse_journal_from_append:
  "parse_journal_from first j (rs @ qs) =
     res_bind (parse_journal_from first j rs) (\<lambda>j'. parse_journal_from (first \<and> rs = []) j' qs)"
proof (induction first j rs rule: parse_journal_from.induct)
  case (3 first j r rs)
  then show ?case by (cases "journal_step first j r") auto
qed auto

lemma parse_states:
  assumes "jn_generation j \<noteq> None"
  shows "parse_journal_from False j (map (JRecord \<circ> (\<lambda>(i, st). State i st)) cs) = Inr (j\<lparr>jn_states := jn_states j @ cs\<rparr>)"
  using assms
proof (induction cs arbitrary: j)
  case (Cons c cs)
  obtain i st where "c = (i, st)" by fastforce
  with Cons.IH [of "j\<lparr>jn_states := jn_states j @ [(i, st)]\<rparr>"] Cons.prems show ?case by simp
qed simp

lemma journal_nonempty: "parse_journal f = Inr j \<Longrightarrow> jn_generation j \<noteq> None \<Longrightarrow> jf_rows f \<noteq> []"
  by (auto simp: parse_journal_def journal_start_def)

lemma parse_journal_states:
  assumes "parse_journal f = Inr j" "jn_generation j \<noteq> None"
  shows "parse_journal (append_journal_lines (map (\<lambda>(i, st). State i st) cs) f) = Inr (j\<lparr>jn_states := jn_states j @ cs\<rparr>)"
  using parse_states [OF assms(2), of cs] journal_nonempty [OF assms] assms(1)
  by (simp add: parse_journal_def append_journal_lines_def parse_journal_from_append comp_def)

lemma parse_journal_prune:
  assumes "parse_journal f = Inr j" "jn_generation j \<noteq> None"
  shows "parse_journal (append_journal_lines [Prune is n] f)
    = Inr (j\<lparr>jn_prune := jn_prune j @ is, jn_next_index := max (jn_next_index j) n\<rparr>)"
  using journal_nonempty [OF assms] assms
  by (simp add: parse_journal_def append_journal_lines_def parse_journal_from_append)

lemma parse_journal_header:
  "parse_journal \<lparr>jf_rows = [JRecord (Header journal_version g n p)], jf_tail = t\<rparr>
     = Inr \<lparr>jn_generation = Some g, jn_next_index = n, jn_pruned = p, jn_states = [], jn_prune = []\<rparr>"
  by (simp add: parse_journal_def journal_start_def)

lemma parse_journal_tail [simp]: "parse_journal (f\<lparr>jf_tail := t\<rparr>) = parse_journal f"
  by (simp add: parse_journal_def)

lemma parse_queue_from_append:
  "parse_queue_from n q (rs @ qs) = res_bind (parse_queue_from n q rs) (\<lambda>q'. parse_queue_from (n + length rs) q' qs)"
proof (induction n q rs rule: parse_queue_from.induct)
  case (2 n q r rs)
  then show ?case by (cases "queue_step n q r") auto
qed simp

definition lines_ok :: "(nat \<times> 'a) list \<Rightarrow> bool" where
  "lines_ok ls \<longleftrightarrow> sorted_wrt (<) (map fst ls)"

lemma lines_ok_snoc: "lines_ok (ls @ [(i, e)]) \<longleftrightarrow> lines_ok ls \<and> (\<forall>l \<in> set ls. fst l < i)"
  by (auto simp: lines_ok_def sorted_wrt_append)

lemma lines_last: "lines_ok ls \<Longrightarrow> ls \<noteq> [] \<Longrightarrow> l \<in> set ls \<Longrightarrow> fst l \<le> fst (last ls)"
proof (cases ls rule: rev_cases)
  case (snoc ys y)
  assume "lines_ok ls" "l \<in> set ls"
  with snoc show ?thesis by (cases y) (auto simp: lines_ok_snoc)
qed simp

lemma parse_queue_from_ok:
  "parse_queue_from n q rs = Inr q' \<Longrightarrow> lines_ok (ql_lines q) \<Longrightarrow> lines_ok (ql_lines q')"
proof (induction n q rs rule: parse_queue_from.induct)
  case (2 n q r rs)
  from 2(2) obtain q1 where s: "queue_step n q r = Inr q1" "parse_queue_from (Suc n) q1 rs = Inr q'"
    by (auto simp: res_bind_Inr_iff)
  have "lines_ok (ql_lines q1)"
  proof (cases r)
    case (QBatch i e)
    with s(1) have i: "ql_lines q = [] \<or> fst (last (ql_lines q)) < i" and q1: "ql_lines q1 = ql_lines q @ [(i, e)]"
      by (auto simp: Let_def split: if_splits)
    have "fst l < i" if "l \<in> set (ql_lines q)" for l
      using i lines_last [OF 2(3) _ that] that by fastforce
    with 2(3) q1 show ?thesis by (simp add: lines_ok_snoc)
  qed (use s(1) 2(3) in auto)
  with 2(1) s(2) show ?case by blast
qed simp

lemma parse_queue_ok: "parse_queue f = Inr q \<Longrightarrow> lines_ok (ql_lines q)"
  unfolding parse_queue_def by (drule parse_queue_from_ok) (simp_all add: lines_ok_def)

lemma parse_queue_snoc:
  assumes "parse_queue f = Inr q" "qf_tail f = No_tail" "\<forall>l \<in> set (ql_lines q). fst l < i"
  shows "parse_queue (append_queue_line (QBatch i e) f) = Inr (q\<lparr>ql_lines := ql_lines q @ [(i, e)],
     ql_pruning_evident := ql_pruning_evident q \<or> (if ql_lines q = [] then 0 else Suc (fst (last (ql_lines q)))) < i\<rparr>)"
proof -
  have "ql_lines q \<noteq> [] \<Longrightarrow> \<not> i \<le> fst (last (ql_lines q))" using assms(3) last_in_set by fastforce
  with assms(1,2) show ?thesis
    by (auto simp: parse_queue_def queue_rows_def append_queue_line_def parse_queue_from_append Let_def)
qed

lemma parse_rewritten_from:
  assumes "lines_ok (ql_lines q @ ls)"
  shows "\<exists>b. parse_queue_from n q (map (\<lambda>(i, e). QBatch i e) ls) = Inr \<lparr>ql_lines = ql_lines q @ ls, ql_pruning_evident = b\<rparr>"
  using assms
proof (induction ls arbitrary: n q)
  case Nil
  then show ?case by (cases q) simp
next
  case (Cons l ls)
  obtain i e where l: "l = (i, e)" by fastforce
  from Cons.prems have "lines_ok (ql_lines q @ [(i, e)])"
    by (auto simp: l lines_ok_def sorted_wrt_append)
  then have "ql_lines q \<noteq> [] \<Longrightarrow> \<not> i \<le> fst (last (ql_lines q))"
    by (auto simp: lines_ok_snoc not_le)
  with Cons.IH [of "q\<lparr>ql_lines := ql_lines q @ [(i, e)], ql_pruning_evident := ql_pruning_evident q \<or>
      (if ql_lines q = [] then 0 else Suc (fst (last (ql_lines q)))) < i\<rparr>" "Suc n"] Cons.prems
  show ?case by (auto simp: l Let_def)
qed

lemma parse_rewritten:
  assumes "lines_ok (vw_lines v)"
  shows "\<exists>b. parse_queue (rewritten v) = Inr \<lparr>ql_lines = vw_lines v, ql_pruning_evident = b\<rparr>"
  using parse_rewritten_from [of "\<lparr>ql_lines = [], ql_pruning_evident = False\<rparr>" "vw_lines v" 0] assms
  by (simp add: parse_queue_def queue_rows_def rewritten_def)

subsection \<open>What a disk shows\<close>

text \<open>The view a load reads, with the announced prune it has still to complete; and the part of a
  view that callers see.\<close>

definition disk_view :: "spool_disk \<Rightarrow> view \<Rightarrow> nat list \<Rightarrow> bool" where
  "disk_view d v pr \<longleftrightarrow>
     load_disk True d = Inr \<lparr>ld_view = v, ld_queue = dk_queue d, ld_interrupted_prune = pr\<rparr> \<and>
     (case dk_snapshot d of Snapshot m \<Rightarrow> bt_ok m | _ \<Rightarrow> True)"

definition synced :: "spool_disk \<Rightarrow> view \<Rightarrow> bool" where
  "synced d v \<longleftrightarrow> disk_view d v [] \<and> qf_tail (dk_queue d) = No_tail \<and> \<not> jf_tail (dk_journal d)"

record outbox =
  ox_lines :: "(nat \<times> spool_entry) list"
  ox_states :: "(nat, delivery_state) btree"
  ox_next :: nat
  ox_pruned :: "nat option"

definition content :: "view \<Rightarrow> outbox" where
  "content v = \<lparr>ox_lines = vw_lines v, ox_states = full_states v, ox_next = vw_next_index v, ox_pruned = vw_pruned v\<rparr>"

lemma disk_view_iff:
  "disk_view d v pr \<longleftrightarrow>
     (\<exists>j m q. parse_journal (dk_journal d) = Inr j \<and> read_snapshot (dk_snapshot d) = Inr m \<and> bt_ok m \<and>
        parse_queue (dk_queue d) = Inr q \<and> \<not> names_missing v \<and>
        assemble q m (dk_marker d) j = v \<and> jn_prune j = pr)"
  unfolding disk_view_def load_disk_Inr
  by (cases "dk_snapshot d") (auto simp: read_snapshot_def)

lemma disk_viewI:
  assumes "parse_journal (dk_journal d) = Inr j" "read_snapshot (dk_snapshot d) = Inr m" "bt_ok m"
    "parse_queue (dk_queue d) = Inr q" "\<not> names_missing v" "assemble q m (dk_marker d) j = v" "jn_prune j = pr"
  shows "disk_view d v pr"
  using assms unfolding disk_view_iff by blast

lemma assemble_simps [simp]:
  "vw_lines (assemble q m b j) = filter (\<lambda>l. fst l \<notin> set (jn_prune j)) (ql_lines q)"
  "vw_explicit (assemble q m b j) = filter (\<lambda>kv. fst kv \<notin> set (jn_prune j)) (bt_extend m (jn_states j))"
  "vw_generation (assemble q m b j) = jn_generation j"
  "vw_journal_records (assemble q m b j) = length (jn_states j)"
  by (simp_all add: assemble_def Let_def)

lemma parse_journal_generation:
  "parse_journal f = Inr j \<Longrightarrow> jn_generation j = None \<longleftrightarrow> jf_rows f = []"
proof -
  have g: "jn_generation j' \<noteq> None" if "parse_journal_from b j rs = Inr j'" "jn_generation j \<noteq> None" for b j rs j'
    using that
  proof (induction b j rs rule: parse_journal_from.induct)
    case (3 b j r rs)
    from 3(2) obtain j1 where "journal_step b j r = Inr j1" "jn_generation j1 \<noteq> None" "parse_journal_from False j1 rs = Inr j'"
      by (auto simp: res_bind_Inr_iff split: if_splits)
    with 3(1) show ?case by blast
  qed auto
  assume p: "parse_journal f = Inr j"
  show ?thesis
  proof (cases "jf_rows f")
    case Nil
    with p show ?thesis by (auto simp: parse_journal_def journal_start_def)
  next
    case (Cons r rs)
    with p obtain x j1 where "r = JRecord x" "jn_generation j1 \<noteq> None" "parse_journal_from False j1 rs = Inr j"
      by (cases r) (auto simp: parse_journal_def res_bind_Inr_iff split: if_splits)
    from g [OF this(3,2)] Cons show ?thesis by simp
  qed
qed

lemma parse_journal_fresh: "parse_journal f = Inr j \<Longrightarrow> jn_generation j = None \<Longrightarrow> j = journal_start"
  using parse_journal_generation by (fastforce simp: parse_journal_def)

lemma not_names_missing: "\<not> names_missing v \<longleftrightarrow> fst ` set (vw_explicit v) \<subseteq> fst ` set (vw_lines v)"
  by (auto simp: names_missing_def list_ex_iff)

lemma disk_view_facts:
  assumes "disk_view d v pr"
  shows "bt_ok (vw_explicit v)" "lines_ok (vw_lines v)" "fst ` set (vw_explicit v) \<subseteq> fst ` set (vw_lines v)"
    "\<And>l. l \<in> set (vw_lines v) \<Longrightarrow> fst l < vw_next_index v"
proof -
  from assms obtain j m q where d: "bt_ok m" "parse_queue (dk_queue d) = Inr q" "\<not> names_missing v"
    "assemble q m (dk_marker d) j = v" unfolding disk_view_iff by blast
  show "bt_ok (vw_explicit v)" using d(1) unfolding d(4) [symmetric] by (simp add: bt_filter_ok)
  show l: "lines_ok (vw_lines v)"
    using parse_queue_ok [OF d(2)] unfolding d(4) [symmetric] by (simp add: lines_ok_def sorted_wrt_map sorted_wrt_filter)
  show "fst ` set (vw_explicit v) \<subseteq> fst ` set (vw_lines v)"
    using d(3) by (auto simp: names_missing_def list_ex_iff)
  fix x assume x: "x \<in> set (vw_lines v)"
  then have "vw_lines v \<noteq> []" by auto
  with lines_last [OF l this x] have "fst x \<le> fst (last (vw_lines v))" "vw_lines v \<noteq> []" by auto
  then show "fst x < vw_next_index v"
    unfolding d(4) [symmetric] by (auto simp: assemble_def Let_def)
qed

subsection \<open>The full states\<close>

lemma full_states_aux:
  assumes "bt_ok m"
  shows "bt_ok (foldl (\<lambda>m l. if fst l \<in> fst ` set m then m else bt_insert (fst l) queued_state m) m ls) \<and>
    map_of (foldl (\<lambda>m l. if fst l \<in> fst ` set m then m else bt_insert (fst l) queued_state m) m ls) =
     (\<lambda>i. case map_of m i of Some st \<Rightarrow> Some st | None \<Rightarrow> if i \<in> fst ` set ls then Some queued_state else None)"
  using assms
proof (induction ls arbitrary: m)
  case (Cons l ls)
  show ?case
  proof (cases "fst l \<in> fst ` set m")
    case True
    then have "map_of m (fst l) \<noteq> None" by (simp add: map_of_eq_None_iff)
    with True Cons.IH [OF Cons.prems] show ?thesis by (auto simp: fun_eq_iff split: option.split)
  next
    case False
    then have "map_of m (fst l) = None" by (simp add: map_of_eq_None_iff)
    with False Cons.IH [of "bt_insert (fst l) queued_state m"] Cons.prems
    show ?thesis by (auto simp: fun_eq_iff split: option.split)
  qed
qed (auto simp: fun_eq_iff split: option.split)

lemma full_states_ok [simp]: "bt_ok (vw_explicit v) \<Longrightarrow> bt_ok (full_states v)"
  using full_states_aux unfolding full_states_def by blast

lemma full_states_lookup:
  "bt_ok (vw_explicit v) \<Longrightarrow> map_of (full_states v) i =
     (case map_of (vw_explicit v) i of Some st \<Rightarrow> Some st
      | None \<Rightarrow> if i \<in> fst ` set (vw_lines v) then Some queued_state else None)"
  unfolding full_states_def by (drule full_states_aux [THEN conjunct2, THEN fun_cong, of _ "vw_lines v" i]) simp

lemma dom_map_of_image: "i \<in> fst ` set m \<longleftrightarrow> map_of m i \<noteq> None"
  by (simp add: map_of_eq_None_iff)

lemma full_states_keys:
  assumes "bt_ok (vw_explicit v)"
  shows "i \<in> fst ` set (full_states v) \<longleftrightarrow> i \<in> fst ` set (vw_explicit v) \<or> i \<in> fst ` set (vw_lines v)"
proof -
  have "i \<in> fst ` set (full_states v) \<longleftrightarrow> map_of (full_states v) i \<noteq> None" by (rule dom_map_of_image)
  also have "\<dots> \<longleftrightarrow> map_of (vw_explicit v) i \<noteq> None \<or> i \<in> fst ` set (vw_lines v)"
    by (cases "map_of (vw_explicit v) i") (simp_all add: full_states_lookup [OF assms])
  finally show ?thesis by (simp only: dom_map_of_image [symmetric])
qed

lemma full_states_idem [simp]:
  assumes "bt_ok (vw_explicit v)"
  shows "full_states (v\<lparr>vw_explicit := full_states v\<rparr>) = full_states v"
  using assms by (intro bt_eqI ext) (auto simp: full_states_lookup split: option.split)

lemma map_of_filter_keys:
  "map_of (filter (\<lambda>kv. fst kv \<notin> P) m) i = (if i \<in> P then None else map_of m i)"
  by (induction m) auto

text \<open>Replaying changes a snapshot has absorbed changes nothing.\<close>

lemma replay_absorbed:
  assumes "bt_ok m" "bt_ok n"
    "\<And>i. i \<notin> P \<Longrightarrow> map_of (bt_extend m cs) i \<noteq> None \<Longrightarrow> map_of n i = map_of (bt_extend m cs) i"
    "fst ` set n \<inter> P = {}"
  shows "filter (\<lambda>kv. fst kv \<notin> P) (bt_extend n cs) = n"
proof (intro bt_eqI ext)
  fix i
  show "map_of (filter (\<lambda>kv. fst kv \<notin> P) (bt_extend n cs)) i = map_of n i"
  proof (cases "i \<in> P")
    case True
    with assms(4) have "map_of n i = None" by (auto simp: map_of_eq_None_iff)
    with True show ?thesis by (simp add: map_of_filter_keys)
  next
    case False
    with assms(3) [OF False] assms(1,2) show ?thesis
      by (cases "map_of (rev cs) i") (auto simp: map_of_filter_keys bt_extend_lookup map_add_def)
  qed
qed (use assms(2) in \<open>simp_all add: bt_filter_ok\<close>)

subsection \<open>The durable steps, one by one\<close>

definition apply_changes :: "(nat \<times> delivery_state) list \<Rightarrow> view \<Rightarrow> view" where
  "apply_changes cs v = v\<lparr>vw_explicit := bt_extend (vw_explicit v) cs,
     vw_journal_records := vw_journal_records v + length cs\<rparr>"

definition states_lines :: "(nat \<times> delivery_state) list \<Rightarrow> journal_record list" where
  "states_lines cs = map (\<lambda>(i, st). State i st) cs"

lemma disk_view_tails [simp]:
  "disk_view (with_journal (\<lambda>f. (g f)\<lparr>jf_tail := t\<rparr>) d) v pr \<longleftrightarrow> disk_view (with_journal g d) v pr"
  by (simp add: disk_view_iff with_journal_def)

lemma filter_bt_extend:
  assumes "bt_ok m" "fst ` set cs \<inter> P = {}"
  shows "filter (\<lambda>kv. fst kv \<notin> P) (bt_extend m cs) = bt_extend (filter (\<lambda>kv. fst kv \<notin> P) m) cs"
proof (intro bt_eqI ext)
  fix i
  have "i \<in> P \<Longrightarrow> map_of (rev cs) i = None" using assms(2) by (auto simp: map_of_eq_None_iff)
  then show "map_of (filter (\<lambda>kv. fst kv \<notin> P) (bt_extend m cs)) i = map_of (bt_extend (filter (\<lambda>kv. fst kv \<notin> P) m) cs) i"
    using assms(1) by (simp add: map_of_filter_keys bt_extend_lookup bt_filter_ok map_add_def split: option.split)
qed (simp_all add: assms bt_filter_ok)

lemma append_states_view:
  assumes "disk_view d v pr" "vw_generation v \<noteq> None" "fst ` set cs \<subseteq> fst ` set (vw_lines v)"
  shows "disk_view (with_journal (append_journal_lines (states_lines cs)) d) (apply_changes cs v) pr"
proof -
  from assms(1) obtain j m q where d: "parse_journal (dk_journal d) = Inr j" "read_snapshot (dk_snapshot d) = Inr m" "bt_ok m"
    "parse_queue (dk_queue d) = Inr q" "\<not> names_missing v" "assemble q m (dk_marker d) j = v" "jn_prune j = pr"
    unfolding disk_view_iff by blast
  from assms(2) d(6) have g: "jn_generation j \<noteq> None" by auto
  have cs: "fst ` set cs \<inter> set pr = {}"
    using assms(3) d(7) unfolding d(6) [symmetric] by auto
  show ?thesis
  proof (rule disk_viewI)
    show "parse_journal (dk_journal (with_journal (append_journal_lines (states_lines cs)) d)) = Inr (j\<lparr>jn_states := jn_states j @ cs\<rparr>)"
      using parse_journal_states [OF d(1) g] by (simp add: with_journal_def states_lines_def)
    show "\<not> names_missing (apply_changes cs v)"
      using d(5) assms(3) by (simp add: not_names_missing apply_changes_def bt_extend_keys)
    show "assemble q m (dk_marker (with_journal (append_journal_lines (states_lines cs)) d)) (j\<lparr>jn_states := jn_states j @ cs\<rparr>) = apply_changes cs v"
      using d(7) cs unfolding d(6) [symmetric]
      by (simp add: assemble_def Let_def apply_changes_def with_journal_def bt_extend_append filter_bt_extend d(3))
  qed (use d in \<open>simp_all add: with_journal_def\<close>)
qed

lemma append_prune_view:
  assumes "disk_view d v []" "vw_generation v \<noteq> None" "distinct is"
  shows "disk_view (with_journal (append_journal_lines [Prune is (vw_next_index v)]) d) (drop_pruned is v) is"
proof -
  from assms(1) obtain j m q where d: "parse_journal (dk_journal d) = Inr j" "read_snapshot (dk_snapshot d) = Inr m" "bt_ok m"
    "parse_queue (dk_queue d) = Inr q" "\<not> names_missing v" "assemble q m (dk_marker d) j = v" "jn_prune j = []"
    unfolding disk_view_iff by blast
  from assms(2) d(6) have g: "jn_generation j \<noteq> None" by auto
  let ?j = "j\<lparr>jn_prune := is, jn_next_index := max (jn_next_index j) (vw_next_index v)\<rparr>"
  have last: "Suc (fst (last (filter (\<lambda>l. fst l \<notin> set is) (vw_lines v)))) \<le> vw_next_index v"
    if "filter (\<lambda>l. fst l \<notin> set is) (vw_lines v) \<noteq> []"
    using last_in_set [OF that] disk_view_facts(4) [OF assms(1)] by (simp add: Suc_le_eq)
  show ?thesis
  proof (rule disk_viewI)
    show "parse_journal (dk_journal (with_journal (append_journal_lines [Prune is (vw_next_index v)]) d)) = Inr ?j"
      using parse_journal_prune [OF d(1) g, of "is"] d(7) by (simp add: with_journal_def)
    show "\<not> names_missing (drop_pruned is v)"
      using d(5) by (auto simp: names_missing_def drop_pruned_def list_ex_iff image_iff) 
    have "vw_lines v = ql_lines q" "vw_explicit v = bt_extend m (jn_states j)" "vw_pruned v = jn_pruned j"
      using d(7) g unfolding d(6) [symmetric] by (auto simp: assemble_def Let_def option.map_ident)
    moreover have "jn_next_index j \<le> vw_next_index v" unfolding d(6) [symmetric] by (simp add: assemble_def Let_def)
    ultimately show "assemble q m (dk_marker (with_journal (append_journal_lines [Prune is (vw_next_index v)]) d)) ?j = drop_pruned is v"
      using d(6) g last distinct_card [OF assms(3)]
      by (intro view.equality) (auto simp: assemble_def Let_def drop_pruned_def with_journal_def max_absorb1 max_absorb2)
  qed (use d in \<open>simp_all add: with_journal_def\<close>)
qed

definition absorbed :: "view \<Rightarrow> view" where
  "absorbed v = v\<lparr>vw_explicit := full_states v\<rparr>"

definition next_generation :: "view \<Rightarrow> nat" where
  "next_generation v = Suc (case vw_generation v of None \<Rightarrow> 0 | Some g \<Rightarrow> g)"

definition next_journal :: "view \<Rightarrow> journal_file" where
  "next_journal v = \<lparr>jf_rows = [JRecord (Header journal_version (next_generation v) (vw_next_index v) (vw_pruned v))], jf_tail = False\<rparr>"

definition renewed :: "view \<Rightarrow> view" where
  "renewed v = v\<lparr>vw_generation := Some (next_generation v), vw_journal_records := 0\<rparr>"

lemma content_simps [simp]: 
  "content (renewed v) = content v" "rewritten (absorbed v) = rewritten v"
  "vw_lines (absorbed v) = vw_lines v" "vw_generation (absorbed v) = vw_generation v" "vw_lines (renewed v) = vw_lines v"
  "vw_explicit (absorbed v) = full_states v" "vw_generation (renewed v) \<noteq> None"
  by (simp_all add: content_def renewed_def absorbed_def full_states_def rewritten_def)

lemma content_absorbed: "disk_view d v pr \<Longrightarrow> content (absorbed v) = content v"
  using disk_view_facts(1) by (simp add: content_def absorbed_def)

lemma snapshot_view:
  assumes "disk_view d v pr"
  shows "disk_view (d\<lparr>dk_snapshot := Snapshot (full_states v)\<rparr>) (absorbed v) pr"
proof -
  note ok = disk_view_facts(1) [OF assms]
  from assms obtain j m q where d: "parse_journal (dk_journal d) = Inr j" "bt_ok m"
    "parse_queue (dk_queue d) = Inr q" "\<not> names_missing v" "assemble q m (dk_marker d) j = v" "jn_prune j = pr"
    unfolding disk_view_iff by blast
  have keys: "fst ` set (full_states v) \<subseteq> fst ` set (vw_lines v)"
    using d(4) full_states_keys [OF ok] unfolding not_names_missing by blast
  have "filter (\<lambda>kv. fst kv \<notin> set pr) (bt_extend (full_states v) (jn_states j)) = full_states v"
  proof (rule replay_absorbed [OF d(2) full_states_ok [OF ok]])
    fix i assume "i \<notin> set pr" "map_of (bt_extend m (jn_states j)) i \<noteq> None"
    moreover from this d(6) have "map_of (vw_explicit v) i = map_of (bt_extend m (jn_states j)) i"
      unfolding d(5) [symmetric] by (simp add: map_of_filter_keys)
    ultimately show "map_of (full_states v) i = map_of (bt_extend m (jn_states j)) i"
      by (auto simp: full_states_lookup [OF ok])
  next
    have "fst ` set (vw_lines v) \<inter> set pr = {}" unfolding d(5) [symmetric] using d(6) by auto
    with keys show "fst ` set (full_states v) \<inter> set pr = {}" by blast
  qed
  with d(5,6) have "assemble q (full_states v) (dk_marker d) j = absorbed v"
    by (auto simp: assemble_def Let_def absorbed_def)
  then show ?thesis
    using d keys ok by (intro disk_viewI [where j = j and q = q and m = "full_states v"])
      (simp_all add: read_snapshot_def not_names_missing)
qed

lemma marker_view:
  assumes "disk_view d v pr" "vw_generation v \<noteq> None"
  shows "disk_view (d\<lparr>dk_marker := True\<rparr>) v pr"
proof -
  from assms obtain j m q where d: "parse_journal (dk_journal d) = Inr j" "read_snapshot (dk_snapshot d) = Inr m" "bt_ok m"
    "parse_queue (dk_queue d) = Inr q" "\<not> names_missing v" "assemble q m (dk_marker d) j = v" "jn_prune j = pr"
    unfolding disk_view_iff by blast
  obtain g where "jn_generation j = Some g" using assms(2) d(6) by auto
  with d(6) have "assemble q m True j = v" by (simp add: assemble_def Let_def)
  with d show ?thesis by (intro disk_viewI [where j = j and q = q and m = m]) simp_all
qed

lemma queue_view:
  assumes "disk_view d v pr" "vw_generation v \<noteq> None"
  shows "disk_view (with_queue (\<lambda>_. rewritten v) d) v pr"
proof -
  from assms obtain j m q where d: "parse_journal (dk_journal d) = Inr j" "read_snapshot (dk_snapshot d) = Inr m" "bt_ok m"
    "\<not> names_missing v" "assemble q m (dk_marker d) j = v" "jn_prune j = pr"
    unfolding disk_view_iff by blast
  obtain b where q: "parse_queue (rewritten v) = Inr \<lparr>ql_lines = vw_lines v, ql_pruning_evident = b\<rparr>"
    using parse_rewritten [OF disk_view_facts(2) [OF assms(1)]] by blast
  have "assemble \<lparr>ql_lines = vw_lines v, ql_pruning_evident = b\<rparr> m (dk_marker d) j = v"
  proof -
    obtain g where "jn_generation j = Some g" using assms(2) d(5) by auto
    then show ?thesis using d(6) unfolding d(5) [symmetric] by (simp add: assemble_def Let_def)
  qed
  with d q show ?thesis
    by (intro disk_viewI [where j = j and q = "\<lparr>ql_lines = vw_lines v, ql_pruning_evident = b\<rparr>" and m = m])
      (simp_all add: with_queue_def)
qed

lemma journal_view:
  assumes "disk_view d v pr" "read_snapshot (dk_snapshot d) = Inr (vw_explicit v)"
    "parse_queue (dk_queue d) = Inr q" "ql_lines q = vw_lines v"
  shows "disk_view (with_journal (\<lambda>_. next_journal v) d) (renewed v) []"
proof -
  note ok = disk_view_facts [OF assms(1)]
  let ?j = "\<lparr>jn_generation = Some (next_generation v), jn_next_index = vw_next_index v, jn_pruned = vw_pruned v,
    jn_states = [], jn_prune = []\<rparr>"
  have n: "max (vw_next_index v) (if vw_lines v = [] then 0 else Suc (fst (last (vw_lines v)))) = vw_next_index v"
    using ok(4) [of "last (vw_lines v)"] by (simp add: max_absorb1 Suc_le_eq)
  have "\<not> names_missing v" using assms(1) unfolding disk_view_iff by blast
  moreover have "assemble q (vw_explicit v) (dk_marker d) ?j = renewed v"
    using n by (cases "vw_lines v = []") (simp_all add: assemble_def Let_def renewed_def assms(4) bt_extend_def option.map_ident)
  ultimately show ?thesis
    using assms(2,3) ok(1)
    by (intro disk_viewI [where q = q and m = "vw_explicit v" and j = ?j])
      (simp_all add: with_journal_def next_journal_def parse_journal_header [simplified] not_names_missing renewed_def)
qed

lemma disk_view_queue_lines:
  assumes "disk_view d v []"
  obtains q where "parse_queue (dk_queue d) = Inr q" "ql_lines q = vw_lines v"
proof -
  from assms obtain j m q where d: "parse_queue (dk_queue d) = Inr q" "assemble q m (dk_marker d) j = v" "jn_prune j = []"
    unfolding disk_view_iff by blast
  have "ql_lines q = vw_lines v" unfolding d(2) [symmetric] by (simp add: d(3))
  with d(1) that show thesis by blast
qed

lemma enqueue_view:
  assumes "synced d v"
  shows "synced (with_queue (append_queue_line (QBatch (vw_next_index v) e)) d)
    (v\<lparr>vw_lines := vw_lines v @ [(vw_next_index v, e)], vw_next_index := Suc (vw_next_index v)\<rparr>)"
proof -
  from assms have dv: "disk_view d v []" and t: "qf_tail (dk_queue d) = No_tail" "\<not> jf_tail (dk_journal d)"
    by (simp_all add: synced_def)
  from dv obtain j m q where d: "parse_journal (dk_journal d) = Inr j" "read_snapshot (dk_snapshot d) = Inr m" "bt_ok m"
    "parse_queue (dk_queue d) = Inr q" "\<not> names_missing v" "assemble q m (dk_marker d) j = v" "jn_prune j = []"
    unfolding disk_view_iff by blast
  have l: "ql_lines q = vw_lines v" unfolding d(6) [symmetric] by (simp add: d(7))
  with disk_view_facts(4) [OF dv] have lt: "\<forall>x \<in> set (ql_lines q). fst x < vw_next_index v" by simp
  have n: "vw_next_index v = max (jn_next_index j) (if ql_lines q = [] then 0 else Suc (fst (last (ql_lines q))))"
    unfolding d(6) [symmetric] using d(7) by (simp add: assemble_def Let_def)
  have fresh: "jn_generation j = None \<Longrightarrow> jn_next_index j = 0"
    using parse_journal_fresh [OF d(1)] by (simp add: journal_start_def)
  have "disk_view (with_queue (append_queue_line (QBatch (vw_next_index v) e)) d)
    (v\<lparr>vw_lines := vw_lines v @ [(vw_next_index v, e)], vw_next_index := Suc (vw_next_index v)\<rparr>) []"
  proof (rule disk_viewI)
    show "parse_queue (dk_queue (with_queue (append_queue_line (QBatch (vw_next_index v) e)) d)) = 
      Inr (q\<lparr>ql_lines := ql_lines q @ [(vw_next_index v, e)], ql_pruning_evident := ql_pruning_evident q \<or>
        (if ql_lines q = [] then 0 else Suc (fst (last (ql_lines q)))) < vw_next_index v\<rparr>)"
      using parse_queue_snoc [OF d(4) t(1) lt] by (simp add: with_queue_def)
    show "assemble (q\<lparr>ql_lines := ql_lines q @ [(vw_next_index v, e)], ql_pruning_evident := ql_pruning_evident q \<or>
        (if ql_lines q = [] then 0 else Suc (fst (last (ql_lines q)))) < vw_next_index v\<rparr>) m
        (dk_marker (with_queue (append_queue_line (QBatch (vw_next_index v) e)) d)) j
      = v\<lparr>vw_lines := vw_lines v @ [(vw_next_index v, e)], vw_next_index := Suc (vw_next_index v)\<rparr>"
      using n fresh d(7) unfolding d(6) [symmetric]
      by (auto simp: assemble_def Let_def with_queue_def max_def)
    show "\<not> names_missing (v\<lparr>vw_lines := vw_lines v @ [(vw_next_index v, e)], vw_next_index := Suc (vw_next_index v)\<rparr>)"
      using d(5) by (auto simp: not_names_missing)
  qed (use d in \<open>simp_all add: with_queue_def\<close>)
  with t show ?thesis by (simp add: synced_def with_queue_def append_queue_line_def)
qed

subsection \<open>The writer against its disk\<close>

text \<open>Between the calls of one process the writer's memory is what a load of its disk would read.\<close>

definition in_sync :: "spool \<Rightarrow> bool" where
  "in_sync s \<longleftrightarrow> (case sp_writer s of None \<Rightarrow> False | Some w \<Rightarrow> \<not> wr_failed w \<and> synced (sp_disk s) (wr_view w))"

definition spool_view :: "spool \<Rightarrow> view" where
  "spool_view s = wr_view (the (sp_writer s))"

definition holds_content :: "spool_disk \<Rightarrow> outbox \<Rightarrow> bool" where
  "holds_content d c \<longleftrightarrow> (\<exists>v pr. disk_view d v pr \<and> content v = c)"

lemma holds_contentI: "disk_view d v pr \<Longrightarrow> content v = c \<Longrightarrow> holds_content d c"
  unfolding holds_content_def by blast

lemma in_syncE:
  assumes "in_sync s"
  obtains w where "sp_writer s = Some w" "\<not> wr_failed w" "spool_view s = wr_view w" "synced (sp_disk s) (spool_view s)"
  using assms by (auto simp: in_sync_def spool_view_def split: option.splits)

lemma replace_file_cases:
  assumes "replace_file f s = (r, s')"
  obtains (finished) "r = Inr ()" "sp_disk s' = f (sp_disk s)" "sp_writer s' = sp_writer s" "sp_locked s' = sp_locked s"
    | (error) e where "r = Inl e" "sp_disk s' = sp_disk s \<or> sp_disk s' = f (sp_disk s)" "sp_writer s' = sp_writer s"
       "sp_locked s' = sp_locked s"
  using assms
  by (cases "sp_faults s") (auto simp: replace_file_def next_fault_def on_disk_def split: option.splits io_fault.splits if_splits)

lemma get_view_run [exec_simps]:
  "get_view s = (case sp_writer s of None \<Rightarrow> (Inl Read_only, s) | Some w \<Rightarrow> (Inr (wr_view w), s))"
  by (simp add: get_view_def get_writer_def and_then_def ret_def split: option.split)

lemma replace_journal_cases:
  assumes "replace_journal s = (r, s')" "sp_writer s = Some w" "wr_view w = v"
  obtains (finished) "r = Inr ()" "sp_disk s' = with_journal (\<lambda>_. next_journal v) (sp_disk s)"
      "sp_writer s' = Some (w\<lparr>wr_view := renewed v\<rparr>)" "sp_locked s' = sp_locked s"
    | (error) e where "r = Inl e" "sp_disk s' = sp_disk s \<or> sp_disk s' = with_journal (\<lambda>_. next_journal v) (sp_disk s)"
       "sp_writer s' = Some w" "sp_locked s' = sp_locked s"
proof -
  let ?m = "replace_file (with_journal (\<lambda>_. next_journal v))"
  have run: "replace_journal s = and_then ?m (\<lambda>_. modify (change_view renewed')) s"
    if "renewed' = (\<lambda>u. u\<lparr>vw_generation := Some (next_generation v), vw_journal_records := 0\<rparr>)" for renewed'
    using assms(2,3) by (simp add: replace_journal_def exec_simps next_journal_def next_generation_def Let_def that)
  obtain r1 s1 where m: "?m s = (r1, s1)" by (cases "?m s")
  from m show thesis
  proof (cases rule: replace_file_cases)
    case finished
    with assms run [OF refl] m show thesis
      by (intro that(1)) (auto simp: and_then_def modify_def change_view_def change_writer_def renewed_def)
  next
    case (error e)
    with assms run [OF refl] m show thesis by (intro that(2)) (auto simp: and_then_def)
  qed
qed

lemma fold_spool_safe:
  assumes run: "fold_spool pruning s = (r, s')"
    and w: "sp_writer s = Some w" "wr_view w = v"
    and dv: "disk_view (sp_disk s) v pr" and tails: "qf_tail (dk_queue (sp_disk s)) = No_tail"
    and pr: "if pruning then vw_generation v \<noteq> None else pr = []"
  shows "(case r of
      Inl _ \<Rightarrow> holds_content (sp_disk s') (content v)
    | Inr _ \<Rightarrow> sp_writer s' = Some (w\<lparr>wr_view := renewed (absorbed v)\<rparr>) \<and> synced (sp_disk s') (renewed (absorbed v)))
    \<and> sp_locked s' = sp_locked s"
proof -
  let ?s1 = "change_view (\<lambda>v. v\<lparr>vw_explicit := full_states v\<rparr>) s"
  let ?w = "w\<lparr>wr_view := absorbed v\<rparr>"
  have s1: "sp_writer ?s1 = Some ?w" "sp_disk ?s1 = sp_disk s" "sp_locked ?s1 = sp_locked s"
    using w by (simp_all add: change_view_def change_writer_def absorbed_def)
  let ?first = "if pruning then and_then record_pruning (\<lambda>_. and_then get_view (\<lambda>v.
         replace_file (with_queue (\<lambda>_. rewritten v)))) else ret ()"
  let ?rest = "and_then get_view (\<lambda>v.
     and_then (replace_file (\<lambda>d. d\<lparr>dk_snapshot := Snapshot (vw_explicit v)\<rparr>)) (\<lambda>_. replace_journal))"
  have split: "fold_spool pruning s = and_then ?first (\<lambda>_. ?rest) ?s1"
    by (simp add: fold_spool_def and_then_def modify_def)
  obtain r2 s2 where first: "?first ?s1 = (r2, s2)" by (cases "?first ?s1")
  have A: "sp_writer s2 = Some ?w \<and> sp_locked s2 = sp_locked s \<and> disk_view (sp_disk s2) v pr \<and>
     qf_tail (dk_queue (sp_disk s2)) = No_tail \<and>
     (r2 = Inr () \<longrightarrow> (\<exists>q. parse_queue (dk_queue (sp_disk s2)) = Inr q \<and> ql_lines q = vw_lines v))"
  proof (cases pruning)
    case False
    with first have "r2 = Inr ()" "s2 = ?s1" by (simp_all add: ret_def)
    moreover from False pr have "pr = []" by simp
    with dv obtain q where "parse_queue (dk_queue (sp_disk s)) = Inr q" "ql_lines q = vw_lines v"
      by (metis disk_view_queue_lines)
    ultimately show ?thesis using dv tails s1 by auto
  next
    case True
    with pr have g: "vw_generation v \<noteq> None" by simp
    obtain r3 s3 where m: "record_pruning ?s1 = (r3, s3)" by (cases "record_pruning ?s1")
    have s3: "sp_writer s3 = Some ?w \<and> sp_locked s3 = sp_locked s \<and> disk_view (sp_disk s3) v pr \<and>
        qf_tail (dk_queue (sp_disk s3)) = No_tail"
    proof (cases "dk_marker (sp_disk ?s1)")
      case True
      with m have "s3 = ?s1" by (simp add: record_pruning_def get_disk_def exec_simps)
      with s1 dv tails show ?thesis by simp
    next
      case False
      with m have "replace_file (\<lambda>d. d\<lparr>dk_marker := True\<rparr>) ?s1 = (r3, s3)"
        by (simp add: record_pruning_def get_disk_def exec_simps)
      then show ?thesis
        by (cases rule: replace_file_cases) (use s1 dv tails marker_view [OF dv g] in auto)
    qed
    show ?thesis
    proof (cases r3)
      case (Inl e)
      with first m True have "s2 = s3" "r2 = Inl e" by (simp_all add: and_then_def)
      with s3 show ?thesis by simp
    next
      case (Inr u)
      with first m True s3 have "replace_file (with_queue (\<lambda>_. rewritten v)) s3 = (r2, s2)"
        by (simp add: and_then_def get_view_run)
      then show ?thesis
      proof (cases rule: replace_file_cases)
        case finished
        obtain b where "parse_queue (rewritten v) = Inr \<lparr>ql_lines = vw_lines v, ql_pruning_evident = b\<rparr>"
          using parse_rewritten [OF disk_view_facts(2) [OF dv]] by blast
        with finished s3 queue_view [OF _ g, of "sp_disk s3" pr] show ?thesis
          by (simp add: with_queue_def rewritten_def)
      next
        case (error e)
        with s3 queue_view [OF _ g, of "sp_disk s3" pr] show ?thesis
          by (auto simp: with_queue_def rewritten_def)
      qed
    qed
  qed
  show ?thesis
  proof (cases r2)
    case (Inl e)
    with first split run have "r = Inl e" "s' = s2" by (simp_all add: and_then_def)
    moreover from A have "holds_content (sp_disk s2) (content v)" by (blast intro: holds_contentI)
    ultimately show ?thesis using A by simp
  next
    case (Inr u)
    with A obtain q where q: "parse_queue (dk_queue (sp_disk s2)) = Inr q" "ql_lines q = vw_lines v" by auto
    from A have dv2: "disk_view (sp_disk s2) v pr" by simp
    from Inr first split run A have rest: "and_then (replace_file (\<lambda>d. d\<lparr>dk_snapshot := Snapshot (full_states v)\<rparr>)) (\<lambda>_. replace_journal) s2 = (r, s')"
      by (simp add: and_then_def get_view_run)
    note c = content_absorbed [OF dv]
    obtain r4 s4 where m: "replace_file (\<lambda>d. d\<lparr>dk_snapshot := Snapshot (full_states v)\<rparr>) s2 = (r4, s4)"
      by (cases "replace_file (\<lambda>d. d\<lparr>dk_snapshot := Snapshot (full_states v)\<rparr>) s2")
    from m show ?thesis
    proof (cases rule: replace_file_cases)
      case (error e)
      with rest m have "r = Inl e" "s' = s4" by (simp_all add: and_then_def)
      moreover have "holds_content (sp_disk s4) (content v)"
        using error(2) holds_contentI [OF dv2 refl] holds_contentI [OF snapshot_view [OF dv2] c] by auto
      ultimately show ?thesis using error A by simp
    next
      case finished
      with rest m have j: "replace_journal s4 = (r, s')" by (simp add: and_then_def)
      have dv4: "disk_view (sp_disk s4) (absorbed v) pr" using finished snapshot_view [OF dv2] by simp
      have jv: "disk_view (with_journal (\<lambda>_. next_journal (absorbed v)) (sp_disk s4)) (renewed (absorbed v)) []"
        using finished q by (intro journal_view [OF dv4, of q]) (simp_all add: read_snapshot_def)
      have t4: "qf_tail (dk_queue (sp_disk s4)) = No_tail" using finished A by simp
      from finished A have "sp_writer s4 = Some ?w" "wr_view ?w = absorbed v" by simp_all
      from j this show ?thesis
      proof (cases rule: replace_journal_cases)
        case finished
        with jv t4 A \<open>sp_locked s4 = sp_locked s2\<close> show ?thesis
          by (simp add: synced_def with_journal_def next_journal_def)
      next
        case (error e)
        moreover have "holds_content (sp_disk s') (content v)"
          using error(2) holds_contentI [OF dv4 c] holds_contentI [OF jv] c by auto
        ultimately show ?thesis using A \<open>sp_locked s4 = sp_locked s2\<close> by simp
      qed
    qed
  qed
qed

lemma synced_renewed:
  assumes "synced d v" "vw_generation v = None"
  shows "synced (with_journal (\<lambda>_. next_journal v) d) (renewed v)"
proof -
  from assms have dv: "disk_view d v []" by (simp add: synced_def)
  then obtain j m q where d: "parse_journal (dk_journal d) = Inr j" "read_snapshot (dk_snapshot d) = Inr m"
    "parse_queue (dk_queue d) = Inr q" "assemble q m (dk_marker d) j = v" "jn_prune j = []"
    unfolding disk_view_iff by blast
  with assms(2) have "jn_generation j = None" by auto
  from parse_journal_fresh [OF d(1) this] have "jn_states j = []" by (simp add: journal_start_def)
  then have "vw_explicit v = m" "ql_lines q = vw_lines v"
    unfolding d(4) [symmetric] using d(5) by (simp_all add: bt_extend_def)
  with journal_view [OF dv, of q] d assms(1) show ?thesis
    by (simp add: synced_def with_journal_def next_journal_def)
qed

lemma write_records_cases:
  assumes "write_records rs s = (r, s')"
  obtains (finished) "r = Inr ()" "sp_disk s' = with_journal (append_journal_lines rs) (sp_disk s)"
       "sp_writer s' = sp_writer s" "sp_locked s' = sp_locked s"
    | (error) e k t where "r = Inl e" "sp_disk s' = sp_disk s \<or> sp_disk s' = with_journal (tear_journal k t rs) (sp_disk s)"
       "sp_locked s' = sp_locked s" "sp_writer s' = None \<longleftrightarrow> sp_writer s = None"
       "e \<noteq> Died \<Longrightarrow> sp_writer s' = map_option (\<lambda>w. w\<lparr>wr_failed := True\<rparr>) (sp_writer s)"
proof (cases "next_fault s")
  case (Pair f s1)
  have s1: "sp_disk s1 = sp_disk s" "sp_writer s1 = sp_writer s" "sp_locked s1 = sp_locked s"
    using Pair by (auto simp: next_fault_def split: list.splits)
  show thesis
  proof (cases f)
    case None
    with assms Pair s1 show thesis by (intro finished) (auto simp: write_records_def on_disk_def)
  next
    case (Some x)
    show thesis
    proof (cases x)
      case (Dies k t)
      with assms Pair Some s1 show thesis
        by (intro error [of Died k t]) (auto simp: write_records_def on_disk_def)
    next
      case (Fails k t b)
      with assms Pair Some s1 show thesis
        by (intro error [of Io k t]) (auto simp: write_records_def on_disk_def change_writer_def split: if_splits)
    qed
  qed
qed

lemma append_to_journal_ready:
  assumes run: "append_to_journal rs s = (r, s')" and sync: "in_sync s"
  obtains (early) e where "r = Inl e" "holds_content (sp_disk s') (content (spool_view s))" "sp_locked s' = sp_locked s"
    | (ready) s1 where "write_records rs s1 = (r, s')" "in_sync s1" "content (spool_view s1) = content (spool_view s)"
       "vw_lines (spool_view s1) = vw_lines (spool_view s)" "vw_explicit (spool_view s1) = vw_explicit (spool_view s)"
       "vw_next_index (spool_view s1) = vw_next_index (spool_view s)"
       "vw_generation (spool_view s1) \<noteq> None" "sp_locked s1 = sp_locked s"
proof -
  from sync obtain w where w: "sp_writer s = Some w" "\<not> wr_failed w" "spool_view s = wr_view w" "synced (sp_disk s) (spool_view s)"
    by (rule in_syncE)
  show thesis
  proof (cases "vw_generation (wr_view w) = None")
    case False
    with run w have "write_records rs s = (r, s')"
      by (simp add: append_to_journal_def exec_simps get_writer_def)
    from this sync show thesis by (rule ready) (use False w in simp_all)
  next
    case True
    obtain r1 s1 where m: "replace_journal s = (r1, s1)" by (cases "replace_journal s")
    have run': "and_then replace_journal (\<lambda>_. write_records rs) s = (r, s')"
      using run w True by (simp add: append_to_journal_def and_then_def get_writer_def)
    have new: "synced (with_journal (\<lambda>_. next_journal (wr_view w)) (sp_disk s)) (renewed (wr_view w))"
      using synced_renewed w True by simp
    from m w(1) refl show thesis
    proof (cases rule: replace_journal_cases)
      case finished
      have v1: "spool_view s1 = renewed (wr_view w)" using finished by (simp add: spool_view_def)
      from run' m finished have "write_records rs s1 = (r, s')" by (simp add: and_then_def)
      then show thesis
        by (rule ready) (use finished w new v1 in \<open>simp_all add: in_sync_def\<close>, simp_all add: renewed_def)
    next
      case (error e)
      from run' m error have r: "r = Inl e" "s' = s1" by (simp_all add: and_then_def)
      from w(4) have "disk_view (sp_disk s) (wr_view w) []" using w(3) by (simp add: synced_def)
      from holds_contentI [OF this refl] new error r w(3) show thesis
        by (intro early) (auto intro: holds_contentI simp: synced_def)
    qed
  qed
qed

lemma tear_journal_append:
  "tear_journal k t rs f = (append_journal_lines (take k rs) f)\<lparr>jf_tail := jf_tail f \<or> (k < length rs \<and> t \<noteq> Nothing_more)\<rparr>"
  by (simp add: tear_journal_def)

lemma disk_view_tear:
  "disk_view (with_journal (tear_journal k t rs) d) v pr \<longleftrightarrow> disk_view (with_journal (append_journal_lines (take k rs)) d) v pr"
  by (simp add: tear_journal_def with_journal_def disk_view_iff)

lemma content_apply: "content v = content v' \<Longrightarrow> vw_explicit v = vw_explicit v' \<Longrightarrow> content (apply_changes cs v) = content (apply_changes cs v')"
  by (simp add: content_def apply_changes_def full_states_def)

lemma record_changes_safe:
  assumes run: "record_changes cs s = (r, s')" and sync: "in_sync s"
    and keys: "fst ` set cs \<subseteq> fst ` set (vw_lines (spool_view s))"
  shows "(case r of
      Inr _ \<Rightarrow> in_sync s' \<and> content (spool_view s') = content (apply_changes cs (spool_view s))
    | Inl _ \<Rightarrow> \<exists>k. holds_content (sp_disk s') (content (apply_changes (take k cs) (spool_view s))))
    \<and> sp_locked s' = sp_locked s"
proof (cases "cs = []")
  case True
  with run have "r = Inr ()" "s' = s" by (simp_all add: record_changes_def ret_def)
  with sync True show ?thesis by (simp add: apply_changes_def bt_extend_def)
next
  case False
  obtain r1 s1 where a: "append_to_journal (states_lines cs) s = (r1, s1)" by (cases "append_to_journal (states_lines cs) s")
  have run': "and_then (append_to_journal (states_lines cs)) (\<lambda>_. modify (change_view (apply_changes cs))) s = (r, s')"
  proof -
    have "(\<lambda>v. v\<lparr>vw_journal_records := vw_journal_records v + length cs, vw_explicit := bt_extend (vw_explicit v) cs\<rparr>)
      = apply_changes cs" by (intro ext view.equality) (simp_all add: apply_changes_def)
    with run False show ?thesis by (simp add: record_changes_def states_lines_def)
  qed
  from a sync show ?thesis
  proof (cases rule: append_to_journal_ready)
    case (early e)
    with run' a have "r = Inl e" "s' = s1" by (simp_all add: and_then_def)
    moreover have "apply_changes (take 0 cs) (spool_view s) = spool_view s" by (simp add: apply_changes_def bt_extend_def)
    ultimately show ?thesis using early by (auto intro: exI [of _ 0])
  next
    case (ready s0)
    from ready(2) obtain w where w: "sp_writer s0 = Some w" "\<not> wr_failed w" "spool_view s0 = wr_view w" "synced (sp_disk s0) (spool_view s0)"
      by (rule in_syncE)
    then have dv: "disk_view (sp_disk s0) (spool_view s0) []" by (simp add: synced_def)
    have appended: "disk_view (with_journal (append_journal_lines (states_lines cs')) (sp_disk s0)) (apply_changes cs' (spool_view s0)) []"
      if "set cs' \<subseteq> set cs" for cs'
      using append_states_view [OF dv ready(7), of cs'] that keys ready(4) by auto
    note c = content_apply [OF ready(3,5)]
    from ready(1) show ?thesis
    proof (cases rule: write_records_cases)
      case finished
      with run' a have "r = Inr ()" "s' = change_view (apply_changes cs) s1"
        by (simp_all add: and_then_def modify_def)
      with finished w appended [of cs] c [of cs] ready(8) show ?thesis
        by (auto simp: in_sync_def synced_def change_view_def change_writer_def spool_view_def with_journal_def
            append_journal_lines_def)
    next
      case (error e k t)
      with run' a have r: "r = Inl e" "s' = s1" by (simp_all add: and_then_def)
      from error(2) show ?thesis
      proof
        assume "sp_disk s1 = sp_disk s0"
        with holds_contentI [OF dv] c [of "[]"] have "holds_content (sp_disk s1) (content (apply_changes (take 0 cs) (spool_view s)))"
          by (simp add: apply_changes_def bt_extend_def)
        with r error ready show ?thesis by (auto simp del: take0)
      next
        assume d: "sp_disk s1 = with_journal (tear_journal k t (states_lines cs)) (sp_disk s0)"
        have "take k (states_lines cs) = states_lines (take k cs)" by (simp add: states_lines_def take_map)
        with d appended [of "take k cs"] set_take_subset [of k cs] c [of "take k cs"]
        have "holds_content (sp_disk s1) (content (apply_changes (take k cs) (spool_view s)))"
          by (auto intro: holds_contentI simp: disk_view_tear)
        with r error ready show ?thesis by auto
      qed
    qed
  qed
qed


subsection \<open>The outbox the spool implements\<close>

text \<open>The abstract spool: the retained batches, the state of each, the index of the next one and how
  many delivered ones are gone. No files, generations or faults.\<close>

datatype spool_call =
    Enqueue spool_entry
  | Claim nat int
  | Failure nat string
  | Hold nat string
  | Acceptance nat "uuid list" nat
  | Requeue "nat option" int

datatype spool_answer = Index nat | Flag bool | Nothing | Count nat

definition ox_state :: "outbox \<Rightarrow> nat \<Rightarrow> spool_error + delivery_state" where
  "ox_state x i = (case map_of (ox_states x) i of None \<Rightarrow> Inl No_such_batch | Some st \<Rightarrow> Inr st)"

definition ox_put :: "(nat \<times> delivery_state) list \<Rightarrow> outbox \<Rightarrow> outbox" where
  "ox_put cs x = x\<lparr>ox_states := bt_extend (ox_states x) cs\<rparr>"

definition ox_dead :: "nat option \<Rightarrow> outbox \<Rightarrow> (nat \<times> delivery_state) list" where
  "ox_dead chosen x = filter (\<lambda>(i, st). ds_status st = Dead \<and> (case chosen of None \<Rightarrow> True | Some index \<Rightarrow> index = i)) (ox_states x)"

text \<open>The changes of one batch a call makes, with its answer.\<close>

fun ox_changes :: "spool_call \<Rightarrow> outbox \<Rightarrow> spool_error + (nat \<times> delivery_state) list \<times> spool_answer" where
  "ox_changes (Enqueue e) x = Inr ([], Index (ox_next x))"
| "ox_changes (Claim i now) x = res_map (\<lambda>st. case claim_change now st of
       (None, b) \<Rightarrow> ([], Flag b) | (Some st', b) \<Rightarrow> ([(i, st')], Flag b)) (ox_state x i)"
| "ox_changes (Failure i error) x = res_map (\<lambda>st. ([(i, st)], Nothing)) (res_bind (ox_state x i) (failure_change error))"
| "ox_changes (Hold i reason) x = res_map (\<lambda>c. case c of None \<Rightarrow> ([], Nothing) | Some st \<Rightarrow> ([(i, st)], Nothing))
      (res_bind (ox_state x i) (hold_change reason))"
| "ox_changes (Acceptance i accepted withheld) x = (case map_of (ox_lines x) i of
       None \<Rightarrow> Inl No_such_batch
     | Some e \<Rightarrow> (case doc_events (se_document e) of
         None \<Rightarrow> Inl No_events
       | Some events \<Rightarrow> res_map (\<lambda>st. ([(i, st)], Nothing)) (res_bind (ox_state x i) (acceptance_change events accepted withheld))))"
| "ox_changes (Requeue chosen now) x = res_bind (case chosen of None \<Rightarrow> Inr ()
       | Some i \<Rightarrow> res_bind (ox_state x i) (\<lambda>st. if ds_status st = Dead then Inr () else Inl Not_dead))
     (\<lambda>_. Inr (map (\<lambda>(i, st). (i, requeue_change now st)) (ox_dead chosen x), Count (length (ox_dead chosen x))))"

fun ox_grow :: "spool_call \<Rightarrow> outbox \<Rightarrow> outbox" where
  "ox_grow (Enqueue e) x = x\<lparr>ox_lines := ox_lines x @ [(ox_next x, e)], ox_next := Suc (ox_next x),
     ox_states := ox_states x @ [(ox_next x, queued_state)]\<rparr>"
| "ox_grow _ x = x"

definition ox_perform :: "spool_call \<Rightarrow> outbox \<Rightarrow> spool_error + spool_answer \<times> outbox" where
  "ox_perform c x = res_map (\<lambda>(cs, a). (a, ox_put cs (ox_grow c x))) (ox_changes c x)"

text \<open>The same call on the spool.\<close>

fun perform :: "spool_call \<Rightarrow> spool_answer spool_op" where
  "perform (Enqueue e) = and_then (enqueue e) (\<lambda>i. ret (Index i))"
| "perform (Claim i now) = and_then (claim i now) (\<lambda>b. ret (Flag b))"
| "perform (Failure i error) = and_then (record_failure i error) (\<lambda>_. ret Nothing)"
| "perform (Hold i reason) = and_then (hold i reason) (\<lambda>_. ret Nothing)"
| "perform (Acceptance i accepted withheld) = and_then (record_acceptance i accepted withheld) (\<lambda>_. ret Nothing)"
| "perform (Requeue chosen now) = and_then (requeue chosen now) (\<lambda>n. ret (Count n))"

lemma state_of_content:
  assumes "bt_ok (vw_explicit v)"
  shows "state_of v i = ox_state (content v) i"
proof (cases "map_of (vw_explicit v) i")
  case None
  show ?thesis
  proof (cases "map_of (vw_lines v) i")
    case None': None
    then have "i \<notin> fst ` set (vw_lines v)" by (simp add: map_of_eq_None_iff)
    with None None' show ?thesis
      by (simp add: state_of_def ox_state_def content_def line_of_def full_states_lookup [OF assms])
  next
    case (Some e)
    then have "i \<in> fst ` set (vw_lines v)" by (force dest: map_of_SomeD)
    with None Some show ?thesis
      by (simp add: state_of_def ox_state_def content_def line_of_def full_states_lookup [OF assms])
  qed
next
  case (Some st)
  then show ?thesis
    using full_states_lookup [OF assms, of i] by (simp add: state_of_def ox_state_def content_def)
qed

lemma content_apply_changes:
  assumes "bt_ok (vw_explicit v)"
  shows "content (apply_changes cs v) = ox_put cs (content v)"
proof -
  have ok: "bt_ok (vw_explicit (apply_changes cs v))" using assms by (simp add: apply_changes_def)
  have "full_states (apply_changes cs v) = bt_extend (full_states v) cs"
  proof (intro bt_eqI ext)
    fix i
    show "map_of (full_states (apply_changes cs v)) i = map_of (bt_extend (full_states v) cs) i"
      unfolding full_states_lookup [OF ok]
      by (cases "map_of (rev cs) i")
        (simp_all add: apply_changes_def bt_extend_lookup assms map_add_def full_states_lookup)
  qed (simp_all add: assms ok)
  then show ?thesis by (simp add: content_def ox_put_def apply_changes_def)
qed

lemma dead_content:
  assumes "bt_ok (vw_explicit v)"
  shows "filter (\<lambda>(i, st). ds_status st = Dead \<and> (case chosen of None \<Rightarrow> True | Some index \<Rightarrow> index = i)) (vw_explicit v)
    = ox_dead chosen (content v)"
  unfolding ox_dead_def
proof (rule bt_eqI)
  let ?P = "\<lambda>i st. ds_status st = Dead \<and> (case chosen of None \<Rightarrow> True | Some index \<Rightarrow> index = i)"
  have f: "map_of (filter (\<lambda>(i, st). P i st) m) k = (case map_of m k of None \<Rightarrow> None | Some st \<Rightarrow> if P k st then Some st else None)"
    if "bt_ok m" for P and m :: "(nat, delivery_state) btree" and k
    using bt_ok_distinct [OF that] by (induction m) (auto split: option.split simp: map_of_eq_None_iff [THEN iffD2])
  show "map_of (filter (\<lambda>(i, st). ?P i st) (vw_explicit v)) = map_of (filter (\<lambda>(i, st). ?P i st) (ox_states (content v)))"
    unfolding f [OF assms] content_def
    by (intro ext) (simp add: f assms full_states_lookup queued_state_def split: option.split)
qed (simp_all add: assms bt_filter_ok content_def)


lemma bt_insert_last: "(\<And>x. x \<in> fst ` set m \<Longrightarrow> x < k) \<Longrightarrow> bt_insert k v m = m @ [(k, v)]"
proof (induction m)
  case (Cons kv m)
  obtain k' v' where kv: "kv = (k', v')" by fastforce
  have "k' < k" using Cons.prems [of k'] kv by simp
  moreover have "bt_insert k v m = m @ [(k, v)]" using Cons by simp
  ultimately show ?case using kv by auto
qed simp

lemma content_enqueue:
  assumes dv: "disk_view d v pr"
  shows "content (v\<lparr>vw_lines := vw_lines v @ [(vw_next_index v, e)], vw_next_index := Suc (vw_next_index v)\<rparr>)
    = ox_grow (Enqueue e) (content v)"
proof -
  note ok = disk_view_facts [OF dv]
  have lt: "x < vw_next_index v" if "x \<in> fst ` set (full_states v)" for x
  proof -
    from that ok(3) have "x \<in> fst ` set (vw_lines v)" unfolding full_states_keys [OF ok(1)] by blast
    with ok(4) show ?thesis by auto
  qed
  then have "vw_next_index v \<notin> fst ` set (full_states v)" by blast
  then have "full_states (v\<lparr>vw_lines := vw_lines v @ [(vw_next_index v, e)], vw_next_index := Suc (vw_next_index v)\<rparr>)
    = full_states v @ [(vw_next_index v, queued_state)]"
    using bt_insert_last [of "full_states v", OF lt] by (simp add: full_states_def)
  then show ?thesis by (simp add: content_def)
qed

lemma tear_queue_view:
  assumes "synced d v"
  shows "holds_content (with_queue (tear_queue k t (QBatch (vw_next_index v) e)) d) (content v) \<or>
    holds_content (with_queue (tear_queue k t (QBatch (vw_next_index v) e)) d) (ox_grow (Enqueue e) (content v))"
proof -
  let ?r = "QBatch (vw_next_index v) e"
  from assms have dv: "disk_view d v []" and t: "qf_tail (dk_queue d) = No_tail" by (simp_all add: synced_def)
  from enqueue_view [OF assms, of e] have new: "disk_view (with_queue (append_queue_line ?r) d)
      (v\<lparr>vw_lines := vw_lines v @ [(vw_next_index v, e)], vw_next_index := Suc (vw_next_index v)\<rparr>) []"
    by (simp add: synced_def)
  have same: "disk_view (with_queue g d) v' pr \<longleftrightarrow> disk_view (with_queue h d) v' pr"
    if "queue_rows (g (dk_queue d)) = queue_rows (h (dk_queue d))" for g h v' pr
    using that by (simp add: disk_view_iff with_queue_def parse_queue_def)
  have old: "disk_view (with_queue g d) v []" if "queue_rows (g (dk_queue d)) = queue_rows (dk_queue d)" for g
    using that dv by (simp add: disk_view_iff with_queue_def parse_queue_def)
  show ?thesis
  proof (cases "0 < k \<or> t = Line_without_newline")
    case True
    then have "queue_rows (tear_queue k t ?r (dk_queue d)) = queue_rows (append_queue_line ?r (dk_queue d))"
      using t by (auto simp: tear_queue_def append_queue_line_def queue_rows_def)
    with same [of "tear_queue k t ?r" "append_queue_line ?r"] new
    have "disk_view (with_queue (tear_queue k t ?r) d)
      (v\<lparr>vw_lines := vw_lines v @ [(vw_next_index v, e)], vw_next_index := Suc (vw_next_index v)\<rparr>) []" by blast
    from holds_contentI [OF this content_enqueue [OF dv]] show ?thesis ..
  next
    case False
    then have "queue_rows (tear_queue k t ?r (dk_queue d)) = queue_rows (dk_queue d)"
      using t by (cases t) (auto simp: tear_queue_def queue_rows_def)
    with old [of "tear_queue k t ?r"] have "disk_view (with_queue (tear_queue k t ?r) d) v []" by blast
    from holds_contentI [OF this refl] show ?thesis ..
  qed
qed

lemma enqueue_refines:
  assumes run: "enqueue e s = (r, s')" and sync: "in_sync s"
  shows "(case r of
      Inr i \<Rightarrow> in_sync s' \<and> i = ox_next (content (spool_view s)) \<and> content (spool_view s') = ox_grow (Enqueue e) (content (spool_view s))
    | Inl _ \<Rightarrow> holds_content (sp_disk s') (content (spool_view s)) \<or>
        holds_content (sp_disk s') (ox_grow (Enqueue e) (content (spool_view s))))
    \<and> sp_locked s' = sp_locked s"
proof -
  from sync obtain w where w: "sp_writer s = Some w" "\<not> wr_failed w" "spool_view s = wr_view w" "synced (sp_disk s) (spool_view s)"
    by (rule in_syncE)
  obtain f s1 where n: "next_fault s = (f, s1)" by (cases "next_fault s")
  then have s1: "sp_disk s1 = sp_disk s" "sp_writer s1 = sp_writer s" "sp_locked s1 = sp_locked s"
    by (auto simp: next_fault_def split: list.splits)
  have dv: "disk_view (sp_disk s) (wr_view w) []" using w by (simp add: synced_def)
  note unf = enqueue_def Let_def and_then_def get_view_run w(1) n on_disk_def s1 modify_def ret_def
  show ?thesis
  proof (cases f)
    case None
    with run have r: "r = Inr (vw_next_index (wr_view w))"
      and s': "sp_writer s' = Some (w\<lparr>wr_view := (wr_view w)\<lparr>vw_lines := vw_lines (wr_view w) @ [(vw_next_index (wr_view w), e)],
        vw_next_index := Suc (vw_next_index (wr_view w))\<rparr>\<rparr>)"
      "sp_disk s' = with_queue (append_queue_line (QBatch (vw_next_index (wr_view w)) e)) (sp_disk s)" "sp_locked s' = sp_locked s"
      by (auto simp: unf change_view_def change_writer_def)
    have "in_sync s'" using s' w enqueue_view [of "sp_disk s" "wr_view w" e] by (simp add: in_sync_def)
    with r s' w(3) content_enqueue [OF dv, of e] show ?thesis by (simp add: spool_view_def content_def)
  next
    case (Some x)
    have "\<exists>err k t. r = Inl err \<and> sp_locked s' = sp_locked s \<and>
       sp_disk s' = with_queue (tear_queue k t (QBatch (vw_next_index (wr_view w)) e)) (sp_disk s)"
    proof (cases x)
      case (Dies k t)
      with run Some show ?thesis by (intro exI [of _ Died] exI [of _ k] exI [of _ t]) (auto simp: unf)
    next
      case (Fails k t b)
      with run Some show ?thesis by (intro exI [of _ Io] exI [of _ k] exI [of _ t]) (auto simp: unf)
    qed
    with tear_queue_view [of "sp_disk s" "wr_view w"] w show ?thesis by auto
  qed
qed


lemma record_changes_Nil [simp]: "record_changes [] = ret ()"
  by (simp add: record_changes_def)

lemma perform_as_changes:
  assumes "in_sync s" "\<nexists>e. c = Enqueue e"
  shows "perform c s = (case ox_changes c (content (spool_view s)) of
      Inl err \<Rightarrow> (Inl err, s)
    | Inr (cs, a) \<Rightarrow> and_then (record_changes cs) (\<lambda>_. ret a) s)"
proof -
  from assms(1) obtain w where w: "sp_writer s = Some w" "spool_view s = wr_view w" "synced (sp_disk s) (wr_view w)"
    by (rule in_syncE) simp
  then have ok: "bt_ok (vw_explicit (wr_view w))" using disk_view_facts(1) by (auto simp: synced_def)
  note st = state_of_content [OF ok]
  have lines: "line_of (wr_view w) = map_of (ox_lines (content (wr_view w)))" by (auto simp: line_of_def content_def)
  note unf = w(1,2) st get_view_run and_then_def lift_def ret_def
  show ?thesis
  proof (cases c)
    case (Claim i now)
    show ?thesis
      by (cases "ox_state (content (wr_view w)) i")
        (auto simp: Claim claim_def unf record_changes_def split: prod.splits option.splits sum.splits)
  next
    case (Failure i err)
    show ?thesis
      by (cases "res_bind (ox_state (content (wr_view w)) i) (failure_change err)")
        (auto simp: Failure record_failure_def unf split: prod.splits sum.splits)
  next
    case (Hold i reason)
    show ?thesis
      by (cases "res_bind (ox_state (content (wr_view w)) i) (hold_change reason)")
        (auto simp: Hold hold_def unf record_changes_def split: prod.splits option.splits sum.splits)
  next
    case (Acceptance i accepted withheld)
    show ?thesis
      by (auto simp: Acceptance record_acceptance_def unf lines fail_def res_map_def split: prod.splits option.splits sum.splits)
  next
    case (Requeue chosen now)
    have "requeue chosen now s = and_then (lift (case chosen of None \<Rightarrow> Inr ()
           | Some index \<Rightarrow> res_bind (state_of (wr_view w) index) (\<lambda>st. if ds_status st = Dead then Inr () else Inl Not_dead))) (\<lambda>_.
         and_then (record_changes (map (\<lambda>(i, st). (i, requeue_change now st)) (ox_dead chosen (content (wr_view w)))))
           (\<lambda>_. ret (length (ox_dead chosen (content (wr_view w)))))) s"
      by (simp only: requeue_def and_then_def [of get_view] get_view_run w(1) option.case sum.case prod.case Let_def
          dead_content [OF ok] length_map)
    then show ?thesis
      by (cases chosen) (auto simp: Requeue unf split: prod.splits option.splits sum.splits)
  qed (use assms in auto)
qed

lemma ox_changes_keys:
  assumes "ox_changes c x = Inr (cs, a)"
  shows "fst ` set cs \<subseteq> fst ` set (ox_states x)"
proof -
  have known: "ox_state x i = Inr st \<Longrightarrow> i \<in> fst ` set (ox_states x)" for i st
    by (force simp: ox_state_def split: option.splits dest: map_of_SomeD)
  show ?thesis
  proof (cases c)
    case (Requeue chosen now)
    with assms have "cs = map (\<lambda>(i, st). (i, requeue_change now st)) (ox_dead chosen x)"
      by (simp add: res_bind_Inr_iff)
    then have "fst ` set cs = fst ` set (ox_dead chosen x)" by (force simp: image_iff)
    then show ?thesis by (auto simp: ox_dead_def)
  next
    case (Claim i now)
    with assms obtain st where st: "ox_state x i = Inr st"
      "(case claim_change now st of (None, b) \<Rightarrow> ([], Flag b) | (Some st', b) \<Rightarrow> ([(i, st')], Flag b)) = (cs, a)"
      by (auto simp: res_map_Inr_iff)
    then have "fst ` set cs \<subseteq> {i}" by (auto split: prod.splits option.splits)
    with known [OF st(1)] show ?thesis by blast
  qed (use assms known in \<open>auto simp: res_bind_Inr_iff res_map_Inr_iff split: option.splits prod.splits\<close>)
qed

lemma ox_states_content: "disk_view d v pr \<Longrightarrow> fst ` set (ox_states (content v)) = fst ` set (ox_lines (content v))"
proof -
  assume dv: "disk_view d v pr"
  show ?thesis
    using full_states_keys [OF disk_view_facts(1) [OF dv]] disk_view_facts(3) [OF dv]
    by (simp add: content_def set_eq_iff) blast
qed

lemma perform_refines:
  assumes sync: "in_sync s" and run: "perform c s = (r, s')"
  shows "case r of
      Inr a \<Rightarrow> in_sync s' \<and> ox_perform c (content (spool_view s)) = Inr (a, content (spool_view s'))
    | Inl e \<Rightarrow> (ox_perform c (content (spool_view s)) = Inl e \<and> s' = s) \<or>
        (\<exists>cs a k. ox_changes c (content (spool_view s)) = Inr (cs, a) \<and>
          (holds_content (sp_disk s') (ox_put (take k cs) (content (spool_view s))) \<or>
           holds_content (sp_disk s') (ox_put cs (ox_grow c (content (spool_view s))))))"
proof (cases "\<exists>e. c = Enqueue e")
  case True
  then obtain e where c: "c = Enqueue e" by blast
  obtain r1 s1 where m: "enqueue e s = (r1, s1)" by (cases "enqueue e s")
  with run c have r: "r = map_sum id Index r1" "s' = s1" by (auto simp: and_then_def ret_def split: sum.splits)
  have nil: "ox_put [] x = x" for x by (simp add: ox_put_def bt_extend_def)
  from enqueue_refines [OF m sync] r c show ?thesis
    by (cases r1) (auto simp: ox_perform_def nil)
next
  case False
  then have grow: "ox_grow c x = x" for x by (cases c) auto
  from sync have dv: "disk_view (sp_disk s) (spool_view s) []"
    by (rule in_syncE) (simp add: synced_def)
  show ?thesis
  proof (cases "ox_changes c (content (spool_view s))")
    case (Inl e)
    with perform_as_changes [OF sync False] run show ?thesis by (auto simp: ox_perform_def)
  next
    case (Inr ca)
    obtain cs a where ca: "ca = (cs, a)" by fastforce
    have ch: "ox_changes c (content (spool_view s)) = Inr (cs, a)" using Inr ca by simp
    obtain r1 s1 where m: "record_changes cs s = (r1, s1)" by (cases "record_changes cs s")
    with perform_as_changes [OF sync False] run Inr ca
    have r: "r = map_sum id (\<lambda>_. a) r1" "s' = s1" by (auto simp: and_then_def ret_def split: sum.splits)
    have keys: "fst ` set cs \<subseteq> fst ` set (vw_lines (spool_view s))"
      using ox_changes_keys [OF ch] unfolding ox_states_content [OF dv] by (simp add: content_def)
    note safe = record_changes_safe [OF m sync keys]
    note put = content_apply_changes [OF disk_view_facts(1) [OF dv]]
    show ?thesis
    proof (cases r1)
      case (Inl e)
      with safe obtain k where "holds_content (sp_disk s1) (ox_put (take k cs) (content (spool_view s)))"
        by (auto simp: put)
      then show ?thesis unfolding r Inl using ch by (simp only: sum.case map_sum.simps id_apply) blast
    next
      case (Inr u)
      with safe r ch show ?thesis by (simp add: ox_perform_def put grow)
    qed
  qed
qed



subsection \<open>Compaction\<close>

definition ox_prune :: "nat list \<Rightarrow> outbox \<Rightarrow> outbox" where
  "ox_prune is x = x\<lparr>ox_lines := filter (\<lambda>l. fst l \<notin> set is) (ox_lines x),
     ox_states := filter (\<lambda>kv. fst kv \<notin> set is) (ox_states x),
     ox_pruned := map_option (\<lambda>n. n + length is) (ox_pruned x)\<rparr>"

lemma content_drop_pruned:
  assumes "bt_ok (vw_explicit v)"
  shows "content (drop_pruned is v) = ox_prune is (content v)"
proof -
  have ok: "bt_ok (vw_explicit (drop_pruned is v))" using assms by (simp add: drop_pruned_def bt_filter_ok)
  have "full_states (drop_pruned is v) = filter (\<lambda>kv. fst kv \<notin> set is) (full_states v)"
  proof (intro bt_eqI ext)
    fix i
    show "map_of (full_states (drop_pruned is v)) i = map_of (filter (\<lambda>kv. fst kv \<notin> set is) (full_states v)) i"
      unfolding full_states_lookup [OF ok] map_of_filter_keys full_states_lookup [OF assms]
      by (auto simp: drop_pruned_def map_of_filter_keys)
  qed (simp_all add: assms ok bt_filter_ok)
  then show ?thesis by (simp add: content_def ox_prune_def drop_pruned_def)
qed

definition delivered_in :: "(nat, delivery_state) btree \<Rightarrow> nat list \<Rightarrow> bool" where
  "delivered_in states is \<longleftrightarrow>
     list_all (\<lambda>i. case map_of states i of None \<Rightarrow> False | Some st \<Rightarrow> ds_status st = Delivered) is"

lemma released_delivered:
  assumes "bt_ok states"
  shows "distinct (released_by_retention states now) \<and> delivered_in states (released_by_retention states now)"
proof -
  let ?d = "filter (\<lambda>kv. ds_status (snd kv) = Delivered) states"
  have d: "distinct (map fst states)" by (rule bt_ok_distinct [OF assms])
  then have dd: "distinct (map fst ?d)" by (rule distinct_map_filter)
  define g where "g = (\<lambda>(position, index, st :: delivery_state). 
    if (position < length ?d - retain_delivered_batches \<and> \<not> (case ds_withheld st of None \<Rightarrow> False | Some n \<Rightarrow> 0 < n))
       \<or> (case ds_last_attempt_at st of None \<Rightarrow> False | Some t \<Rightarrow> retain_delivered_ns \<le> now - t)
    then Some index else (None :: nat option))"
  have r: "released_by_retention states now = List.map_filter g (List.enumerate 0 ?d)"
    unfolding released_by_retention_def g_def by (simp only: Let_def)
  have g: "g p = Some i \<Longrightarrow> i = fst (snd p)" for p i by (auto simp: g_def split: prod.splits if_splits)
  have mf: "distinct (List.map_filter g (List.enumerate k xs)) \<and> set (List.map_filter g (List.enumerate k xs)) \<subseteq> fst ` set xs"
    if "distinct (map fst xs)" for k xs
    using that
  proof (induction xs arbitrary: k)
    case (Cons x xs)
    then have IH: "distinct (List.map_filter g (List.enumerate (Suc k) xs))"
      "set (List.map_filter g (List.enumerate (Suc k) xs)) \<subseteq> fst ` set xs" by simp_all
    show ?case
    proof (cases "g (k, x)")
      case None
      with IH show ?thesis by (simp add: map_filter_simps subset_insertI2)
    next
      case (Some i)
      with g [OF Some] IH Cons.prems show ?thesis by (simp add: map_filter_simps) blast
    qed
  qed (simp add: map_filter_simps)
  have "delivered_in states is" if "set is \<subseteq> fst ` set ?d" for "is"
    unfolding delivered_in_def list_all_iff
  proof
    fix i assume "i \<in> set is"
    with that obtain st where "(i, st) \<in> set states" "ds_status st = Delivered" by auto
    then show "case map_of states i of None \<Rightarrow> False | Some st \<Rightarrow> ds_status st = Delivered"
      using map_of_is_SomeI [OF d] by fastforce
  qed
  with mf [OF dd, of 0] r show ?thesis by simp
qed

lemma prunable_delivered:
  assumes "prunable v states pins now = Inr is" "bt_ok states"
  shows "distinct is \<and> delivered_in states is"
proof (cases "is = []")
  case True
  then show ?thesis by (simp add: delivered_in_def)
next
  case False
  let ?line = "\<lambda>index. case line_of v index of None \<Rightarrow> Inl No_such_batch | Some e \<Rightarrow> Inr (index, e)"
  from assms(1) False obtain pinned lines where l: "traverse ?line (released_by_retention states now) = Inr lines"
    "is = map fst (filter (\<lambda>(index, e). \<not> only_record_of_agent pinned e) lines)"
    by (auto simp: prunable_def Let_def res_bind_Inr_iff split: sum.splits if_splits)
  from l(1) have "map fst lines = released_by_retention states now"
    unfolding traverse_Inr_iff by (induction rule: list_all2_induct) (auto split: option.splits)
  with released_delivered [OF assms(2), of now] have "distinct (map fst lines)" "delivered_in states (map fst lines)" by simp_all
  then show ?thesis unfolding l(2)
    by (auto simp: delivered_in_def list_all_iff intro: distinct_map_filter)
qed

lemma compact_refines:
  assumes sync: "in_sync s" and run: "compact pins now s = (r, s')"
  shows "\<exists>is. delivered_in (ox_states (content (spool_view s))) is \<and>
     (case r of
        Inr _ \<Rightarrow> in_sync s' \<and> content (spool_view s') = ox_prune is (content (spool_view s))
      | Inl _ \<Rightarrow> holds_content (sp_disk s') (content (spool_view s)) \<or>
          holds_content (sp_disk s') (ox_prune is (content (spool_view s))))
     \<and> sp_locked s' = sp_locked s"
proof -
  from sync obtain w where w: "sp_writer s = Some w" "\<not> wr_failed w" "spool_view s = wr_view w" "synced (sp_disk s) (spool_view s)"
    by (rule in_syncE)
  then have dv: "disk_view (sp_disk s) (wr_view w) []" and t: "qf_tail (dk_queue (sp_disk s)) = No_tail" by (simp_all add: synced_def)
  note ok = disk_view_facts(1) [OF dv]
  have nil: "ox_prune [] x = x" for x by (simp add: ox_prune_def option.map_ident)
  have unchanged: ?thesis if "s' = s"
  proof -
    from holds_contentI [OF dv refl] w(3) have "holds_content (sp_disk s) (content (spool_view s))" by simp
    with that sync show ?thesis
      by (intro exI [of _ "[]"]) (simp add: delivered_in_def nil split: sum.split)
  qed
  show ?thesis
  proof (cases "prunable (wr_view w) (full_states (wr_view w)) pins now")
    case (Inl e)
    with run w have "s' = s" by (simp add: compact_def)
    then show ?thesis by (rule unchanged)
  next
    case (Inr "is")
    have "is": "distinct is" "delivered_in (ox_states (content (wr_view w))) is"
      using prunable_delivered [OF Inr] ok by (simp_all add: content_def)
    have run': "(if vw_journal_records (wr_view w) = 0 \<and> is = [] then (Inr (), s)
                else if is = [] then fold_spool False s
                else and_then (append_to_journal [Prune is (vw_next_index (wr_view w))]) (\<lambda>_.
                  and_then (modify (change_view (drop_pruned is))) (\<lambda>_. fold_spool True)) s) = (r, s')"
      using run w Inr by (simp add: compact_def)
    consider "s' = s" | "is = []" "fold_spool False s = (r, s')"
      | "is \<noteq> []" "and_then (append_to_journal [Prune is (vw_next_index (wr_view w))]) (\<lambda>_.
                  and_then (modify (change_view (drop_pruned is))) (\<lambda>_. fold_spool True)) s = (r, s')"
      using run' by (auto split: if_splits)
    then show ?thesis
    proof cases
      case 1 then show ?thesis by (rule unchanged)
    next
      case 2
      from fold_spool_safe [OF 2(2) w(1) refl dv t] content_absorbed [OF dv] w(2,3)
      show ?thesis
        by (cases r) (auto intro!: exI [of _ "[]"] simp: delivered_in_def nil in_sync_def spool_view_def)
    next
      case 3
      let ?rec = "[Prune is (vw_next_index (wr_view w))]"
      obtain r1 s1 where a: "append_to_journal ?rec s = (r1, s1)" by (cases "append_to_journal ?rec s")
      from a sync show ?thesis
      proof (cases rule: append_to_journal_ready)
        case (early e)
        with 3(2) a have "r = Inl e" "s' = s1" by (simp_all add: and_then_def)
        with early "is" w(3) show ?thesis by auto
      next
        case (ready s0)
        from ready(2) obtain w0 where w0: "sp_writer s0 = Some w0" "\<not> wr_failed w0" "spool_view s0 = wr_view w0" "synced (sp_disk s0) (spool_view s0)"
          by (rule in_syncE)
        then have dv0: "disk_view (sp_disk s0) (wr_view w0) []" and t0: "qf_tail (dk_queue (sp_disk s0)) = No_tail" by (simp_all add: synced_def)
        have n: "vw_next_index (wr_view w0) = vw_next_index (wr_view w)" using ready(6) w0(3) w(3) by simp
        have gen: "vw_generation (wr_view w0) \<noteq> None" using ready(7) w0(3) by simp
        have ann: "disk_view (with_journal (append_journal_lines ?rec) (sp_disk s0)) (drop_pruned is (wr_view w0)) is"
          using append_prune_view [OF dv0 gen "is"(1)] n by simp
        have c: "content (drop_pruned is (wr_view w0)) = ox_prune is (content (spool_view s))"
          using content_drop_pruned [OF disk_view_facts(1) [OF dv0]] ready(3) w0(3) by simp
        from ready(1) show ?thesis
        proof (cases rule: write_records_cases)
          case (error e k t)
          with 3(2) a have r: "r = Inl e" "s' = s1" by (simp_all add: and_then_def)
          have old: "holds_content (sp_disk s0) (content (spool_view s))" by (rule holds_contentI [OF dv0]) (use ready(3) w0(3) in simp)
          have "holds_content (sp_disk s1) (content (spool_view s)) \<or> holds_content (sp_disk s1) (ox_prune is (content (spool_view s)))"
          proof (cases "k = 0")
            case True
            have "disk_view (with_journal (tear_journal 0 t ?rec) (sp_disk s0)) (wr_view w0) []"
              unfolding disk_view_tear using dv0 by (simp add: disk_view_iff with_journal_def append_journal_lines_def)
            from holds_contentI [OF this] ready(3) w0(3) error(2) True old show ?thesis by auto
          next
            case False
            then have "disk_view (with_journal (tear_journal k t ?rec) (sp_disk s0)) (drop_pruned is (wr_view w0)) is"
              unfolding disk_view_tear using ann by (simp add: take_Cons')
            from holds_contentI [OF this c] error(2) old show ?thesis by auto
          qed
          with r error ready "is" w(3) show ?thesis by auto
        next
          case finished
          let ?s2 = "change_view (drop_pruned is) s1"
          from finished w0 have s2: "sp_writer ?s2 = Some (w0\<lparr>wr_view := drop_pruned is (wr_view w0)\<rparr>)"
            "sp_disk ?s2 = with_journal (append_journal_lines ?rec) (sp_disk s0)" "sp_locked ?s2 = sp_locked s"
            using ready(8) by (simp_all add: change_view_def change_writer_def)
          from 3(2) a finished have f: "fold_spool True ?s2 = (r, s')" by (simp add: and_then_def modify_def)
          have "vw_generation (drop_pruned is (wr_view w0)) \<noteq> None" using gen by (simp add: drop_pruned_def)
          with fold_spool_safe [OF f s2(1), of "drop_pruned is (wr_view w0)" "is"] ann s2(2) t0
          have "(case r of
              Inl _ \<Rightarrow> holds_content (sp_disk s') (content (drop_pruned is (wr_view w0)))
            | Inr _ \<Rightarrow> sp_writer s' = Some (w0\<lparr>wr_view := renewed (absorbed (drop_pruned is (wr_view w0)))\<rparr>) \<and>
                synced (sp_disk s') (renewed (absorbed (drop_pruned is (wr_view w0)))))
            \<and> sp_locked s' = sp_locked ?s2"
            by (simp add: with_journal_def split: sum.splits)
          with c s2(3) "is" w(3) w0(2) content_absorbed [OF ann] show ?thesis
            by (cases r) (auto simp: in_sync_def spool_view_def)
        qed
      qed
    qed
  qed
qed



subsection \<open>Opening after a crash\<close>

lemma disk_view_same:
  assumes "queue_rows (dk_queue d') = queue_rows (dk_queue d)" "jf_rows (dk_journal d') = jf_rows (dk_journal d)"
    "dk_snapshot d' = dk_snapshot d" "dk_marker d' = dk_marker d"
  shows "disk_view d' v pr \<longleftrightarrow> disk_view d v pr"
  using assms by (simp add: disk_view_iff parse_queue_def parse_journal_def)

lemma queue_rows_mend [simp]: "queue_rows (mend_queue f) = queue_rows f" "qf_tail (mend_queue f) = No_tail"
  by (cases "qf_tail f"; simp add: queue_rows_def mend_queue_def)+

lemma repair_tails_safe:
  assumes run: "repair_tails s = (r, s')" and dv: "disk_view (sp_disk s) v pr"
  shows "disk_view (sp_disk s') v pr \<and> sp_writer s' = sp_writer s \<and> sp_locked s' = sp_locked s \<and>
    (r = Inr () \<longrightarrow> qf_tail (dk_queue (sp_disk s')) = No_tail \<and> \<not> jf_tail (dk_journal (sp_disk s')))"
proof -
  let ?q = "if qf_tail (dk_queue (sp_disk s)) = No_tail then ret () else replace_file (with_queue mend_queue)"
  let ?jt = "jf_tail (dk_journal (sp_disk s))"
  let ?j = "if ?jt then replace_file (with_journal (\<lambda>f. f\<lparr>jf_tail := False\<rparr>)) else ret ()"
  have split: "repair_tails s = and_then ?q (\<lambda>_. ?j) s" by (simp add: repair_tails_def get_disk_def and_then_def)
  obtain r1 s1 where q: "?q s = (r1, s1)" by (cases "?q s")
  have A: "disk_view (sp_disk s1) v pr \<and> sp_writer s1 = sp_writer s \<and> sp_locked s1 = sp_locked s \<and>
    dk_journal (sp_disk s1) = dk_journal (sp_disk s) \<and> (r1 = Inr () \<longrightarrow> qf_tail (dk_queue (sp_disk s1)) = No_tail)"
  proof (cases "qf_tail (dk_queue (sp_disk s)) = No_tail")
    case True
    with q dv show ?thesis by (auto simp: ret_def)
  next
    case False
    with q have "replace_file (with_queue mend_queue) s = (r1, s1)" by simp
    then show ?thesis
      by (cases rule: replace_file_cases)
        (use dv disk_view_same [of "with_queue mend_queue (sp_disk s)" "sp_disk s" v pr] in \<open>auto simp: with_queue_def\<close>)
  qed
  show ?thesis
  proof (cases r1)
    case (Inl e)
    with split q run A show ?thesis by (auto simp: and_then_def)
  next
    case (Inr u)
    with split q run have j: "?j s1 = (r, s')" by (simp add: and_then_def)
    show ?thesis
    proof (cases ?jt)
      case False
      with j A Inr show ?thesis by (auto simp: ret_def)
    next
      case True
      with j have "replace_file (with_journal (\<lambda>f. f\<lparr>jf_tail := False\<rparr>)) s1 = (r, s')" by simp
      then show ?thesis
        by (cases rule: replace_file_cases)
          (use A Inr disk_view_same [of "with_journal (\<lambda>f. f\<lparr>jf_tail := False\<rparr>) (sp_disk s1)" "sp_disk s1" v pr]
            in \<open>auto simp: with_journal_def\<close>)
    qed
  qed
qed

lemma disk_view_prune_generation:
  assumes "disk_view d v pr" "pr \<noteq> []"
  shows "vw_generation v \<noteq> None"
proof -
  from assms(1) obtain j m q where d: "parse_journal (dk_journal d) = Inr j" "assemble q m (dk_marker d) j = v" "jn_prune j = pr"
    unfolding disk_view_iff by blast
  have "jn_generation j \<noteq> None"
  proof
    assume "jn_generation j = None"
    from parse_journal_fresh [OF d(1) this] d(3) assms(2) show False by (simp add: journal_start_def)
  qed
  then show ?thesis using d(2) by auto
qed

lemma close_without_writer: "close_spool pins now (s\<lparr>sp_writer := None\<rparr>) =
    (if sp_locked s then s\<lparr>sp_disk := (sp_disk s)\<lparr>dk_close_error := None\<rparr>, sp_writer := None, sp_locked := False\<rparr>
     else s\<lparr>sp_writer := None\<rparr>)"
  by (simp add: close_spool_def compact_def on_disk_def)

lemma open_spool_recovers:
  assumes dv: "disk_view (sp_disk s) v pr" and run: "open_spool True s = (r, s')"
  shows "case r of
      Inr _ \<Rightarrow> in_sync s' \<and> content (spool_view s') = content v \<and> sp_locked s'
    | Inl _ \<Rightarrow> holds_content (sp_disk s') (content v)"
proof -
  let ?s0 = "s\<lparr>sp_writer := None, sp_locked := True\<rparr>"
  let ?w = "\<lparr>wr_view = v, wr_failed = False\<rparr>"
  have ld: "load_disk True (sp_disk s) = Inr \<lparr>ld_view = v, ld_queue = dk_queue (sp_disk s), ld_interrupted_prune = pr\<rparr>"
    using dv by (simp add: disk_view_def)
  let ?set = "modify (\<lambda>s. s\<lparr>sp_writer := Some ?w\<rparr>)"
  let ?fold = "if pr \<noteq> [] then fold_spool True else ret ()"
  let ?m = "and_then repair_tails (\<lambda>_. and_then ?set (\<lambda>_. ?fold))"
  obtain r1 s1 where m: "?m ?s0 = (r1, s1)" by (cases "?m ?s0")
  have run': "(r, s') = (case (r1, s1) of
           (Inr u, s1) \<Rightarrow> (Inr u, s1)
         | (Inl Died, s1) \<Rightarrow> (Inl Died, s1\<lparr>sp_writer := None, sp_locked := False\<rparr>)
         | (Inl e, s1) \<Rightarrow> (Inl e, close_spool (Inr []) 0 (s1\<lparr>sp_writer := None\<rparr>)))"
    using run m unfolding open_spool_def by (simp add: ld Let_def)
  have drop: "holds_content (d\<lparr>dk_close_error := c\<rparr>) x \<longleftrightarrow> holds_content d x" for d c x
    by (simp add: holds_content_def disk_view_def load_disk_def observe_def)
  have out: ?thesis if "case r1 of Inr _ \<Rightarrow> in_sync s1 \<and> content (spool_view s1) = content v \<and> sp_locked s1
    | Inl _ \<Rightarrow> holds_content (sp_disk s1) (content v)"
  proof (cases r1)
    case (Inr u)
    with that run' show ?thesis by simp
  next
    case (Inl e)
    with that run' have "holds_content (sp_disk s') (content v) \<and> (\<exists>e. r = Inl e)"
      by (cases e) (auto simp: close_without_writer drop)
    then show ?thesis by auto
  qed
  obtain r2 s2 where rep: "repair_tails ?s0 = (r2, s2)" by (cases "repair_tails ?s0")
  from repair_tails_safe [OF rep, of v pr] dv
  have A: "disk_view (sp_disk s2) v pr" "sp_locked s2"
    "r2 = Inr () \<Longrightarrow> qf_tail (dk_queue (sp_disk s2)) = No_tail \<and> \<not> jf_tail (dk_journal (sp_disk s2))" by simp_all
  show ?thesis
  proof (cases r2)
    case (Inl e)
    with m rep have "r1 = Inl e" "s1 = s2" by (simp_all add: and_then_def)
    with A holds_contentI [OF A(1) refl] show ?thesis by (intro out) simp
  next
    case (Inr u)
    let ?s3 = "s2\<lparr>sp_writer := Some ?w\<rparr>"
    from Inr m rep have f: "?fold ?s3 = (r1, s1)" by (simp add: and_then_def modify_def)
    from Inr A(3) have t: "qf_tail (dk_queue (sp_disk s2)) = No_tail" "\<not> jf_tail (dk_journal (sp_disk s2))" by simp_all
    show ?thesis
    proof (cases "pr = []")
      case True
      with f have "r1 = Inr ()" "s1 = ?s3" by (simp_all add: ret_def)
      with A t True show ?thesis by (intro out) (simp add: in_sync_def synced_def spool_view_def)
    next
      case False
      with f have "fold_spool True ?s3 = (r1, s1)" by simp
      from fold_spool_safe [OF this, of ?w v pr] A t disk_view_prune_generation [OF dv False] content_absorbed [OF A(1)]
      show ?thesis by (intro out) (auto simp: in_sync_def spool_view_def split: sum.splits)
    qed
  qed
qed


end
