(* ===== verification/Spool_Life.thy ===== *)
theory Spool_Life
  imports Spool_Runs
begin

section \<open>The life of a spool\<close>

text \<open>
  Processes that open the spool of \<open>relay/src/spool.rs\<close>, call it, die at any durable step or close
  it, one after another on one disk; and the properties of the spool: refinement of the abstract
  outbox, crash-safe compaction, recovery at open, fresh indices, no batch lost before its acceptance,
  and a retry schedule that ends.
\<close>

subsection \<open>The life of a spool: processes that open it, call it, die or close it\<close>

text \<open>A process makes its calls until one fails, as its callers propagate every error; then, or when it
  is killed between two calls, it is gone. One that made all its calls may close the spool.\<close>

fun run_calls :: "spool_call list \<Rightarrow> spool \<Rightarrow> nat list \<times> bool \<times> spool" where
  "run_calls [] s = ([], True, s)"
| "run_calls (c # cs) s = (case perform c s of
      (Inl e, s1) \<Rightarrow> ([], False, s1)
    | (Inr a, s1) \<Rightarrow> (case run_calls cs s1 of (is, b, s2) \<Rightarrow> ((case a of Index i \<Rightarrow> i # is | _ \<Rightarrow> is), b, s2)))"

record spool_process =
  pc_faults :: "io_fault option list"
  pc_calls :: "spool_call list"
  pc_close :: "((string + uuid list) \<times> int) option"

definition run_process :: "spool_process \<Rightarrow> spool_disk \<Rightarrow> nat list \<times> spool_disk" where
  "run_process p d = (case open_spool True \<lparr>sp_disk = d, sp_writer = None, sp_locked = False, sp_faults = pc_faults p\<rparr> of
      (Inl e, s1) \<Rightarrow> ([], sp_disk s1)
    | (Inr _, s1) \<Rightarrow> (case run_calls (pc_calls p) s1 of (is, b, s2) \<Rightarrow>
        (is, sp_disk (case pc_close p of Some (pins, now) \<Rightarrow> (if b then close_spool pins now s2 else s2) | None \<Rightarrow> s2))))"

fun run_processes :: "spool_process list \<Rightarrow> spool_disk \<Rightarrow> nat list \<times> spool_disk" where
  "run_processes [] d = ([], d)"
| "run_processes (p # ps) d = (case run_process p d of (is, d1) \<Rightarrow>
     (case run_processes ps d1 of (js, d2) \<Rightarrow> (is @ js, d2)))"

definition accepted_in :: "spool_call list \<Rightarrow> nat set" where
  "accepted_in cs = {i. \<exists>accepted withheld. Acceptance i accepted withheld \<in> set cs}"

text \<open>The indices answered so far stay below the next one, and each names a retained batch or one whose
  acceptance was recorded.\<close>

definition life_ok :: "nat set \<Rightarrow> nat set \<Rightarrow> outbox \<Rightarrow> bool" where
  "life_ok A N x \<longleftrightarrow> bt_ok (ox_states x) \<and> fst ` set (ox_states x) = fst ` set (ox_lines x) \<and>
     (\<forall>i \<in> fst ` set (ox_lines x). i < ox_next x) \<and>
     (\<forall>i \<in> N. i < ox_next x \<and> (i \<in> fst ` set (ox_lines x) \<or> i \<in> A)) \<and>
     (\<forall>i st. map_of (ox_states x) i = Some st \<longrightarrow> ds_status st = Delivered \<longrightarrow> i \<in> A)"

lemma life_ok_mono: "life_ok A N x \<Longrightarrow> A \<subseteq> A' \<Longrightarrow> life_ok A' N x"
  by (auto simp: life_ok_def)

lemma ox_changes_status:
  assumes "ox_changes c x = Inr (cs, a)" "(i, st) \<in> set cs" "ds_status st = Delivered"
  shows "i \<in> accepted_in [c]"
proof (cases c)
  case (Claim j now)
  with assms(1) obtain st0 where
    "(case claim_change now st0 of (None, b) \<Rightarrow> ([], Flag b) | (Some st', b) \<Rightarrow> ([(j, st')], Flag b)) = (cs, a)"
    by (auto simp: res_map_Inr_iff)
  with assms(2) obtain b where "claim_change now st0 = (Some st, b)"
    by (auto split: prod.splits option.splits)
  with assms(3) show ?thesis by (auto simp: claim_change_def split: if_splits)
qed (use assms in \<open>auto simp: res_bind_Inr_iff res_map_Inr_iff accepted_in_def failure_change_def hold_change_def
      requeue_change_def Let_def split: option.splits if_splits\<close>)

lemma life_ok_put:
  assumes ok: "life_ok A N x" and ch: "ox_changes c x = Inr (cs, a)" and sub: "set cs' \<subseteq> set cs"
  shows "life_ok (A \<union> accepted_in [c]) N (ox_put cs' x)"
proof -
  have keys: "fst ` set (bt_extend (ox_states x) cs') = fst ` set (ox_states x)"
    using ox_changes_keys [OF ch] sub by (auto simp: bt_extend_keys)
  have "i \<in> A \<union> accepted_in [c]" if "map_of (bt_extend (ox_states x) cs') i = Some st" "ds_status st = Delivered" for i st
  proof (cases "map_of (rev cs') i")
    case None
    with that ok show ?thesis by (auto simp: life_ok_def bt_extend_lookup map_add_def)
  next
    case (Some st')
    then have "(i, st') \<in> set cs" using sub by (force dest: map_of_SomeD)
    moreover have "st' = st" using that(1) Some ok by (simp add: life_ok_def bt_extend_lookup map_add_def)
    ultimately show ?thesis using ox_changes_status [OF ch] that(2) by blast
  qed
  with ok keys show ?thesis by (auto simp: life_ok_def ox_put_def)
qed

lemma life_ok_grow:
  assumes ok: "life_ok A N x"
  shows "life_ok A (N \<union> {ox_next x}) (ox_grow (Enqueue e) x)"
proof -
  have lt: "i < ox_next x" if "i \<in> fst ` set (ox_states x)" for i using that ok by (auto simp: life_ok_def)
  have "bt_ok (ox_states x @ [(ox_next x, queued_state)])"
    using ok lt by (auto simp: life_ok_def bt_ok_def sorted_wrt_append)
  moreover have "map_of (ox_states x @ [(ox_next x, queued_state)]) i =
      (if i = ox_next x then Some queued_state else map_of (ox_states x) i)" for i
  proof -
    have "map_of (ox_states x) (ox_next x) = None" using lt by (auto simp: map_of_eq_None_iff)
    then show ?thesis by (simp add: map_of_append map_add_def split: option.split)
  qed
  ultimately show ?thesis using ok by (auto simp: life_ok_def queued_state_def less_Suc_eq)
qed

lemma life_ok_subset: "life_ok A N x \<Longrightarrow> N' \<subseteq> N \<Longrightarrow> life_ok A N' x"
  by (auto simp: life_ok_def)

lemma keys_filter: "fst ` set (filter (\<lambda>kv. fst kv \<notin> P) m) = fst ` set m - P"
  by auto

lemma life_ok_prune:
  assumes ok: "life_ok A N x" and "is": "delivered_in (ox_states x) is"
  shows "life_ok A N (ox_prune is x)"
proof -
  have "i \<in> A" if "i \<in> set is" for i
    using that "is" ok by (auto simp: delivered_in_def list_all_iff life_ok_def split: option.splits)
  with ok show ?thesis
    unfolding life_ok_def ox_prune_def
    by (simp add: bt_filter_ok map_of_filter_keys keys_filter del: set_filter) blast
qed



text \<open>One call, one close, one open and one process keep it.\<close>

definition disk_ok :: "nat set \<Rightarrow> nat set \<Rightarrow> spool_disk \<Rightarrow> bool" where
  "disk_ok A N d \<longleftrightarrow> (\<exists>x. holds_content d x \<and> life_ok A N x)"

lemma disk_okI: "holds_content d x \<Longrightarrow> life_ok A N x \<Longrightarrow> disk_ok A N d"
  by (auto simp: disk_ok_def)

lemma disk_ok_mono: "disk_ok A N d \<Longrightarrow> A \<subseteq> A' \<Longrightarrow> disk_ok A' N d"
  using life_ok_mono by (auto simp: disk_ok_def)

lemma synced_content: "synced d v \<Longrightarrow> holds_content d (content v)"
  by (auto simp: synced_def intro: holds_contentI)

lemma in_sync_disk: "in_sync s \<Longrightarrow> life_ok A N (content (spool_view s)) \<Longrightarrow> disk_ok A N (sp_disk s)"
  by (auto elim!: in_syncE intro: disk_okI synced_content)

definition answered :: "spool_answer \<Rightarrow> nat list" where
  "answered a = (case a of Index i \<Rightarrow> [i] | _ \<Rightarrow> [])"

lemma ox_changes_answer:
  assumes "ox_changes c x = Inr (cs, a)" "\<nexists>e. c = Enqueue e"
  shows "answered a = []"
proof (cases c)
  case (Claim j now)
  with assms(1) obtain st0 where
    "(case claim_change now st0 of (None, b) \<Rightarrow> ([], Flag b) | (Some st', b) \<Rightarrow> ([(j, st')], Flag b)) = (cs, a)"
    by (auto simp: res_map_Inr_iff)
  then show ?thesis by (auto simp: answered_def split: prod.splits option.splits)
qed (use assms in \<open>auto simp: res_bind_Inr_iff res_map_Inr_iff answered_def split: option.splits\<close>)

lemma perform_life:
  assumes sync: "in_sync s" and run: "perform c s = (r, s')" and ok: "life_ok A N (content (spool_view s))"
  shows "case r of
      Inr a \<Rightarrow> in_sync s' \<and> life_ok (A \<union> accepted_in [c]) (N \<union> set (answered a)) (content (spool_view s')) \<and>
        (\<forall>i \<in> N. \<forall>j \<in> set (answered a). i < j)
    | Inl _ \<Rightarrow> disk_ok (A \<union> accepted_in [c]) N (sp_disk s')"
proof -
  let ?x = "content (spool_view s)"
  have put: "life_ok (A \<union> accepted_in [c]) N (ox_put cs' ?x)" if "ox_changes c ?x = Inr (cs, a)" "set cs' \<subseteq> set cs" for cs' cs a
    by (rule life_ok_put [OF ok that])
  have nil: "ox_put [] x = x" for x by (simp add: ox_put_def bt_extend_def)
  have grown: "life_ok (A \<union> accepted_in [c]) (N \<union> set (answered a)) (ox_put cs (ox_grow c ?x))" "\<forall>i \<in> N. \<forall>j \<in> set (answered a). i < j"
    if "ox_changes c ?x = Inr (cs, a)" for cs a
  proof -
    have "life_ok (A \<union> accepted_in [c]) (N \<union> set (answered a)) (ox_put cs (ox_grow c ?x)) \<and>
        (\<forall>i \<in> N. \<forall>j \<in> set (answered a). i < j)"
    proof (cases "\<exists>e. c = Enqueue e")
      case True
      then obtain e where c: "c = Enqueue e" by blast
      with that have "cs = []" "answered a = [ox_next ?x]" by (auto simp: answered_def)
      moreover have "\<forall>i \<in> N. i < ox_next ?x" using ok by (simp add: life_ok_def)
      ultimately show ?thesis
        using life_ok_mono [OF life_ok_grow [OF ok, of e], of "A \<union> accepted_in [c]"] c by (simp only: nil) simp
    next
      case False
      have "ox_grow c ?x = ?x" using False by (cases c) simp_all
      moreover have "answered a = []" by (rule ox_changes_answer [OF that False])
      ultimately have "ox_grow c ?x = ?x" "answered a = []" by simp_all
      with put [OF that order_refl] show ?thesis by simp
    qed
    then show "life_ok (A \<union> accepted_in [c]) (N \<union> set (answered a)) (ox_put cs (ox_grow c ?x))"
      "\<forall>i \<in> N. \<forall>j \<in> set (answered a). i < j" by blast+
  qed
  note ref = perform_refines [OF sync run]
  show ?thesis
  proof (cases r)
    case (Inr a)
    with ref obtain cs where "in_sync s'" "ox_changes c ?x = Inr (cs, a)" "content (spool_view s') = ox_put cs (ox_grow c ?x)"
      by (auto simp: ox_perform_def res_map_Inr_iff)
    with grown Inr show ?thesis by simp
  next
    case (Inl e)
    with ref consider "s' = s" | cs a k where "ox_changes c ?x = Inr (cs, a)" "holds_content (sp_disk s') (ox_put (take k cs) ?x)"
      | cs a where "ox_changes c ?x = Inr (cs, a)" "holds_content (sp_disk s') (ox_put cs (ox_grow c ?x))"
      by auto
    then have "disk_ok (A \<union> accepted_in [c]) N (sp_disk s')"
    proof cases
      case 1
      with in_sync_disk [OF sync ok] disk_ok_mono show ?thesis by auto
    next
      case 2
      with put [OF 2(1) set_take_subset] show ?thesis by (blast intro: disk_okI)
    next
      case 3
      with life_ok_subset [OF grown(1) [OF 3(1)]] show ?thesis by (blast intro: disk_okI)
    qed
    with Inl show ?thesis by simp
  qed
qed

lemma accepted_in_Cons: "accepted_in (c # cs) = accepted_in [c] \<union> accepted_in cs"
  by (auto simp: accepted_in_def)

lemma run_calls_life:
  assumes "in_sync s" "life_ok A N (content (spool_view s))" "run_calls cs s = (is, b, s')"
  shows "(if b then in_sync s' \<and> life_ok (A \<union> accepted_in cs) (N \<union> set is) (content (spool_view s'))
      else disk_ok (A \<union> accepted_in cs) (N \<union> set is) (sp_disk s')) \<and>
    sorted_wrt (<) is \<and> (\<forall>i \<in> N. \<forall>j \<in> set is. i < j)"
  using assms
proof (induction cs arbitrary: s A N "is" b s')
  case Nil
  then show ?case by (simp add: accepted_in_def)
next
  case (Cons c cs)
  obtain r s1 where p: "perform c s = (r, s1)" by (cases "perform c s")
  note life = perform_life [OF Cons.prems(1) p Cons.prems(2)]
  show ?case
  proof (cases r)
    case (Inl e)
    with Cons.prems(3) p life show ?thesis
      by (auto simp: accepted_in_Cons [of c cs] intro: disk_ok_mono)
  next
    case (Inr a)
    obtain js b' s2 where r: "run_calls cs s1 = (js, b', s2)" by (cases "run_calls cs s1")
    with Cons.prems(3) p Inr have "is": "is = answered a @ js" "b' = b" "s2 = s'"
      by (auto simp: answered_def split: spool_answer.splits)
    from Inr life have l: "in_sync s1" "life_ok (A \<union> accepted_in [c]) (N \<union> set (answered a)) (content (spool_view s1))"
      "\<forall>i \<in> N. \<forall>j \<in> set (answered a). i < j" by simp_all
    have "sorted_wrt (<) (answered a)" by (cases a) (simp_all add: answered_def)
    with Cons.IH [OF l(1,2) r] l(3) show ?thesis
      by (auto simp: "is" accepted_in_Cons [of c cs] sorted_wrt_append Un_assoc)
  qed
qed

lemma close_spool_life:
  assumes "in_sync s" "life_ok A N (content (spool_view s))"
  shows "disk_ok A N (sp_disk (close_spool pins now s))"
proof (cases "sp_locked s")
  case False
  with in_sync_disk [OF assms] show ?thesis by (simp add: close_spool_def)
next
  case True
  have drop: "disk_ok A N (d\<lparr>dk_close_error := c\<rparr>) \<longleftrightarrow> disk_ok A N d" for d c
    by (simp add: disk_ok_def holds_content_def disk_view_def load_disk_def observe_def)
  obtain r s1 where c: "compact pins now s = (r, s1)" by (cases "compact pins now s")
  from compact_refines [OF assms(1) c] obtain "is" where "is": "delivered_in (ox_states (content (spool_view s))) is"
    "case r of
        Inr _ \<Rightarrow> in_sync s1 \<and> content (spool_view s1) = ox_prune is (content (spool_view s))
      | Inl _ \<Rightarrow> holds_content (sp_disk s1) (content (spool_view s)) \<or>
          holds_content (sp_disk s1) (ox_prune is (content (spool_view s)))" by blast
  note pruned = life_ok_prune [OF assms(2) "is"(1)]
  have "disk_ok A N (sp_disk s1)"
  proof (cases r)
    case (Inl e)
    with "is"(2) pruned assms(2) show ?thesis by (auto intro: disk_okI)
  next
    case (Inr u)
    with "is"(2) pruned in_sync_disk [of s1 A N] show ?thesis by simp
  qed
  with True c show ?thesis
    by (simp add: close_spool_def on_disk_def drop split: sum.split spool_error.split)
qed

lemma run_process_life:
  assumes ok: "disk_ok A N d" and run: "run_process p d = (is, d')"
  shows "disk_ok (A \<union> accepted_in (pc_calls p)) (N \<union> set is) d' \<and> sorted_wrt (<) is \<and> (\<forall>i \<in> N. \<forall>j \<in> set is. i < j)"
proof -
  let ?s = "\<lparr>sp_disk = d, sp_writer = None, sp_locked = False, sp_faults = pc_faults p\<rparr>"
  from ok obtain v pr where v: "disk_view (sp_disk ?s) v pr" "life_ok A N (content v)"
    by (auto simp: disk_ok_def holds_content_def)
  obtain r s1 where o: "open_spool True ?s = (r, s1)" by (cases "open_spool True ?s")
  note rec = open_spool_recovers [OF v(1) o]
  show ?thesis
  proof (cases r)
    case (Inl e)
    with run o have "is = []" "d' = sp_disk s1" by (simp_all add: run_process_def)
    with Inl rec v(2) show ?thesis by (auto intro: disk_ok_mono disk_okI)
  next
    case (Inr u)
    with rec v(2) have s1: "in_sync s1" "life_ok A N (content (spool_view s1))" by simp_all
    obtain js b s2 where c: "run_calls (pc_calls p) s1 = (js, b, s2)" by (cases "run_calls (pc_calls p) s1")
    with run o Inr have d': "is = js" "d' = sp_disk (case pc_close p of Some (pins, now) \<Rightarrow> (if b then close_spool pins now s2 else s2) | None \<Rightarrow> s2)"
      by (simp_all add: run_process_def)
    from run_calls_life [OF s1 c] have "disk_ok (A \<union> accepted_in (pc_calls p)) (N \<union> set js) d'"
      unfolding d'(2) by (auto split: option.splits prod.splits if_splits intro: in_sync_disk close_spool_life)
    with run_calls_life [OF s1 c] d'(1) show ?thesis by simp
  qed
qed

lemma run_processes_life:
  assumes "disk_ok A N d" "run_processes ps d = (is, d')"
  shows "disk_ok (A \<union> accepted_in (concat (map pc_calls ps))) (N \<union> set is) d' \<and> sorted_wrt (<) is \<and> (\<forall>i \<in> N. \<forall>j \<in> set is. i < j)"
  using assms
proof (induction ps arbitrary: A N d "is" d')
  case Nil
  then show ?case by (simp add: accepted_in_def)
next
  case (Cons p ps)
  obtain js d1 where p: "run_process p d = (js, d1)" by (cases "run_process p d")
  obtain ks d2 where ps: "run_processes ps d1 = (ks, d2)" by (cases "run_processes ps d1")
  have acc: "accepted_in (xs @ ys) = accepted_in xs \<union> accepted_in ys" for xs ys by (auto simp: accepted_in_def)
  from Cons.prems(2) p ps have e: "is = js @ ks" "d' = d2" by simp_all
  with run_process_life [OF Cons.prems(1) p] Cons.IH [OF run_process_life [OF Cons.prems(1) p, THEN conjunct1] ps]
  show ?case by (auto simp: acc sorted_wrt_append Un_assoc)
qed

lemma empty_disk_ok: "disk_ok {} {} empty_disk"
proof (rule disk_okI)
  show "holds_content empty_disk (content \<lparr>vw_lines = [], vw_explicit = [], vw_generation = None, vw_next_index = 0,
      vw_pruned = Some 0, vw_journal_records = 0\<rparr>)"
    by (rule holds_contentI [OF _ refl, where pr = "[]"])
      (simp add: disk_view_iff empty_disk_def parse_journal_def journal_start_def read_snapshot_def parse_queue_def queue_rows_def
        names_missing_def assemble_def Let_def bt_extend_def)
qed (simp add: life_ok_def content_def full_states_def)


subsection \<open>The retry schedule\<close>

fun claim_all :: "int list \<Rightarrow> delivery_state \<Rightarrow> delivery_state" where
  "claim_all [] st = st"
| "claim_all (t # ts) st = claim_all ts (case claim_change t st of (None, _) \<Rightarrow> st | (Some st', _) \<Rightarrow> st')"

lemma retry_delay_bounds: "60 \<le> retry_delay n" "retry_delay n \<le> 3600"
proof -
  have "(1::int) \<le> 2 ^ (n - 1)" by simp
  then show "60 \<le> retry_delay n" by (simp add: retry_delay_def)
qed (simp add: retry_delay_def)

lemma claim_all_done: "ds_status st \<noteq> Queued \<Longrightarrow> claim_all ts st = st"
  by (induction ts) (simp_all add: claim_change_def)

lemma claim_all_dead:
  assumes "ds_status st = Queued" "max_attempts < ds_attempts st + length ts" "ds_attempts st \<le> max_attempts"
    "sorted_wrt (\<lambda>a b. a + 3600 * second_ns \<le> b) ts"
    "case ds_next_attempt_at st of None \<Rightarrow> True | Some due \<Rightarrow> ts \<noteq> [] \<and> due \<le> hd ts"
  shows "ds_status (claim_all ts st) = Dead"
  using assms
proof (induction ts arbitrary: st)
  case (Cons t ts)
  have due: "\<not> (case ds_next_attempt_at st of None \<Rightarrow> False | Some due \<Rightarrow> t < due)"
    using Cons.prems(5) by (auto split: option.splits)
  show ?case
  proof (cases "max_attempts \<le> ds_attempts st")
    case True
    with due Cons.prems(1) show ?thesis by (simp add: claim_change_def claim_all_done)
  next
    case False
    let ?st = "st\<lparr>ds_hold_reason := None, ds_attempts := Suc (ds_attempts st), ds_last_attempt_at := Some t,
             ds_next_attempt_at := Some (t + retry_delay (Suc (ds_attempts st)) * second_ns),
             ds_last_error := Some ''Attempt claimed; receiver acceptance has not been recorded.''\<rparr>"
    have run: "claim_all (t # ts) st = claim_all ts ?st"
      using due False Cons.prems(1) by (simp add: claim_change_def)
    have ne: "ts \<noteq> []" using False Cons.prems(2) by (cases ts) auto
    have "t + 3600 * second_ns \<le> hd ts" using Cons.prems(4) ne by simp
    moreover have "retry_delay (Suc (ds_attempts st)) * second_ns \<le> 3600 * second_ns"
      using retry_delay_bounds(2) by simp
    ultimately have "t + retry_delay (Suc (ds_attempts st)) * second_ns \<le> hd ts" by linarith
    with Cons.IH [of ?st] Cons.prems ne False show ?thesis unfolding run by simp
  qed
qed simp

subsection \<open>The properties\<close>

definition sample_entry :: spool_entry where
  "sample_entry = \<lparr>se_origin = ''session'', se_queued_at = Some 0,
     se_document = \<lparr>doc_events = Some [Some (Uuid 7)], doc_session = None, doc_agent = None, doc_refused = None\<rparr>, se_directory_selection = False\<rparr>"

definition sample_opened :: spool where
  "sample_opened = snd (open_spool True \<lparr>sp_disk = empty_disk, sp_writer = None, sp_locked = False, sp_faults = []\<rparr>)"

definition sample_delivered :: spool where
  "sample_delivered = snd (snd (run_calls [Enqueue sample_entry, Claim 0 0, Acceptance 0 [Uuid 7] 0] sample_opened))"

text \<open>The queue is rewritten and the process dies before the snapshot is replaced.\<close>

definition sample_torn :: spool where
  "sample_torn = sample_delivered\<lparr>sp_faults := [None, None, None, Some (Dies 0 Nothing_more)]\<rparr>"

lemma sample_in_sync: "in_sync sample_opened" "in_sync sample_delivered" "in_sync sample_torn"
  by code_simp+

lemma sample_torn_run: "fst (compact (Inr []) (31 * 86400 * 1000000000) sample_torn) = Inl Died"
  by code_simp

text \<open>
  C2. Refinement of the abstract outbox (enqueue, claim, record_failure, hold, record_acceptance,
  requeue). Called on a writer whose memory is what its disk shows, under any faults: a call that
  answers has made exactly the outbox's change and answer, and memory and disk agree again; a call the
  outbox refuses changes nothing; a call stopped by a fault leaves a disk that loads as the outbox
  before, as the outbox after, or (a requeue of several batches) with a prefix of its changes.
\<close>

theorem spool_refines_outbox:
  assumes sync: "in_sync s" and run: "perform c s = (r, s')"
  shows "case r of
      Inr a \<Rightarrow> in_sync s' \<and> ox_perform c (content (spool_view s)) = Inr (a, content (spool_view s'))
    | Inl e \<Rightarrow> (ox_perform c (content (spool_view s)) = Inl e \<and> s' = s) \<or>
        (\<exists>cs a k. ox_changes c (content (spool_view s)) = Inr (cs, a) \<and>
          (holds_content (sp_disk s') (ox_put (take k cs) (content (spool_view s))) \<or>
           holds_content (sp_disk s') (ox_put cs (ox_grow c (content (spool_view s))))))"
  by (rule perform_refines [OF sync run])

theorem spool_refines_outbox_witness:
  "in_sync (snd (perform (Enqueue sample_entry) sample_opened)) \<and>
   ox_perform (Enqueue sample_entry) (content (spool_view sample_opened))
     = Inr (Index 0, content (spool_view (snd (perform (Enqueue sample_entry) sample_opened))))"
proof -
  have "perform (Enqueue sample_entry) sample_opened = (Inr (Index 0), snd (perform (Enqueue sample_entry) sample_opened))"
    by code_simp
  from spool_refines_outbox [OF sample_in_sync(1) this] show ?thesis by simp
qed

text \<open>
  C3. Compaction is crash-safe and prunes delivered batches only. Whatever fault stops it (at the
  announced prune, the marker, the queue rewrite, the snapshot, the journal), the disk loads as the
  outbox before or as the outbox without the pruned batches, all of them delivered; a compaction that
  finishes leaves memory and disk in agreement on the latter.
\<close>

theorem compaction_is_crash_safe:
  assumes "in_sync s" "compact pins now s = (r, s')"
  shows "\<exists>is. delivered_in (ox_states (content (spool_view s))) is \<and>
     (case r of
        Inr _ \<Rightarrow> in_sync s' \<and> content (spool_view s') = ox_prune is (content (spool_view s))
      | Inl _ \<Rightarrow> holds_content (sp_disk s') (content (spool_view s)) \<or>
          holds_content (sp_disk s') (ox_prune is (content (spool_view s))))"
  using compact_refines [OF assms] by blast

theorem compaction_is_crash_safe_witness:
  "\<exists>is. delivered_in (ox_states (content (spool_view sample_torn))) is \<and>
     (holds_content (sp_disk (snd (compact (Inr []) (31 * 86400 * 1000000000) sample_torn))) (content (spool_view sample_torn)) \<or>
      holds_content (sp_disk (snd (compact (Inr []) (31 * 86400 * 1000000000) sample_torn))) (ox_prune is (content (spool_view sample_torn))))"
proof -
  have "compact (Inr []) (31 * 86400 * 1000000000) sample_torn
      = (Inl Died, snd (compact (Inr []) (31 * 86400 * 1000000000) sample_torn))"
    unfolding sample_torn_run [symmetric] by (rule prod.collapse [symmetric])
  from compaction_is_crash_safe [OF sample_in_sync(3) this] show ?thesis by (simp only: sum.case)
qed

text \<open>
  C5. Recovery. Opening a spool whose disk loads, torn tails and an interrupted prune included, gives a
  writer in agreement with its disk and with the content the disk showed; an open that fails leaves a
  disk that still shows it.
\<close>

theorem open_recovers_what_the_disk_shows:
  assumes "holds_content (sp_disk s) x" "open_spool True s = (r, s')"
  shows "case r of
      Inr _ \<Rightarrow> in_sync s' \<and> content (spool_view s') = x \<and> sp_locked s'
    | Inl _ \<Rightarrow> holds_content (sp_disk s') x"
proof -
  from assms(1) obtain v pr where "disk_view (sp_disk s) v pr" "content v = x" by (auto simp: holds_content_def)
  from open_spool_recovers [OF this(1) assms(2), unfolded this(2)] show ?thesis .
qed

lemma sample_torn_disk:
  "disk_view (sp_disk (snd (compact (Inr []) (31 * 86400 * 1000000000) sample_torn)))
     \<lparr>vw_lines = [], vw_explicit = [], vw_generation = Some 1, vw_next_index = 1, vw_pruned = Some 1, vw_journal_records = 2\<rparr> [0]"
  by code_simp

theorem open_recovers_what_the_disk_shows_witness:
  "ox_pruned (content (spool_view (snd (open_spool True (snd (compact (Inr []) (31 * 86400 * 1000000000) sample_torn)))))) = Some 1"
proof -
  let ?s = "snd (compact (Inr []) (31 * 86400 * 1000000000) sample_torn)"
  have o: "open_spool True ?s = (Inr (), snd (open_spool True ?s))" by code_simp
  from open_recovers_what_the_disk_shows [OF holds_contentI [OF sample_torn_disk refl] o]
  show ?thesis by (simp add: content_def)
qed

text \<open>
  C4. No batch is lost before its acceptance, and no index is given twice. Over any sequence of
  processes on one disk, each with its own faults, calls and end (killed at a durable step, killed
  between calls, or closed), the answered indices are strictly increasing, the disk always loads, and
  every answered index names a retained batch or one for which an acceptance was called.
\<close>

theorem no_batch_is_lost_before_its_acceptance:
  assumes "run_processes ps empty_disk = (is, d)"
  shows "sorted_wrt (<) is \<and> (\<exists>x. holds_content d x \<and>
    (\<forall>i \<in> set is. i \<in> fst ` set (ox_lines x) \<or> i \<in> accepted_in (concat (map pc_calls ps))))"
  using run_processes_life [OF empty_disk_ok assms] by (auto simp: disk_ok_def life_ok_def)

definition sample_processes :: "spool_process list" where
  "sample_processes =
     [\<lparr>pc_faults = [], pc_calls = [Enqueue sample_entry, Claim 0 0, Acceptance 0 [Uuid 7] 0], pc_close = Some (Inr [], 31 * 86400 * 1000000000)\<rparr>,
      \<lparr>pc_faults = [None, Some (Dies 0 Line_without_newline)], pc_calls = [Enqueue sample_entry, Enqueue sample_entry], pc_close = None\<rparr>,
      \<lparr>pc_faults = [], pc_calls = [Enqueue sample_entry], pc_close = None\<rparr>]"

theorem no_batch_is_lost_before_its_acceptance_witness:
  "run_processes sample_processes empty_disk = ([0, 1, 3], snd (run_processes sample_processes empty_disk)) \<and>
   (\<exists>x. holds_content (snd (run_processes sample_processes empty_disk)) x \<and> 3 \<in> fst ` set (ox_lines x))"
proof -
  have run: "run_processes sample_processes empty_disk = ([0, 1, 3], snd (run_processes sample_processes empty_disk))"
    by code_simp
  from no_batch_is_lost_before_its_acceptance [OF this] run show ?thesis
    by (auto simp: sample_processes_def accepted_in_def)
qed

text \<open>
  The retry schedule ends. A queued batch claimed at instants an hour or more apart, the first of
  them due, is dead once it has been claimed often enough to use up its ten attempts.
\<close>

theorem retries_end_in_dead:
  assumes "ds_status st = Queued" "ds_attempts st \<le> max_attempts" "max_attempts < ds_attempts st + length ts"
    "sorted_wrt (\<lambda>a b. a + 3600 * second_ns \<le> b) ts" "ds_next_attempt_at st = None"
  shows "ds_status (claim_all ts st) = Dead"
  by (rule claim_all_dead) (use assms in simp_all)

theorem retries_end_in_dead_witness:
  "ds_status (claim_all (map (\<lambda>n. int n * 3600 * second_ns) [0..<11]) queued_state) = Dead"
  by (rule retries_end_in_dead) (simp_all add: queued_state_def upt_rec)

text \<open>
  A claim is bounded: it is answered with the attempt recorded as the next of at most ten, and the
  next one not before sixty seconds and not later than an hour after it.
\<close>

theorem claim_is_bounded:
  assumes "claim_change now st = (Some st', True)"
  shows "ds_attempts st' = Suc (ds_attempts st) \<and> ds_attempts st' \<le> max_attempts \<and>
    (\<exists>d. ds_next_attempt_at st' = Some (now + d * second_ns) \<and> 60 \<le> d \<and> d \<le> 3600)"
  using assms retry_delay_bounds [of "Suc (ds_attempts st)"] by (auto simp: claim_change_def split: if_splits)

theorem claim_is_bounded_witness:
  "ds_attempts (the (fst (claim_change 5 queued_state))) = 1 \<and>
   (\<exists>d. ds_next_attempt_at (the (fst (claim_change 5 queued_state))) = Some (5 + d * second_ns) \<and> 60 \<le> d \<and> d \<le> 3600)"
  using claim_is_bounded [of 5 queued_state "the (fst (claim_change 5 queued_state))"]
  by (simp add: claim_change_def queued_state_def)

text \<open>
  An open that fails once it holds the lock forgets the last close error: its dropped spool has no
  writer, so its close folds nothing and succeeds, and the reason of the failed fold is removed although
  the journal was not folded.
\<close>

theorem failed_open_forgets_the_close_error:
  assumes "load_disk True (sp_disk s) = Inl e"  "e \<noteq> Died"
  shows "dk_close_error (sp_disk (snd (open_spool True s))) = None \<and>
    dk_journal (sp_disk (snd (open_spool True s))) = dk_journal (sp_disk s)"
  using assms unfolding open_spool_def
  by (cases e) (simp_all add: Let_def close_spool_def compact_def on_disk_def)

definition sample_damaged :: spool where
  "sample_damaged = \<lparr>sp_disk = empty_disk\<lparr>dk_queue := \<lparr>qf_rows = [QNoIndex], qf_tail = No_tail\<rparr>, dk_close_error := Some Io\<rparr>,
     sp_writer = None, sp_locked = False, sp_faults = []\<rparr>"

theorem failed_open_forgets_the_close_error_witness:
  "dk_close_error (sp_disk sample_damaged) = Some Io \<and>
   dk_close_error (sp_disk (snd (open_spool True sample_damaged))) = None"
proof -
  have "load_disk True (sp_disk sample_damaged) = Inl (Damaged_queue 0)" by code_simp
  from failed_open_forgets_the_close_error [OF this] show ?thesis by (simp add: sample_damaged_def)
qed

end
