(* ===== verification/Relay.thy ===== *)
theory Relay
  imports Spool_Life
begin

section \<open>Relay delivery\<close>

text \<open>
  \<open>crates/commonmeasure-relay/src/lib.rs\<close> (\<open>relay_with_clock\<close>: what is queued, and the delivery
  loop), \<open>state.rs\<close> (the relay's own files) and \<open>client.rs\<close> (what an answer means), on the spool of
  \<open>spool.rs\<close>. What the world does to a run is a script: the clock's readings, the faults of each write,
  the consent and evidence each recheck finds, and the receiver's answers. A projection
  (\<open>project.rs\<close>) is an input: the batches it produced. A forecast (\<open>--dry-run\<close>), which sends and
  writes nothing, the standing check and the two session reports of a run are not modelled. The posts made so
  far are kept in \<open>rw_posts\<close>, for the properties to speak of.
\<close>

subsection \<open>The relay's files\<close>

datatype 'a json_file = Absent_file | Json 'a | Damaged_file

text \<open>\<open>delivered.idx\<close>: a line is an id or is not one; the tail is what stands after the last newline.\<close>

datatype idx_tail = No_idx_tail | Junk_tail | Id_tail uuid

record idx_file =
  ix_rows :: "uuid option list"
  ix_tail :: idx_tail

record receipts =
  rc_receiver :: "string option"
  rc_delivered_to :: "string option"
  rc_last_delivered_at :: "int option"
  rc_last_error :: "string option"

record relay_files =
  rf_delivered :: idx_file
  rf_refused :: "(uuid \<times> nat) list json_file"
  rf_agents :: "(uuid \<times> string) list json_file"
  rf_receipts :: "receipts json_file"

definition no_receipts :: receipts where
  "no_receipts = \<lparr>rc_receiver = None, rc_delivered_to = None, rc_last_delivered_at = None, rc_last_error = None\<rparr>"

definition no_files :: relay_files where
  "no_files = \<lparr>rf_delivered = \<lparr>ix_rows = [], ix_tail = No_idx_tail\<rparr>, rf_refused = Absent_file, rf_agents = Absent_file,
     rf_receipts = Absent_file\<rparr>"

text \<open>A write is cut short after some whole lines and part of the next; of a replace, after the rename or
  before it. The process sees an error or is gone.\<close>

datatype idx_torn = Torn_nothing | Torn_part | Torn_id
datatype write_fault = Write_error nat idx_torn | Write_killed nat idx_torn

subsection \<open>The run's world\<close>

record post =
  po_index :: nat
  po_session :: uuid
  po_agent :: string
  po_ids :: "uuid list"
  po_accepted :: bool

record http_response =
  hr_status :: nat
  hr_detail :: "string option"
  hr_summary :: string
  hr_created :: "nat option"

datatype source_reading =
    Source_fails string
  | Not_a_session
  | Unreadable_log string
  | Readable_log "uuid list" "nat option"

record consent_reading =
  cn_locked :: bool
  cn_selection :: "string + bool"
  cn_registry :: "string + bool"
  cn_source :: source_reading

record run_report =
  rr_first_failure :: "string option"
  rr_batches_delivered :: nat
  rr_events_delivered :: nat
  rr_events_new :: "nat option"
  rr_withheld :: nat
  rr_unreadable :: "(string \<times> nat) list"

record relay_world =
  rw_spool :: spool
  rw_files :: relay_files
  rw_write_faults :: "write_fault option list"
  rw_times :: "int list"
  rw_consents :: "consent_reading list"
  rw_answers :: "(string + http_response) list"
  rw_posts :: "post list"
  rw_report :: run_report

datatype relay_error =
    Spool_failed spool_error
  | File_unreadable
  | Write_failed
  | Run_killed
  | Consent_unlocked
  | Consent_failed string
  | No_session_id
  | No_agent_id
  | Pinned_elsewhere

type_synonym 'a relay_op = "(relay_world, relay_error, 'a) exec"

definition in_spool :: "'a spool_op \<Rightarrow> 'a relay_op" where
  "in_spool m w = (case m (rw_spool w) of
      (Inl e, s) \<Rightarrow> (Inl (Spool_failed e), w\<lparr>rw_spool := s\<rparr>)
    | (Inr a, s) \<Rightarrow> (Inr a, w\<lparr>rw_spool := s\<rparr>))"

definition get_files :: "relay_files relay_op" where
  "get_files w = (Inr (rw_files w), w)"

definition read_now :: "int relay_op" where
  "read_now w = (case rw_times w of [] \<Rightarrow> (Inr 0, w) | [t] \<Rightarrow> (Inr t, w) | t # ts \<Rightarrow> (Inr t, w\<lparr>rw_times := ts\<rparr>))"

definition on_report :: "(run_report \<Rightarrow> run_report) \<Rightarrow> unit relay_op" where
  "on_report f w = (Inr (), w\<lparr>rw_report := f (rw_report w)\<rparr>)"

definition next_write :: "relay_world \<Rightarrow> write_fault option \<times> relay_world" where
  "next_write w = (case rw_write_faults w of [] \<Rightarrow> (None, w) | f # fs \<Rightarrow> (f, w\<lparr>rw_write_faults := fs\<rparr>))"

definition on_files :: "(relay_files \<Rightarrow> relay_files) \<Rightarrow> relay_world \<Rightarrow> relay_world" where
  "on_files f w = w\<lparr>rw_files := f (rw_files w)\<rparr>"

text \<open>\<open>replace_private\<close>: atomic, so the file is the old one or the new one.\<close>

definition replace_private :: "(relay_files \<Rightarrow> relay_files) \<Rightarrow> unit relay_op" where
  "replace_private f w = (case next_write w of
      (None, w1) \<Rightarrow> (Inr (), on_files f w1)
    | (Some (Write_error k t), w1) \<Rightarrow> (Inl Write_failed, if k = 0 then w1 else on_files f w1)
    | (Some (Write_killed k t), w1) \<Rightarrow> (Inl Run_killed, if k = 0 then w1 else on_files f w1))"

subsection \<open>Relay state\<close>

definition json_or :: "'a \<Rightarrow> 'a json_file \<Rightarrow> relay_error + 'a" where
  "json_or d f = (case f of Absent_file \<Rightarrow> Inr d | Json a \<Rightarrow> Inr a | Damaged_file \<Rightarrow> Inl File_unreadable)"

definition session_agents :: "relay_files \<Rightarrow> relay_error + (uuid \<times> string) list" where
  "session_agents f = json_or [] (rf_agents f)"

definition pin_session_agent :: "uuid \<Rightarrow> string \<Rightarrow> unit relay_op" where
  "pin_session_agent session agent =
     and_then get_files (\<lambda>f. and_then (lift (session_agents f)) (\<lambda>agents.
       case map_of agents session of
         Some known \<Rightarrow> (if known = agent then ret () else fail Pinned_elsewhere)
       | None \<Rightarrow> replace_private (\<lambda>f. f\<lparr>rf_agents := Json ((session, agent) # agents)\<rparr>)))"

definition refused_delivered :: "relay_files \<Rightarrow> relay_error + (uuid \<times> nat) list" where
  "refused_delivered f = json_or [] (rf_refused f)"

definition record_refused_delivered :: "uuid \<Rightarrow> nat \<Rightarrow> unit relay_op" where
  "record_refused_delivered session refused =
     and_then get_files (\<lambda>f. and_then (lift (refused_delivered f)) (\<lambda>known.
       let held = (case map_of known session of Some n \<Rightarrow> n | None \<Rightarrow> 0)
       in replace_private (\<lambda>f. f\<lparr>rf_refused := Json ((session, max held refused) # known)\<rparr>)))"

definition delivered_ids :: "idx_file \<Rightarrow> uuid list" where
  "delivered_ids f = List.map_filter (\<lambda>r. r) (ix_rows f) @ (case ix_tail f of Id_tail i \<Rightarrow> [i] | _ \<Rightarrow> [])"

text \<open>An id is written with its newline after it: on a line begun by a write cut short, the two are no id.\<close>

definition append_id :: "idx_file \<Rightarrow> uuid \<Rightarrow> idx_file" where
  "append_id f i = \<lparr>ix_rows = ix_rows f @ [if ix_tail f = No_idx_tail then Some i else None], ix_tail = No_idx_tail\<rparr>"

definition tear_id :: "idx_torn \<Rightarrow> uuid list \<Rightarrow> idx_file \<Rightarrow> idx_file" where
  "tear_id t ids f = (case ids of [] \<Rightarrow> f
     | i # _ \<Rightarrow> (case t of
          Torn_nothing \<Rightarrow> f
        | Torn_part \<Rightarrow> f\<lparr>ix_tail := Junk_tail\<rparr>
        | Torn_id \<Rightarrow> f\<lparr>ix_tail := (if ix_tail f = No_idx_tail then Id_tail i else Junk_tail)\<rparr>))"

definition append_ids :: "nat \<Rightarrow> idx_torn \<Rightarrow> uuid list \<Rightarrow> idx_file \<Rightarrow> idx_file" where
  "append_ids k t ids f = tear_id t (drop k ids) (foldl append_id f (take k ids))"

definition record_delivered :: "uuid list \<Rightarrow> unit relay_op" where
  "record_delivered ids w =
     (let append = (\<lambda>k t. on_files (\<lambda>f. f\<lparr>rf_delivered := append_ids k t ids (rf_delivered f)\<rparr>))
      in case next_write w of
           (None, w1) \<Rightarrow> (Inr (), append (length ids) Torn_nothing w1)
         | (Some (Write_error k t), w1) \<Rightarrow> (Inl Write_failed, append k t w1)
         | (Some (Write_killed k t), w1) \<Rightarrow> (Inl Run_killed, append k t w1))"

definition record_success :: "string \<Rightarrow> unit relay_op" where
  "record_success receiver =
     and_then read_now (\<lambda>now. replace_private (\<lambda>f. f\<lparr>rf_receipts := Json \<lparr>rc_receiver = Some receiver,
       rc_delivered_to = Some receiver, rc_last_delivered_at = Some now, rc_last_error = None\<rparr>\<rparr>))"

definition state_record_failure :: "string \<Rightarrow> string \<Rightarrow> unit relay_op" where
  "state_record_failure receiver error =
     and_then get_files (\<lambda>f.
       let r = (case rf_receipts f of Json r \<Rightarrow> r | _ \<Rightarrow> no_receipts)
       in replace_private (\<lambda>f. f\<lparr>rf_receipts := Json (r\<lparr>rc_receiver := Some receiver, rc_last_error := Some error\<rparr>)\<rparr>))"

subsection \<open>The client\<close>

text \<open>A run whose script of answers is at its end is killed before it posts.

  \<open>client::deliver\<close> on what the transport returned: any 2xx is acceptance.\<close>

definition deliver_result :: "string + http_response \<Rightarrow> string + nat option" where
  "deliver_result answer = (case answer of
      Inl e \<Rightarrow> Inl e
    | Inr r \<Rightarrow> if 200 \<le> hr_status r \<and> hr_status r < 300 then Inr (hr_created r)
        else Inl (''receiver answered '' @ show_nat (hr_status r) @ '': '' @
          (case hr_detail r of Some d \<Rightarrow> d | None \<Rightarrow> hr_summary r)))"

definition post_batch :: "nat \<Rightarrow> uuid \<Rightarrow> string \<Rightarrow> uuid list \<Rightarrow> (string + nat option) relay_op" where
  "post_batch index session agent ids w =
     (case rw_answers w of
        [] \<Rightarrow> (Inl Run_killed, w)
      | answer # answers \<Rightarrow>
          let result = deliver_result answer
          in (Inr result, w\<lparr>rw_answers := answers, rw_posts := rw_posts w @
                [\<lparr>po_index = index, po_session = session, po_agent = agent, po_ids = ids,
                  po_accepted = (case result of Inr _ \<Rightarrow> True | Inl _ \<Rightarrow> False)\<rparr>]\<rparr>))"

subsection \<open>The API key\<close>

text \<open>\<open>project::receiver_origin\<close> is the parameter \<open>origin\<close>. \<open>configured\<close> is the receiver of
  \<open>relay.json\<close> and its key.\<close>

definition key_for ::
  "(string \<Rightarrow> 'o option) \<Rightarrow> string \<Rightarrow> string \<Rightarrow> string option \<Rightarrow> (string \<times> string option) option \<Rightarrow> string option" where
  "key_for origin target delivering_to api_key configured =
     (let same_origin = (\<lambda>other. origin target \<noteq> None \<and> origin other = origin target)
      in case (case api_key of Some key \<Rightarrow> if target = delivering_to \<or> same_origin delivering_to then Some key else None | None \<Rightarrow> None) of
           Some key \<Rightarrow> Some key
         | None \<Rightarrow> (case configured of
               Some (receiver, key) \<Rightarrow> if same_origin receiver then key else None
             | None \<Rightarrow> None))"

subsection \<open>Current permission\<close>

definition ids_of :: "document \<Rightarrow> uuid list" where
  "ids_of d = (case doc_events d of None \<Rightarrow> [] | Some es \<Rightarrow> List.map_filter (\<lambda>e. e) es)"

datatype recheck = Rechecked | Origin_unreadable string

definition recheck_directory_batch :: "consent_reading \<Rightarrow> spool_entry \<Rightarrow> string + recheck \<times> spool_entry" where
  "recheck_directory_batch cn entry =
     (case cn_registry cn of
        Inl e \<Rightarrow> Inl e
      | Inr False \<Rightarrow> Inl ''queued directory reporting requires local consent state; re-enrol the directory before retrying''
      | Inr True \<Rightarrow>
         (case cn_source cn of
            Source_fails e \<Rightarrow> Inl e
          | Not_a_session \<Rightarrow> Inr (Rechecked, entry\<lparr>se_document := (se_document entry)\<lparr>doc_events := Some []\<rparr>\<rparr>)
          | Unreadable_log session \<Rightarrow> Inr (Origin_unreadable session, entry)
          | Readable_log permitted refused \<Rightarrow>
              Inr (Rechecked, entry\<lparr>se_document := (se_document entry)\<lparr>
                doc_events := map_option (filter (\<lambda>e. case e of Some i \<Rightarrow> i \<in> set permitted | None \<Rightarrow> False)) (doc_events (se_document entry)),
                doc_refused := refused\<rparr>\<rparr>)))"

definition unreadable_origin_hold :: string where
  "unreadable_origin_hold = ''Held: the session log this batch was projected from does not read, so directory consent cannot be rechecked; undelivered.''"

definition consent_hold :: string where
  "consent_hold = ''Held by current directory consent or source policy; undelivered.''"

fun note_unreadable :: "string \<Rightarrow> (string \<times> nat) list \<Rightarrow> (string \<times> nat) list" where
  "note_unreadable session [] = [(session, 1)]"
| "note_unreadable session ((known, n) # ss) =
     (if known = session then (known, Suc n) # ss else (known, n) # note_unreadable session ss)"

definition no_consent :: consent_reading where
  "no_consent = \<lparr>cn_locked = False, cn_selection = Inl '''', cn_registry = Inl '''', cn_source = Not_a_session\<rparr>"

definition read_consent :: "consent_reading relay_op" where
  "read_consent w = (Inr (case rw_consents w of [] \<Rightarrow> no_consent | c # _ \<Rightarrow> c), w\<lparr>rw_consents := tl (rw_consents w)\<rparr>)"

subsection \<open>The delivery loop\<close>

text \<open>A batch whose turn it is: dead, waiting and spent ones are passed over, a spent one by way of the claim
  that makes it dead.\<close>

definition due_for_delivery :: "(nat, delivery_state) btree \<Rightarrow> nat \<Rightarrow> bool relay_op" where
  "due_for_delivery states index =
     (case map_of states index of
        None \<Rightarrow> ret True
      | Some st \<Rightarrow>
          and_then (if ds_status st = Dead then ret True
              else case ds_next_attempt_at st of None \<Rightarrow> ret False | Some t \<Rightarrow> and_then read_now (\<lambda>now. ret (now < t))) (\<lambda>skip.
            if skip then ret False
            else if max_attempts \<le> ds_attempts st
            then and_then read_now (\<lambda>now. and_then (in_spool (claim index now)) (\<lambda>_. ret False))
            else ret True))"

text \<open>Consent, approvals and policy are read again before every delivery, under the lock of the selection:
  the batch as it may leave, or none.\<close>

definition permitted_batch :: "nat \<Rightarrow> spool_entry \<Rightarrow> spool_entry option relay_op" where
  "permitted_batch index entry =
     and_then read_consent (\<lambda>cn.
       if \<not> cn_locked cn then fail Consent_unlocked
       else case cn_selection cn of
         Inl e \<Rightarrow> fail (Consent_failed e)
       | Inr active \<Rightarrow>
           if active \<or> se_directory_selection entry then
             (case recheck_directory_batch cn entry of
                Inl e \<Rightarrow> fail (Consent_failed e)
              | Inr (Origin_unreadable session, _) \<Rightarrow>
                  and_then (in_spool (hold index unreadable_origin_hold)) (\<lambda>_.
                  and_then (on_report (\<lambda>r. r\<lparr>rr_unreadable := note_unreadable session (rr_unreadable r)\<rparr>)) (\<lambda>_. ret None))
              | Inr (Rechecked, entry') \<Rightarrow>
                  if ids_of (se_document entry') = []
                  then and_then (in_spool (hold index consent_hold)) (\<lambda>_. ret None)
                  else ret (Some entry'))
           else ret (Some entry))"

text \<open>The parameter \<open>withhold\<close> counts the instance references \<open>project::withhold_unissued_instances\<close>
  removes from a batch for this receiver.\<close>

definition accept_batch :: "string \<Rightarrow> nat \<Rightarrow> uuid \<Rightarrow> uuid list \<Rightarrow> nat option \<Rightarrow> nat \<Rightarrow> nat option \<Rightarrow> unit relay_op" where
  "accept_batch receiver index session ids refused withheld created =
     and_then (record_delivered ids) (\<lambda>_.
     and_then (case refused of Some n \<Rightarrow> record_refused_delivered session n | None \<Rightarrow> ret ()) (\<lambda>_.
     and_then (in_spool (record_acceptance index ids withheld)) (\<lambda>_.
     and_then (on_report (\<lambda>r. r\<lparr>rr_events_new := (case (rr_events_new r, created) of (Some a, Some b) \<Rightarrow> Some (a + b) | _ \<Rightarrow> None)\<rparr>)) (\<lambda>_.
     and_then (record_success receiver) (\<lambda>_.
       on_report (\<lambda>r. r\<lparr>rr_batches_delivered := Suc (rr_batches_delivered r),
         rr_events_delivered := rr_events_delivered r + length ids, rr_withheld := rr_withheld r + withheld\<rparr>))))))"

definition refuse_batch :: "string \<Rightarrow> nat \<Rightarrow> string \<Rightarrow> unit relay_op" where
  "refuse_batch receiver index error =
     and_then (in_spool (record_failure index error)) (\<lambda>_.
     and_then (state_record_failure receiver error) (\<lambda>_.
       on_report (\<lambda>r. if rr_first_failure r = None then r\<lparr>rr_first_failure := Some error\<rparr> else r)))"

definition send_batch ::
  "string \<Rightarrow> (document \<Rightarrow> nat) \<Rightarrow> (uuid \<times> string) list \<Rightarrow> nat \<Rightarrow> spool_entry \<Rightarrow> unit relay_op" where
  "send_batch receiver withhold agents index entry =
     (case doc_session (se_document entry) of
        None \<Rightarrow> fail No_session_id
      | Some session \<Rightarrow> (case map_of agents session of
          None \<Rightarrow> fail No_agent_id
        | Some agent \<Rightarrow>
            let ids = ids_of (se_document entry)
            in and_then (pin_session_agent session agent) (\<lambda>_.
               and_then (post_batch index session agent ids) (\<lambda>result.
                 case result of
                   Inl e \<Rightarrow> refuse_batch receiver index e
                 | Inr created \<Rightarrow> accept_batch receiver index session ids (doc_refused (se_document entry))
                     (withhold (se_document entry)) created))))"

definition deliver_one ::
  "string \<Rightarrow> (document \<Rightarrow> nat) \<Rightarrow> (uuid \<times> string) list \<Rightarrow> (nat, delivery_state) btree \<Rightarrow> nat \<times> spool_entry \<Rightarrow> unit relay_op" where
  "deliver_one receiver withhold agents states batch =
     (case batch of (index, entry) \<Rightarrow>
        and_then (due_for_delivery states index) (\<lambda>due.
          if \<not> due then ret ()
          else and_then (permitted_batch index entry) (\<lambda>permitted.
            case permitted of None \<Rightarrow> ret ()
            | Some entry' \<Rightarrow>
                and_then read_now (\<lambda>now. and_then (in_spool (claim index now)) (\<lambda>claimed.
                  if \<not> claimed then ret () else send_batch receiver withhold agents index entry')))))"

fun deliver_all ::
  "string \<Rightarrow> (document \<Rightarrow> nat) \<Rightarrow> (uuid \<times> string) list \<Rightarrow> (nat, delivery_state) btree \<Rightarrow> (nat \<times> spool_entry) list \<Rightarrow> unit relay_op" where
  "deliver_all receiver withhold agents states [] = ret ()"
| "deliver_all receiver withhold agents states (b # bs) =
     and_then (deliver_one receiver withhold agents states b) (\<lambda>_. deliver_all receiver withhold agents states bs)"

subsection \<open>What is queued\<close>

record wire_batch =
  wb_session :: uuid
  wb_agent :: string
  wb_events :: "uuid list"
  wb_refused :: "nat option"

definition to_document :: "wire_batch \<Rightarrow> document" where
  "to_document b = \<lparr>doc_events = Some (map Some (wb_events b)), doc_session = Some (wb_session b),
     doc_agent = Some (wb_agent b), doc_refused = wb_refused b\<rparr>"

text \<open>\<open>entry(session).or_insert(agent)\<close>.\<close>

definition or_insert :: "uuid \<Rightarrow> string \<Rightarrow> (uuid \<times> string) list \<Rightarrow> (uuid \<times> string) list" where
  "or_insert session agent m = (if map_of m session = None then (session, agent) # m else m)"

definition queued_agents :: "(nat \<times> spool_entry) list \<Rightarrow> (uuid \<times> string) list \<Rightarrow> (uuid \<times> string) list" where
  "queued_agents entries agents = foldl (\<lambda>m (index, e).
     case (doc_session (se_document e), doc_agent (se_document e)) of
       (Some session, Some agent) \<Rightarrow> or_insert session agent m | _ \<Rightarrow> m) agents entries"

record queueing =
  qu_already :: "uuid list"
  qu_agents :: "(uuid \<times> string) list"
  qu_enqueued :: nat

definition queue_one :: "bool \<Rightarrow> string \<times> wire_batch \<Rightarrow> queueing \<Rightarrow> queueing relay_op" where
  "queue_one selection batch q =
     (case batch of (origin, b) \<Rightarrow>
        let events = filter (\<lambda>i. i \<notin> set (qu_already q)) (wb_events b);
            agents = or_insert (wb_session b) (wb_agent b) (qu_agents q)
        in if events = [] then ret q
           else and_then read_now (\<lambda>now.
             and_then (in_spool (enqueue \<lparr>se_origin = origin, se_queued_at = Some now,
                 se_document = to_document (b\<lparr>wb_events := events, wb_agent := the (map_of agents (wb_session b))\<rparr>),
                 se_directory_selection = selection\<rparr>)) (\<lambda>_.
               ret \<lparr>qu_already = qu_already q @ events, qu_agents = agents, qu_enqueued = qu_enqueued q + length events\<rparr>)))"

fun queue_all :: "bool \<Rightarrow> (string \<times> wire_batch) list \<Rightarrow> queueing \<Rightarrow> queueing relay_op" where
  "queue_all selection [] q = ret q"
| "queue_all selection (b # bs) q = and_then (queue_one selection b q) (queue_all selection bs)"

text \<open>A carrier: one event the receiver already holds, queued for the refused count it carries.\<close>

definition queue_carrier :: "bool \<Rightarrow> string \<times> wire_batch \<Rightarrow> queueing \<Rightarrow> queueing relay_op" where
  "queue_carrier selection carrier q =
     (case carrier of (origin, b) \<Rightarrow>
        let agents = or_insert (wb_session b) (wb_agent b) (qu_agents q)
        in and_then read_now (\<lambda>now.
             and_then (in_spool (enqueue \<lparr>se_origin = origin, se_queued_at = Some now,
                 se_document = to_document (b\<lparr>wb_agent := the (map_of agents (wb_session b))\<rparr>),
                 se_directory_selection = selection\<rparr>)) (\<lambda>_.
               ret (q\<lparr>qu_agents := agents\<rparr>))))"

fun queue_carriers :: "bool \<Rightarrow> (string \<times> wire_batch) list \<Rightarrow> queueing \<Rightarrow> queueing relay_op" where
  "queue_carriers selection [] q = ret q"
| "queue_carriers selection (c # cs) q = and_then (queue_carrier selection c q) (queue_carriers selection cs)"

definition undelivered :: "view \<Rightarrow> (nat \<times> spool_entry) list" where
  "undelivered v = filter (\<lambda>l. case map_of (full_states v) (fst l) of None \<Rightarrow> False
     | Some st \<Rightarrow> ds_status st \<noteq> Delivered) (vw_lines v)"

text \<open>\<open>relay_with_clock\<close> from the opened spool to the end of the delivery loop.\<close>

definition relay_batches ::
  "string \<Rightarrow> (document \<Rightarrow> nat) \<Rightarrow> bool \<Rightarrow> (string \<times> wire_batch) list \<Rightarrow> (string \<times> wire_batch) list \<Rightarrow> unit relay_op" where
  "relay_batches receiver withhold selection batches carriers =
     and_then get_files (\<lambda>f.
     and_then (lift (session_agents f)) (\<lambda>pinned.
     and_then (in_spool get_view) (\<lambda>v.
       let already = delivered_ids (rf_delivered f) @ concat (map (\<lambda>(i, e). ids_of (se_document e)) (undelivered v))
       in and_then (lift (refused_delivered f)) (\<lambda>_.
          and_then (queue_all selection batches
            \<lparr>qu_already = already, qu_agents = queued_agents (vw_lines v) pinned, qu_enqueued = 0\<rparr>) (\<lambda>q.
          and_then (queue_carriers selection carriers q) (\<lambda>q.
          and_then (in_spool get_view) (\<lambda>v.
            deliver_all receiver withhold (qu_agents q) (full_states v) (undelivered v) )))))))"

end
