(* ===== verification/Outbox_Invariants.thy ===== *)
theory Outbox_Invariants
  imports Spool_Life
begin

section \<open>Invariants of the outbox over the spool's faults\<close>

text \<open>
  What the relay needs of the spool of \<open>relay/src/spool.rs\<close>, as an interface: a property of the abstract
  outbox that every change of an allowed call, cut short or whole, and every pruning of delivered batches
  preserve, holds of the disk after any call, death, close and open of the spool. The clients of the spool
  state their properties as instances of it.
\<close>

definition disk_has :: "(outbox \<Rightarrow> bool) \<Rightarrow> spool_disk \<Rightarrow> bool" where
  "disk_has I d \<longleftrightarrow> (\<exists>x. holds_content d x \<and> I x)"

lemma disk_hasI: "holds_content d x \<Longrightarrow> I x \<Longrightarrow> disk_has I d"
  by (auto simp: disk_has_def)

lemma disk_has_mono: "disk_has I d \<Longrightarrow> (\<And>x. I x \<Longrightarrow> J x) \<Longrightarrow> disk_has J d"
  by (auto simp: disk_has_def)

lemma disk_has_close_error: "disk_has I (d\<lparr>dk_close_error := c\<rparr>) \<longleftrightarrow> disk_has I d"
  by (simp add: disk_has_def holds_content_def disk_view_def load_disk_def observe_def)

lemma in_sync_disk_has: "in_sync s \<Longrightarrow> I (content (spool_view s)) \<Longrightarrow> disk_has I (sp_disk s)"
  by (auto elim!: in_syncE intro: disk_hasI synced_content)

locale outbox_invariant =
  fixes I :: "outbox \<Rightarrow> bool" and allowed :: "spool_call \<Rightarrow> bool"
  assumes put: "I x \<Longrightarrow> allowed c \<Longrightarrow> ox_changes c x = Inr (cs, a) \<Longrightarrow> I (ox_put (take k cs) x)"
    and grow: "I x \<Longrightarrow> allowed c \<Longrightarrow> ox_changes c x = Inr (cs, a) \<Longrightarrow> I (ox_put cs (ox_grow c x))"
    and prune: "I x \<Longrightarrow> delivered_in (ox_states x) is \<Longrightarrow> I (ox_prune is x)"
begin

lemma perform_keeps:
  assumes "in_sync s" "I (content (spool_view s))" "allowed c" "perform c s = (r, s')"
  shows "case r of Inr a \<Rightarrow> in_sync s' \<and> I (content (spool_view s')) | Inl _ \<Rightarrow> disk_has I (sp_disk s')"
proof -
  let ?x = "content (spool_view s)"
  note ref = perform_refines [OF assms(1,4)]
  show ?thesis
  proof (cases r)
    case (Inr a)
    with ref obtain cs where "in_sync s'" "ox_changes c ?x = Inr (cs, a)" "content (spool_view s') = ox_put cs (ox_grow c ?x)"
      by (auto simp: ox_perform_def res_map_Inr_iff)
    with grow [OF assms(2,3)] Inr show ?thesis by simp
  next
    case (Inl e)
    with ref consider "s' = s" | cs a k where "ox_changes c ?x = Inr (cs, a)" "holds_content (sp_disk s') (ox_put (take k cs) ?x)"
      | cs a where "ox_changes c ?x = Inr (cs, a)" "holds_content (sp_disk s') (ox_put cs (ox_grow c ?x))"
      by auto
    then have "disk_has I (sp_disk s')"
    proof cases
      case 1
      with in_sync_disk_has [of s I] assms(1,2) show ?thesis by simp
    next
      case 2
      with put [OF assms(2,3)] show ?thesis by (blast intro: disk_hasI)
    next
      case 3
      with grow [OF assms(2,3)] show ?thesis by (blast intro: disk_hasI)
    qed
    with Inl show ?thesis by simp
  qed
qed

lemma close_keeps:
  assumes "in_sync s" "I (content (spool_view s))"
  shows "disk_has I (sp_disk (close_spool pins now s))"
proof (cases "sp_locked s")
  case False
  with in_sync_disk_has [of s I] assms show ?thesis by (simp add: close_spool_def)
next
  case True
  obtain r s1 where c: "compact pins now s = (r, s1)" by (cases "compact pins now s")
  from compact_refines [OF assms(1) c] obtain "is" where "is": "delivered_in (ox_states (content (spool_view s))) is"
    "case r of
        Inr _ \<Rightarrow> in_sync s1 \<and> content (spool_view s1) = ox_prune is (content (spool_view s))
      | Inl _ \<Rightarrow> holds_content (sp_disk s1) (content (spool_view s)) \<or>
          holds_content (sp_disk s1) (ox_prune is (content (spool_view s)))" by blast
  note pruned = prune [OF assms(2) "is"(1)]
  have "disk_has I (sp_disk s1)"
  proof (cases r)
    case (Inl e)
    with "is"(2) pruned assms(2) show ?thesis by (auto intro: disk_hasI)
  next
    case (Inr u)
    with "is"(2) pruned in_sync_disk_has [of s1 I] show ?thesis by simp
  qed
  with True c show ?thesis
    by (simp add: close_spool_def on_disk_def disk_has_close_error split: sum.split spool_error.split)
qed

lemma open_keeps:
  assumes "disk_has I (sp_disk s)" "open_spool True s = (r, s')"
  shows "case r of Inr _ \<Rightarrow> in_sync s' \<and> I (content (spool_view s')) | Inl _ \<Rightarrow> disk_has I (sp_disk s')"
proof -
  from assms(1) obtain v pr where v: "disk_view (sp_disk s) v pr" "I (content v)" by (auto simp: disk_has_def holds_content_def)
  from open_spool_recovers [OF v(1) assms(2)] v(2) show ?thesis
    by (cases r) (auto intro: disk_hasI)
qed

end

subsection \<open>Writes that fail only by ending the process\<close>

definition only_deaths :: "spool \<Rightarrow> bool" where
  "only_deaths s \<longleftrightarrow> list_all (\<lambda>f. case f of Some (Fails k t b) \<Rightarrow> False | _ \<Rightarrow> True) (sp_faults s)"

lemma next_fault_deaths:
  "only_deaths s \<Longrightarrow> next_fault s = (f, s1) \<Longrightarrow> only_deaths s1 \<and> (\<nexists>k t b. f = Some (Fails k t b))"
  by (auto simp: only_deaths_def next_fault_def split: list.splits option.splits io_fault.splits)

lemma deaths_simps [simp]:
  "only_deaths (on_disk f s) = only_deaths s" "only_deaths (change_view g s) = only_deaths s"
  "only_deaths (change_writer h s) = only_deaths s" "only_deaths (s\<lparr>sp_writer := w\<rparr>) = only_deaths s"
  "only_deaths (s\<lparr>sp_locked := b\<rparr>) = only_deaths s"
  by (simp_all add: only_deaths_def on_disk_def change_view_def change_writer_def)

definition keeps_deaths :: "'a spool_op \<Rightarrow> bool" where
  "keeps_deaths m \<longleftrightarrow> (\<forall>s. only_deaths s \<longrightarrow> only_deaths (snd (m s)))"

lemma keeps_deathsI: "(\<And>s r s'. only_deaths s \<Longrightarrow> m s = (r, s') \<Longrightarrow> only_deaths s') \<Longrightarrow> keeps_deaths m"
  unfolding keeps_deaths_def by (metis surjective_pairing)

lemma keeps_deathsD: "keeps_deaths m \<Longrightarrow> only_deaths s \<Longrightarrow> m s = (r, s') \<Longrightarrow> only_deaths s'"
  unfolding keeps_deaths_def by (metis snd_conv)

named_theorems deaths \<open>steps that consume faults and bring in none\<close>

lemma deaths_and_then [deaths]: "keeps_deaths m \<Longrightarrow> (\<And>a. keeps_deaths (k a)) \<Longrightarrow> keeps_deaths (and_then m k)"
  by (rule keeps_deathsI) (erule and_thenE; blast dest: keeps_deathsD)

lemma deaths_steps [deaths]:
  "keeps_deaths (ret a)" "keeps_deaths (fail e)" "keeps_deaths (lift x)" "keeps_deaths (modify (change_view g))"
  "keeps_deaths (modify (\<lambda>s. s\<lparr>sp_writer := u\<rparr>))" "keeps_deaths get_disk" "keeps_deaths get_writer"
  by (simp_all add: keeps_deaths_def ret_def fail_def lift_def modify_def get_disk_def get_writer_def split: option.split)

lemma deaths_get_view [deaths]: "keeps_deaths get_view"
  unfolding get_view_def by (intro deaths)

lemma deaths_replace_file [deaths]: "keeps_deaths (replace_file f)"
proof (rule keeps_deathsI)
  fix s r s' assume s: "only_deaths s" and run: "replace_file f s = (r, s')"
  obtain x s1 where n: "next_fault s = (x, s1)" by (rule prod.exhaust)
  with next_fault_deaths [OF s] have "only_deaths s1" by blast
  with run n show "only_deaths s'"
    by (auto simp: replace_file_def split: option.splits io_fault.splits if_splits)
qed

lemma deaths_write_records [deaths]: "keeps_deaths (write_records rs)"
proof (rule keeps_deathsI)
  fix s r s' assume s: "only_deaths s" and run: "write_records rs s = (r, s')"
  obtain x s1 where n: "next_fault s = (x, s1)" by (rule prod.exhaust)
  with next_fault_deaths [OF s] have "only_deaths s1" by blast
  with run n show "only_deaths s'"
    by (auto simp: write_records_def split: option.splits io_fault.splits if_splits)
qed

lemma deaths_if [deaths]: "keeps_deaths m \<Longrightarrow> keeps_deaths n \<Longrightarrow> keeps_deaths (if b then m else n)"
  by simp

lemma deaths_replace_journal [deaths]: "keeps_deaths replace_journal"
  unfolding replace_journal_def Let_def by (intro deaths)

lemma deaths_fold [deaths]: "keeps_deaths (fold_spool pruning)"
  unfolding fold_spool_def record_pruning_def by (intro deaths)

lemma deaths_repair_tails [deaths]: "keeps_deaths repair_tails"
  unfolding repair_tails_def by (intro deaths)

lemma deaths_append [deaths]: "keeps_deaths (append_to_journal rs)"
  unfolding append_to_journal_def by (intro deaths)

lemma deaths_record_changes [deaths]: "keeps_deaths (record_changes cs)"
  unfolding record_changes_def by (intro deaths)

lemma open_deaths:
  assumes "only_deaths s" "open_spool True s = (Inr u, s')"
  shows "only_deaths s'"
proof -
  let ?s = "s\<lparr>sp_writer := None, sp_locked := True\<rparr>"
  have s: "only_deaths ?s" using assms(1) by (simp add: only_deaths_def)
  obtain l where l: "load_disk True (sp_disk s) = Inr l"
    using assms(2) by (cases "load_disk True (sp_disk s)") (auto simp: open_spool_def Let_def split: spool_error.splits)
  let ?m = "and_then repair_tails (\<lambda>_. and_then (modify (\<lambda>s. s\<lparr>sp_writer := Some \<lparr>wr_view = ld_view l, wr_failed = False\<rparr>\<rparr>))
     (\<lambda>_. if ld_interrupted_prune l \<noteq> [] then fold_spool True else ret ()))"
  have "keeps_deaths ?m" by (intro deaths)
  moreover obtain r1 s1 where m: "?m ?s = (r1, s1)" by (cases "?m ?s")
  ultimately have "only_deaths s1" using s keeps_deathsD by blast
  with assms(2) m l show ?thesis
    by (auto simp: open_spool_def Let_def split: sum.splits spool_error.splits)
qed

text \<open>With such faults a call on an open writer either is made, or ends the process, or changed nothing.\<close>

definition writable :: "spool \<Rightarrow> bool" where
  "writable s \<longleftrightarrow> only_deaths s \<and> (case sp_writer s of None \<Rightarrow> False | Some w \<Rightarrow> \<not> wr_failed w)"

definition dies_or_works :: "'a spool_op \<Rightarrow> bool" where
  "dies_or_works m \<longleftrightarrow> (\<forall>s r s'. writable s \<longrightarrow> m s = (r, s') \<longrightarrow> (case r of Inl e \<Rightarrow> e = Died | Inr _ \<Rightarrow> writable s'))"

lemma dies_or_worksI:
  "(\<And>s r s'. writable s \<Longrightarrow> m s = (r, s') \<Longrightarrow> (case r of Inl e \<Rightarrow> e = Died | Inr _ \<Rightarrow> writable s')) \<Longrightarrow> dies_or_works m"
  by (auto simp: dies_or_works_def)

lemma dies_or_worksD:
  "dies_or_works m \<Longrightarrow> writable s \<Longrightarrow> m s = (r, s') \<Longrightarrow> (case r of Inl e \<Rightarrow> e = Died | Inr _ \<Rightarrow> writable s')"
  by (auto simp: dies_or_works_def)

named_theorems works \<open>steps that are made or end the process\<close>

lemma works_and_then [works]: "dies_or_works m \<Longrightarrow> (\<And>a. dies_or_works (k a)) \<Longrightarrow> dies_or_works (and_then m k)"
proof (rule dies_or_worksI)
  fix s r s'
  assume m: "dies_or_works m" and k: "\<And>a. dies_or_works (k a)" and s: "writable s" and run: "and_then m k s = (r, s')"
  from run show "case r of Inl e \<Rightarrow> e = Died | Inr _ \<Rightarrow> writable s'"
  proof (cases rule: and_thenE)
    case (err e)
    with dies_or_worksD [OF m s err(1)] show ?thesis by simp
  next
    case (ok a s1)
    with dies_or_worksD [OF m s ok(1)] have "writable s1" by simp
    with dies_or_worksD [OF k] ok(2) show ?thesis by blast
  qed
qed

lemma writable_view [simp]: "writable (change_view g s) = writable s"
proof -
  have "sp_writer (change_view g s) = map_option (\<lambda>w. w\<lparr>wr_view := g (wr_view w)\<rparr>) (sp_writer s)"
    by (simp add: change_view_def change_writer_def)
  then show ?thesis by (cases "sp_writer s") (simp_all add: writable_def)
qed

lemma writable_disk [simp]: "writable (on_disk f s) = writable s"
  by (simp add: writable_def on_disk_def only_deaths_def)

lemma writable_fault: "writable s \<Longrightarrow> next_fault s = (f, s1) \<Longrightarrow> writable s1 \<and> (\<nexists>k t b. f = Some (Fails k t b))"
  using next_fault_deaths [of s f s1] by (auto simp: writable_def next_fault_def split: list.splits)

lemma works_steps [works]: "dies_or_works (ret a)" "dies_or_works (modify (change_view g))" "dies_or_works get_writer"
proof -
  show "dies_or_works (ret a)" "dies_or_works (modify (change_view g))"
    by (auto simp: dies_or_works_def ret_def modify_def)
  show "dies_or_works get_writer"
    by (auto simp: dies_or_works_def get_writer_def writable_def split: option.splits)
qed

lemma works_get_view [works]: "dies_or_works get_view"
  unfolding get_view_def by (intro works)

lemma works_if [works]: "dies_or_works m \<Longrightarrow> dies_or_works n \<Longrightarrow> dies_or_works (if b then m else n)"
  by simp

lemma works_replace_file [works]: "dies_or_works (replace_file f)"
proof (rule dies_or_worksI)
  fix s r s' assume s: "writable s" and run: "replace_file f s = (r, s')"
  obtain x s1 where n: "next_fault s = (x, s1)" by (rule prod.exhaust)
  with writable_fault [OF s] have "writable s1" "\<nexists>k t b. x = Some (Fails k t b)" by blast+
  with run n show "case r of Inl e \<Rightarrow> e = Died | Inr _ \<Rightarrow> writable s'"
    by (auto simp: replace_file_def split: option.splits io_fault.splits if_splits)
qed

lemma works_write_records [works]: "dies_or_works (write_records rs)"
proof (rule dies_or_worksI)
  fix s r s' assume s: "writable s" and run: "write_records rs s = (r, s')"
  obtain x s1 where n: "next_fault s = (x, s1)" by (rule prod.exhaust)
  with writable_fault [OF s] have "writable s1" "\<nexists>k t b. x = Some (Fails k t b)" by blast+
  with run n show "case r of Inl e \<Rightarrow> e = Died | Inr _ \<Rightarrow> writable s'"
    by (auto simp: write_records_def split: option.splits io_fault.splits if_splits)
qed

lemma works_replace_journal [works]: "dies_or_works replace_journal"
  unfolding replace_journal_def Let_def by (intro works)

lemma works_append [works]: "dies_or_works (append_to_journal rs)"
proof (rule dies_or_worksI)
  fix s r s' assume s: "writable s" and run: "append_to_journal rs s = (r, s')"
  then obtain w where w: "sp_writer s = Some w" "\<not> wr_failed w" by (auto simp: writable_def split: option.splits)
  have "dies_or_works (and_then (if vw_generation (wr_view w) = None then replace_journal else ret ()) (\<lambda>_. write_records rs))"
    by (intro works)
  moreover have "and_then (if vw_generation (wr_view w) = None then replace_journal else ret ()) (\<lambda>_. write_records rs) s = (r, s')"
    using run w by (simp add: append_to_journal_def and_then_def [of get_writer] get_writer_def)
  ultimately show "case r of Inl e \<Rightarrow> e = Died | Inr _ \<Rightarrow> writable s'" using s dies_or_worksD by blast
qed

lemma works_record_changes [works]: "dies_or_works (record_changes cs)"
  unfolding record_changes_def by (intro works)

lemma works_enqueue [works]: "dies_or_works (enqueue e)"
proof -
  have "dies_or_works (\<lambda>s. case next_fault s of
            (None, s1) \<Rightarrow> (Inr (), on_disk (with_queue (append_queue_line r)) s1)
          | (Some (Dies k t), s1) \<Rightarrow> (Inl Died, on_disk (with_queue (tear_queue k t r)) s1)
          | (Some (Fails k t b), s1) \<Rightarrow> (Inl Io, on_disk (with_queue (tear_queue k t r)) s1))" for r
  proof (rule dies_or_worksI)
    fix s a s' assume s: "writable s" and run: "(case next_fault s of
            (None, s1) \<Rightarrow> (Inr (), on_disk (with_queue (append_queue_line r)) s1)
          | (Some (Dies k t), s1) \<Rightarrow> (Inl Died, on_disk (with_queue (tear_queue k t r)) s1)
          | (Some (Fails k t b), s1) \<Rightarrow> (Inl Io, on_disk (with_queue (tear_queue k t r)) s1)) = (a, s')"
    obtain x s1 where n: "next_fault s = (x, s1)" by (rule prod.exhaust)
    with writable_fault [OF s] have "writable s1" "\<nexists>k t b. x = Some (Fails k t b)" by blast+
    with run n show "case a of Inl e \<Rightarrow> e = Died | Inr _ \<Rightarrow> writable s'"
      by (auto split: option.splits io_fault.splits)
  qed
  then show ?thesis unfolding enqueue_def Let_def by (intro works)
qed

lemma in_sync_writable: "in_sync s \<Longrightarrow> only_deaths s \<Longrightarrow> writable s"
  by (auto simp: in_sync_def writable_def split: option.splits)

lemma perform_dies_or_stays:
  assumes "in_sync s" "only_deaths s" "perform c s = (r, s')"
  shows "case r of Inr a \<Rightarrow> only_deaths s' | Inl e \<Rightarrow> e = Died \<or> s' = s"
proof (cases "\<exists>e. c = Enqueue e")
  case True
  then obtain e where c: "c = Enqueue e" by blast
  have "dies_or_works (perform c)" unfolding c perform.simps by (intro works)
  from dies_or_worksD [OF this in_sync_writable [OF assms(1,2)] assms(3)] show ?thesis
    by (auto simp: writable_def split: sum.splits)
next
  case False
  show ?thesis
  proof (cases "ox_changes c (content (spool_view s))")
    case (Inl e)
    with perform_as_changes [OF assms(1) False] assms(3) show ?thesis by simp
  next
    case (Inr ca)
    obtain cs a where ca: "ca = (cs, a)" by (rule prod.exhaust)
    have "dies_or_works (and_then (record_changes cs) (\<lambda>_. ret a))" by (intro works)
    moreover have "and_then (record_changes cs) (\<lambda>_. ret a) s = (r, s')"
      using perform_as_changes [OF assms(1) False] assms(3) Inr ca by simp
    ultimately have "case r of Inl e \<Rightarrow> e = Died | Inr _ \<Rightarrow> writable s'"
      using dies_or_worksD in_sync_writable [OF assms(1,2)] by blast
    then show ?thesis by (auto simp: writable_def split: sum.splits)
  qed
qed

end
