(* ===== verification/Relay_Runs.thy ===== *)
theory Relay_Runs
  imports Relay Outbox_Invariants
begin

section \<open>Relay runs\<close>

text \<open>
  Runs of \<open>relay_with_clock\<close> one after another on one home, each of which may be killed at any durable
  step. The lemmas carry what the posts made so far say of the outbox (\<open>relay_ok\<close>) and of the pinned agents
  through every operation of a run; the properties are about whole histories of runs.
\<close>

subsection \<open>What the posts say of the outbox\<close>

definition posts_of :: "nat \<Rightarrow> post list \<Rightarrow> nat" where
  "posts_of i posts = length (filter (\<lambda>p. po_index p = i) posts)"

definition accepted_post :: "nat \<Rightarrow> post list \<Rightarrow> bool" where
  "accepted_post i posts \<longleftrightarrow> (\<exists>p \<in> set posts. po_index p = i \<and> po_accepted p)"

definition state_ok :: "post list \<Rightarrow> nat \<Rightarrow> delivery_state \<Rightarrow> bool" where
  "state_ok posts i st \<longleftrightarrow> posts_of i posts \<le> ds_attempts st \<and> ds_attempts st \<le> max_attempts
     \<and> (ds_status st = Delivered \<longrightarrow> accepted_post i posts)"

definition relay_ok :: "post list \<Rightarrow> outbox \<Rightarrow> bool" where
  "relay_ok posts x \<longleftrightarrow> life_ok UNIV {} x \<and> (\<forall>i. posts_of i posts \<le> max_attempts)
     \<and> (\<forall>i \<ge> ox_next x. posts_of i posts = 0) \<and> (\<forall>i st. map_of (ox_states x) i = Some st \<longrightarrow> state_ok posts i st)"

text \<open>What the relay asks of the spool: an acceptance only of a batch whose post was accepted, and no
  requeue, which is the operator's.\<close>

fun allowed_after :: "post list \<Rightarrow> spool_call \<Rightarrow> bool" where
  "allowed_after posts (Acceptance i ids withheld) \<longleftrightarrow> accepted_post i posts"
| "allowed_after posts (Requeue chosen now) \<longleftrightarrow> False"
| "allowed_after posts c \<longleftrightarrow> True"

lemma relay_ok_put:
  assumes "relay_ok posts x" "\<And>i st. (i, st) \<in> set cs \<Longrightarrow> state_ok posts i st" "life_ok UNIV {} (ox_put cs x)"
  shows "relay_ok posts (ox_put cs x)"
proof -
  have ok: "bt_ok (ox_states x)" using assms(1) by (simp add: relay_ok_def life_ok_def)
  have "state_ok posts i st" if "map_of (ox_states (ox_put cs x)) i = Some st" for i st
  proof -
    from that have "(map_of (ox_states x) ++ map_of (rev cs)) i = Some st"
      by (simp add: ox_put_def bt_extend_lookup [OF ok])
    then consider "map_of (rev cs) i = Some st" | "map_of (ox_states x) i = Some st" by (auto simp: map_add_Some_iff)
    then show ?thesis
    proof cases
      case 1
      then have "(i, st) \<in> set cs" using map_of_SomeD by fastforce
      then show ?thesis by (rule assms(2))
    next
      case 2
      with assms(1) show ?thesis by (simp add: relay_ok_def)
    qed
  qed
  with assms(1,3) show ?thesis by (simp add: relay_ok_def ox_put_def)
qed

lemma changes_state_ok:
  assumes "relay_ok posts x" "allowed_after posts c" "ox_changes c x = Inr (cs, a)" "(i, st) \<in> set cs"
  shows "state_ok posts i st"
proof -
  have old: "state_ok posts j s" if "ox_state x j = Inr s" for j s
    using that assms(1) by (auto simp: ox_state_def relay_ok_def split: option.splits)
  show ?thesis
  proof (cases c)
    case (Claim j now)
    with assms(3) obtain s where s: "ox_state x j = Inr s" by (auto simp: res_map_Inr_iff)
    with Claim assms(3,4) obtain b where "i = j" "claim_change now s = (Some st, b)"
      by (auto split: prod.splits option.splits)
    with old [OF s] show ?thesis by (auto simp: claim_change_def state_ok_def split: if_splits)
  next
    case (Failure j err)
    with assms(3,4) obtain s where s: "ox_state x j = Inr s" "failure_change err s = Inr st" "i = j"
      by (auto simp: res_map_Inr_iff res_bind_Inr_iff)
    with old [OF s(1)] show ?thesis by (auto simp: failure_change_def state_ok_def Let_def split: if_splits)
  next
    case (Hold j reason)
    with assms(3,4) obtain s where s: "ox_state x j = Inr s" "hold_change reason s = Inr (Some st)" "i = j"
      by (auto simp: res_map_Inr_iff res_bind_Inr_iff split: option.splits)
    with old [OF s(1)] show ?thesis by (auto simp: hold_change_def state_ok_def split: if_splits)
  next
    case (Acceptance j ids withheld)
    with assms(3,4) obtain events s where s: "ox_state x j = Inr s" "acceptance_change events ids withheld s = Inr st" "i = j"
      by (auto simp: res_map_Inr_iff res_bind_Inr_iff split: option.splits)
    with old [OF s(1)] assms(2) Acceptance show ?thesis by (auto simp: acceptance_change_def state_ok_def split: if_splits)
  qed (use assms in auto)
qed

lemma relay_outbox_put:
  assumes "relay_ok posts x" "allowed_after posts c" "ox_changes c x = Inr (cs, a)"
  shows "relay_ok posts (ox_put (take k cs) x)"
proof (rule relay_ok_put [OF assms(1)])
  show "state_ok posts i st" if "(i, st) \<in> set (take k cs)" for i st
    using changes_state_ok [OF assms] in_set_takeD [OF that] .
  show "life_ok UNIV {} (ox_put (take k cs) x)"
    using life_ok_put [of UNIV "{}" x c cs a "take k cs"] assms(1,3) set_take_subset [of k cs] by (simp add: relay_ok_def)
qed

lemma relay_outbox_grow:
  assumes "relay_ok posts x" "allowed_after posts c" "ox_changes c x = Inr (cs, a)"
  shows "relay_ok posts (ox_put cs (ox_grow c x))"
proof (cases "\<exists>e. c = Enqueue e")
  case True
  then obtain e where c: "c = Enqueue e" by blast
  with assms(3) have cs: "cs = []" by simp
  have "life_ok UNIV {} (ox_grow c x)"
    using life_ok_subset [OF life_ok_grow [of UNIV "{}" x e]] assms(1) c by (auto simp: relay_ok_def)
  moreover have "state_ok posts i st" if "map_of (ox_states x @ [(ox_next x, queued_state)]) i = Some st" for i st
    using that assms(1)
    by (auto simp: relay_ok_def map_of_append map_add_Some_iff state_ok_def queued_state_def split: if_splits)
  ultimately show ?thesis
    using assms(1) c by (auto simp: relay_ok_def cs ox_put_def bt_extend_def)
next
  case False
  then have "ox_grow c x = x" by (cases c) auto
  with relay_outbox_put [OF assms, of "length cs"] show ?thesis by simp
qed

lemma relay_outbox_prune:
  assumes "relay_ok posts x" "delivered_in (ox_states x) is"
  shows "relay_ok posts (ox_prune is x)"
proof -
  have "life_ok UNIV {} (ox_prune is x)" using life_ok_prune [of UNIV "{}" x "is"] assms by (simp add: relay_ok_def)
  moreover have "map_of (ox_states x) i = Some st" if "map_of (ox_states (ox_prune is x)) i = Some st" for i st
    using that by (simp add: ox_prune_def map_of_filter_keys split: if_splits)
  ultimately show ?thesis using assms(1) by (auto simp: relay_ok_def) (simp_all add: ox_prune_def)
qed

interpretation relay_outbox: outbox_invariant "relay_ok posts" "allowed_after posts" for posts
  by unfold_locales (rule relay_outbox_put relay_outbox_grow relay_outbox_prune; assumption)+

subsection \<open>Steps of a run\<close>

definition agents_of :: "relay_files \<Rightarrow> uuid \<Rightarrow> string option" where
  "agents_of f = (case rf_agents f of Json m \<Rightarrow> map_of m | _ \<Rightarrow> Map.empty)"

definition pinned :: "post list \<Rightarrow> relay_files \<Rightarrow> bool" where
  "pinned posts f \<longleftrightarrow> (\<forall>p \<in> set posts. agents_of f (po_session p) = Some (po_agent p))"

definition ready :: "relay_world \<Rightarrow> bool" where
  "ready w \<longleftrightarrow> in_sync (rw_spool w) \<and> only_deaths (rw_spool w) \<and> relay_ok (rw_posts w) (content (spool_view (rw_spool w)))
     \<and> pinned (rw_posts w) (rw_files w)"

definition left_behind :: "relay_error \<Rightarrow> relay_world \<Rightarrow> bool" where
  "left_behind e w \<longleftrightarrow> (if e = Spool_failed Died then disk_has (relay_ok (rw_posts w)) (sp_disk (rw_spool w)) \<and> pinned (rw_posts w) (rw_files w)
     else ready w)"

definition keeps_from :: "(relay_world \<Rightarrow> bool) \<Rightarrow> 'a relay_op \<Rightarrow> ('a \<Rightarrow> relay_world \<Rightarrow> bool) \<Rightarrow> bool" where
  "keeps_from P m Q \<longleftrightarrow> (\<forall>w. P w \<longrightarrow> (case m w of (Inr a, w') \<Rightarrow> Q a w' | (Inl e, w') \<Rightarrow> left_behind e w'))"

lemma keeps_fromI:
  "(\<And>w r w'. P w \<Longrightarrow> m w = (r, w') \<Longrightarrow> (case r of Inr a \<Rightarrow> Q a w' | Inl e \<Rightarrow> left_behind e w')) \<Longrightarrow> keeps_from P m Q"
  unfolding keeps_from_def by (auto split: prod.split sum.split)

lemma keeps_fromD:
  "keeps_from P m Q \<Longrightarrow> P w \<Longrightarrow> m w = (r, w') \<Longrightarrow> (case r of Inr a \<Rightarrow> Q a w' | Inl e \<Rightarrow> left_behind e w')"
  unfolding keeps_from_def by (cases r) (metis (no_types, lifting) case_prod_conv sum.case)+

lemma keeps_and_then:
  assumes m: "keeps_from P m R" and k: "\<And>a. keeps_from (R a) (k a) Q"
  shows "keeps_from P (and_then m k) Q"
proof (rule keeps_fromI)
  fix w r w' assume P: "P w" and run: "and_then m k w = (r, w')"
  from run show "case r of Inr a \<Rightarrow> Q a w' | Inl e \<Rightarrow> left_behind e w'"
  proof (cases rule: and_thenE)
    case (err e)
    with keeps_fromD [OF m P err(1)] show ?thesis by simp
  next
    case (ok a w1)
    with keeps_fromD [OF m P ok(1)] have "R a w1" by simp
    from keeps_fromD [OF k this ok(2)] show ?thesis .
  qed
qed

lemma keeps_from_weaken: "keeps_from P m R \<Longrightarrow> (\<And>w. P' w \<Longrightarrow> P w) \<Longrightarrow> (\<And>a w. R a w \<Longrightarrow> Q a w) \<Longrightarrow> keeps_from P' m Q"
  unfolding keeps_from_def by (auto split: prod.splits sum.splits) blast+

text \<open>What a run has established: ready, and about one batch.\<close>

definition claimed :: "nat \<Rightarrow> relay_world \<Rightarrow> bool" where
  "claimed i w \<longleftrightarrow> ready w \<and> (\<exists>st. map_of (ox_states (content (spool_view (rw_spool w)))) i = Some st
     \<and> posts_of i (rw_posts w) < ds_attempts st)"

definition pinned_to :: "nat \<Rightarrow> uuid \<Rightarrow> string \<Rightarrow> relay_world \<Rightarrow> bool" where
  "pinned_to i session agent w \<longleftrightarrow> claimed i w \<and> agents_of (rw_files w) session = Some agent"

definition took :: "nat \<Rightarrow> relay_world \<Rightarrow> bool" where
  "took i w \<longleftrightarrow> ready w \<and> accepted_post i (rw_posts w)"

text \<open>Steps that change none of what these speak of.\<close>

definition same_for :: "relay_world \<Rightarrow> relay_world \<Rightarrow> bool" where
  "same_for w w' \<longleftrightarrow> rw_spool w' = rw_spool w \<and> rw_posts w' = rw_posts w \<and> rf_agents (rw_files w') = rf_agents (rw_files w)"

lemma same_for_keeps:
  assumes "same_for w w'"
  shows "ready w' = ready w" "claimed i w' = claimed i w" "took i w' = took i w"
proof -
  have "pinned (rw_posts w') (rw_files w') = pinned (rw_posts w) (rw_files w)"
    using assms by (simp add: same_for_def pinned_def agents_of_def)
  then show r: "ready w' = ready w" using assms by (simp add: ready_def same_for_def)
  then show "claimed i w' = claimed i w" "took i w' = took i w" using assms by (simp_all add: claimed_def took_def same_for_def)
qed

definition harmless :: "'a relay_op \<Rightarrow> bool" where
  "harmless m \<longleftrightarrow> (\<forall>w r w'. m w = (r, w') \<longrightarrow> same_for w w' \<and> (\<forall>e. r = Inl e \<longrightarrow> e \<noteq> Spool_failed Died))"

lemma harmlessI: "(\<And>w r w'. m w = (r, w') \<Longrightarrow> same_for w w' \<and> (\<forall>e. r = Inl e \<longrightarrow> e \<noteq> Spool_failed Died)) \<Longrightarrow> harmless m"
  by (auto simp: harmless_def)

lemma harmlessD: "harmless m \<Longrightarrow> m w = (r, w') \<Longrightarrow> same_for w w' \<and> (\<forall>e. r = Inl e \<longrightarrow> e \<noteq> Spool_failed Died)"
  by (auto simp: harmless_def)

lemma harmless_keeps:
  assumes "harmless m"
  shows "keeps_from ready m (\<lambda>_. ready)" "keeps_from (took i) m (\<lambda>_. took i)"
proof -
  have "case r of Inr a \<Rightarrow> (ready w \<longrightarrow> ready w') \<and> (took i w \<longrightarrow> took i w') | Inl e \<Rightarrow> ready w \<longrightarrow> left_behind e w'"
    if "m w = (r, w')" for w r w'
    using harmlessD [OF assms that] same_for_keeps [of w w'] by (auto simp: left_behind_def split: sum.split)
  moreover have "took i w \<Longrightarrow> ready w" for w by (simp add: took_def)
  ultimately show "keeps_from ready m (\<lambda>_. ready)" "keeps_from (took i) m (\<lambda>_. took i)"
    by (intro keeps_fromI; fastforce split: sum.splits)+
qed

named_theorems harmless_steps \<open>steps that leave the spool, the posts and the pinned agents as they are\<close>

lemma harmless_and_then [harmless_steps]:
  assumes "harmless m" "\<And>a. harmless (k a)"
  shows "harmless (and_then m k)"
proof (rule harmlessI)
  fix w r w' assume "and_then m k w = (r, w')"
  then show "same_for w w' \<and> (\<forall>e. r = Inl e \<longrightarrow> e \<noteq> Spool_failed Died)"
  proof (cases rule: and_thenE)
    case (err e)
    with harmlessD [OF assms(1) err(1)] show ?thesis by simp
  next
    case (ok a w1)
    with harmlessD [OF assms(1) ok(1)] harmlessD [OF assms(2) ok(2)] show ?thesis by (simp add: same_for_def)
  qed
qed

lemma harmless_ret [harmless_steps]: "harmless (ret a)" "harmless read_now" "harmless (on_report g)" "harmless read_consent" "harmless get_files"
  by (auto simp: harmless_def same_for_def ret_def read_now_def on_report_def read_consent_def get_files_def split: list.splits)

lemma harmless_fail [harmless_steps]: "e \<noteq> Spool_failed Died \<Longrightarrow> harmless (fail e)"
  by (auto simp: harmless_def same_for_def fail_def)

lemma harmless_json [harmless_steps]: "harmless (lift (json_or d f))"
  by (auto simp: harmless_def same_for_def lift_def json_or_def split: json_file.splits)

lemma harmless_replace [harmless_steps]:
  assumes "\<And>f. rf_agents (g f) = rf_agents f"
  shows "harmless (replace_private g)"
  by (rule harmlessI)
    (auto simp: replace_private_def next_write_def on_files_def same_for_def assms split: list.splits option.splits write_fault.splits if_splits)

lemma harmless_record_delivered [harmless_steps]: "harmless (record_delivered ids)"
  by (rule harmlessI)
    (auto simp: record_delivered_def next_write_def on_files_def same_for_def Let_def split: list.splits option.splits write_fault.splits)

lemma harmless_record_refused [harmless_steps]: "harmless (record_refused_delivered session n)"
  unfolding record_refused_delivered_def refused_delivered_def Let_def by (intro harmless_steps) simp

lemma harmless_record_success [harmless_steps]: "harmless (record_success receiver)"
  unfolding record_success_def by (intro harmless_steps) simp

lemma harmless_record_failure [harmless_steps]: "harmless (state_record_failure receiver error)"
  unfolding state_record_failure_def Let_def by (intro harmless_steps) simp

subsection \<open>Calls of the spool\<close>

lemma in_spool_perform:
  assumes "ready w" "allowed_after (rw_posts w) c" "in_spool (perform c) w = (r, w')"
  shows "(case r of Inr a \<Rightarrow> ready w' | Inl e \<Rightarrow> left_behind e w') \<and> rw_posts w' = rw_posts w"
proof -
  obtain q s where p: "perform c (rw_spool w) = (q, s)" by (rule prod.exhaust)
  from assms(1) have s: "in_sync (rw_spool w)" "only_deaths (rw_spool w)" "relay_ok (rw_posts w) (content (spool_view (rw_spool w)))"
    "pinned (rw_posts w) (rw_files w)" by (simp_all add: ready_def)
  note keep = relay_outbox.perform_keeps [OF s(1,3) assms(2) p]
  note stay = perform_dies_or_stays [OF s(1,2) p]
  show ?thesis
  proof (cases q)
    case (Inr a)
    with assms(3) p have "r = Inr a" "w' = w\<lparr>rw_spool := s\<rparr>" by (simp_all add: in_spool_def)
    with keep stay Inr s show ?thesis by (simp add: ready_def)
  next
    case (Inl e)
    with assms(3) p have r: "r = Inl (Spool_failed e)" "w' = w\<lparr>rw_spool := s\<rparr>" by (simp_all add: in_spool_def)
    show ?thesis
    proof (cases "e = Died")
      case True
      with keep r Inl s show ?thesis by (simp add: left_behind_def)
    next
      case False
      with stay Inl have "s = rw_spool w" by simp
      with r False s show ?thesis by (simp add: left_behind_def ready_def)
    qed
  qed
qed

lemma perform_as:
  "perform (Enqueue e) s = (res_map Index (fst (enqueue e s)), snd (enqueue e s))"
  "perform (Claim i now) s = (res_map Flag (fst (claim i now s)), snd (claim i now s))"
  "perform (Failure i err) s = (res_map (\<lambda>_. Nothing) (fst (record_failure i err s)), snd (record_failure i err s))"
  "perform (Hold i reason) s = (res_map (\<lambda>_. Nothing) (fst (hold i reason s)), snd (hold i reason s))"
  "perform (Acceptance i ids n) s = (res_map (\<lambda>_. Nothing) (fst (record_acceptance i ids n s)), snd (record_acceptance i ids n s))"
  by (simp_all add: and_then_def ret_def res_map_def split: prod.split sum.split)

lemma in_spool_step:
  assumes as: "\<And>s. perform c s = (res_map f (fst (m s)), snd (m s))"
    and pre: "\<And>w. P w \<Longrightarrow> ready w \<and> allowed_after (rw_posts w) c"
  shows "keeps_from P (in_spool m) (\<lambda>_. ready)"
proof (rule keeps_fromI)
  fix w r w' assume P: "P w" and run: "in_spool m w = (r, w')"
  have "in_spool (perform c) w = (res_map f r, w')"
    using run by (auto simp: in_spool_def as split: prod.splits sum.splits)
  from in_spool_perform [OF _ _ this] pre [OF P] show "case r of Inr a \<Rightarrow> ready w' | Inl e \<Rightarrow> left_behind e w'"
    by (cases r) auto
qed

lemma keeps_spool_calls:
  "keeps_from ready (in_spool (enqueue e)) (\<lambda>_. ready)" "keeps_from ready (in_spool (hold i reason)) (\<lambda>_. ready)"
  "keeps_from ready (in_spool (record_failure i err)) (\<lambda>_. ready)"
  "keeps_from (took i) (in_spool (record_acceptance i ids n)) (\<lambda>_. ready)"
  by (rule in_spool_step [OF perform_as(1)] in_spool_step [OF perform_as(4)] in_spool_step [OF perform_as(3)]
      in_spool_step [OF perform_as(5)]; simp add: took_def)+

text \<open>A claim that answers yes has counted its attempt.\<close>

lemma keeps_claim: "keeps_from ready (in_spool (claim i now)) (\<lambda>b w. if b then claimed i w else ready w)"
proof (rule keeps_fromI)
  fix w r w' assume w: "ready w" and run: "in_spool (claim i now) w = (r, w')"
  have "keeps_from ready (in_spool (claim i now)) (\<lambda>_. ready)" by (rule in_spool_step [OF perform_as(2)]) simp
  from keeps_fromD [OF this w run] have kept: "case r of Inr b \<Rightarrow> ready w' | Inl e \<Rightarrow> left_behind e w'" .
  show "case r of Inr b \<Rightarrow> (if b then claimed i w' else ready w') | Inl e \<Rightarrow> left_behind e w'"
  proof (cases "r = Inr True")
    case True
    let ?x = "content (spool_view (rw_spool w))"
    from run True obtain s where c: "claim i now (rw_spool w) = (Inr True, s)" "w' = w\<lparr>rw_spool := s\<rparr>"
      by (auto simp: in_spool_def split: prod.splits sum.splits)
    then have p: "perform (Claim i now) (rw_spool w) = (Inr (Flag True), s)"
      unfolding perform_as by simp
    from w have s: "in_sync (rw_spool w)" "relay_ok (rw_posts w) ?x" by (simp_all add: ready_def)
    from perform_refines [OF s(1) p] obtain cs where cs: "ox_changes (Claim i now) ?x = Inr (cs, Flag True)"
      "content (spool_view s) = ox_put cs ?x"
      by (auto simp: ox_perform_def res_map_Inr_iff)
    then obtain st where st: "ox_state ?x i = Inr st"
      "(case claim_change now st of (None, b) \<Rightarrow> ([], Flag b) | (Some st', b) \<Rightarrow> ([(i, st')], Flag b)) = (cs, Flag True)"
      by (auto simp: res_map_Inr_iff)
    have "posts_of i (rw_posts w) \<le> ds_attempts st"
      using st(1) s(2) by (auto simp: ox_state_def relay_ok_def state_ok_def split: option.splits)
    moreover obtain st' where "cs = [(i, st')]" "ds_attempts st' = Suc (ds_attempts st)"
      using st(2) by (auto simp: claim_change_def split: if_splits)
    moreover have "bt_ok (ox_states ?x)" using s(2) by (simp add: relay_ok_def life_ok_def)
    ultimately have "map_of (ox_states (ox_put cs ?x)) i = Some st'" "posts_of i (rw_posts w) < ds_attempts st'"
      by (simp_all add: ox_put_def bt_extend_lookup)
    with kept True c cs(2) show ?thesis by (simp add: claimed_def)
  next
    case False
    with kept show ?thesis by (auto split: sum.splits)
  qed
qed

subsection \<open>Pinning, posting and the outcomes\<close>

lemma session_agents_of: "session_agents f = Inr m \<Longrightarrow> map_of m = agents_of f"
  by (auto simp: session_agents_def json_or_def agents_of_def split: json_file.splits)

lemma get_files_then: "and_then get_files k w = k (rw_files w) w"
  by (simp add: and_then_def get_files_def)

lemma lift_then: "and_then (lift x) k w = (case x of Inl e \<Rightarrow> (Inl e, w) | Inr a \<Rightarrow> k a w)"
  by (simp add: and_then_def lift_def split: sum.split)

lemma replace_private_cases:
  assumes "replace_private g w = (r, w')"
  obtains (unchanged) e where "r = Inl e" "e \<noteq> Spool_failed Died" "same_for w w'"
  | (changed) "rf_agents (rw_files w') = rf_agents (g (rw_files w))" "rw_spool w' = rw_spool w" "rw_posts w' = rw_posts w"
      "\<And>e. r = Inl e \<Longrightarrow> e \<noteq> Spool_failed Died"
  using assms
  by (auto simp: replace_private_def next_write_def on_files_def same_for_def
      split: list.splits option.splits write_fault.splits if_splits)

lemma keeps_pin: "keeps_from (claimed i) (pin_session_agent session agent) (\<lambda>_. pinned_to i session agent)"
proof (rule keeps_fromI)
  fix w r w' assume w: "claimed i w" and run: "pin_session_agent session agent w = (r, w')"
  have ready: "ready w" using w by (simp add: claimed_def)
  let ?goal = "case r of Inr a \<Rightarrow> pinned_to i session agent w' | Inl e \<Rightarrow> left_behind e w'"
  show ?goal
  proof (cases "session_agents (rw_files w)")
    case (Inl e)
    then have "e = File_unreadable" by (auto simp: session_agents_def json_or_def split: json_file.splits)
    with Inl run ready show ?goal by (auto simp: pin_session_agent_def get_files_then lift_then left_behind_def)
  next
    case (Inr m)
    note m = session_agents_of [OF Inr]
    show ?goal
    proof (cases "map_of m session")
      case (Some known)
      with Inr run m w ready show ?goal
        by (auto simp: pin_session_agent_def get_files_then lift_then ret_def fail_def pinned_to_def left_behind_def split: if_splits)
    next
      case None
      with Inr run have "replace_private (\<lambda>f. f\<lparr>rf_agents := Json ((session, agent) # m)\<rparr>) w = (r, w')"
        by (simp add: pin_session_agent_def get_files_then lift_then)
      then show ?goal
      proof (cases rule: replace_private_cases)
        case (unchanged e)
        with same_for_keeps(1) [OF unchanged(3)] ready show ?goal by (simp add: left_behind_def)
      next
        case changed
        then have a: "agents_of (rw_files w') = (agents_of (rw_files w))(session \<mapsto> agent)"
          using m by (auto simp: agents_of_def fun_eq_iff)
        have "pinned (rw_posts w) (rw_files w)" using ready by (simp add: ready_def)
        then have "pinned (rw_posts w') (rw_files w')"
          using None m changed(3) by (auto simp: pinned_def a)
        then have "ready w'" "claimed i w'"
          using w ready changed by (simp_all add: ready_def claimed_def)
        with changed(4) a show ?goal by (auto simp: pinned_to_def left_behind_def split: sum.split)
      qed
    qed
  qed
qed

lemma posts_of_snoc: "posts_of j (posts @ [p]) = posts_of j posts + (if po_index p = j then 1 else 0)"
  by (simp add: posts_of_def)

lemma keeps_post:
  "keeps_from (pinned_to i session agent) (post_batch i session agent ids)
     (\<lambda>r w. ready w \<and> (\<forall>c. r = Inr c \<longrightarrow> took i w))"
proof (rule keeps_fromI)
  fix w r w' assume w: "pinned_to i session agent w" and run: "post_batch i session agent ids w = (r, w')"
  let ?x = "content (spool_view (rw_spool w))"
  from w obtain st where st: "map_of (ox_states ?x) i = Some st" "posts_of i (rw_posts w) < ds_attempts st"
    and r: "ready w" by (auto simp: pinned_to_def claimed_def)
  from r have ok: "relay_ok (rw_posts w) ?x" by (simp add: ready_def)
  show "case r of Inr a \<Rightarrow> ready w' \<and> (\<forall>c. a = Inr c \<longrightarrow> took i w') | Inl e \<Rightarrow> left_behind e w'"
  proof (cases "rw_answers w")
    case Nil
    with run r show ?thesis by (auto simp: post_batch_def left_behind_def)
  next
    case (Cons answer answers)
    define p where "p = \<lparr>po_index = i, po_session = session, po_agent = agent, po_ids = ids,
      po_accepted = (case deliver_result answer of Inr _ \<Rightarrow> True | Inl _ \<Rightarrow> False)\<rparr>"
    have w': "r = Inr (deliver_result answer)" "w' = w\<lparr>rw_answers := answers, rw_posts := rw_posts w @ [p]\<rparr>"
      using run Cons by (simp_all add: post_batch_def Let_def p_def)
    have i: "po_index p = i" by (simp add: p_def)
    have "i \<in> fst ` set (ox_states ?x)" using st(1) by (simp add: dom_map_of_image)
    then have "i < ox_next ?x" using ok by (auto simp: relay_ok_def life_ok_def)
    moreover have "state_ok (rw_posts w @ [p]) j s" if "map_of (ox_states ?x) j = Some s" for j s
    proof -
      have "state_ok (rw_posts w) j s" using that ok by (simp add: relay_ok_def)
      moreover have "j = i \<Longrightarrow> s = st" using that st(1) by simp
      ultimately show ?thesis using st(2) by (auto simp: state_ok_def posts_of_snoc i accepted_post_def)
    qed
    moreover have "posts_of j (rw_posts w @ [p]) \<le> max_attempts" for j
    proof (cases "j = i")
      case True
      have "ds_attempts st \<le> max_attempts" using ok st(1) by (simp add: relay_ok_def state_ok_def)
      with True st(2) show ?thesis by (simp add: posts_of_snoc i)
    next
      case False
      with ok show ?thesis by (simp add: relay_ok_def posts_of_snoc i)
    qed
    ultimately have "relay_ok (rw_posts w @ [p]) ?x"
      using ok by (auto simp: relay_ok_def posts_of_snoc i)
    moreover have "pinned (rw_posts w @ [p]) (rw_files w)"
      using w r by (auto simp: pinned_def pinned_to_def ready_def p_def)
    ultimately have "ready w'" using r by (simp add: ready_def w')
    moreover have "took i w'" if "deliver_result answer = Inr c" for c
      using \<open>ready w'\<close> that by (auto simp: took_def w' accepted_post_def i) (simp add: p_def)
    ultimately show ?thesis by (simp add: w')
  qed
qed

subsection \<open>The delivery loop and the queueing\<close>

definition stays_ready :: "'a relay_op \<Rightarrow> bool" where
  "stays_ready m \<longleftrightarrow> keeps_from ready m (\<lambda>_. ready)"

named_theorems ready_steps \<open>steps that keep a run ready\<close>

lemma ready_and_then [ready_steps]: "stays_ready m \<Longrightarrow> (\<And>a. stays_ready (k a)) \<Longrightarrow> stays_ready (and_then m k)"
  unfolding stays_ready_def by (rule keeps_and_then)

lemma ready_harmless: "harmless m \<Longrightarrow> stays_ready m"
  unfolding stays_ready_def by (rule harmless_keeps)

lemma ready_if [ready_steps]: "stays_ready m \<Longrightarrow> stays_ready n \<Longrightarrow> stays_ready (if b then m else n)"
  by simp

lemma ready_spool_calls [ready_steps]:
  "stays_ready (in_spool (enqueue e))" "stays_ready (in_spool (hold i reason))" "stays_ready (in_spool (record_failure i err))"
  "stays_ready (in_spool (claim i now))"
proof -
  show "stays_ready (in_spool (enqueue e))" "stays_ready (in_spool (hold i reason))" "stays_ready (in_spool (record_failure i err))"
    unfolding stays_ready_def by (rule keeps_spool_calls)+
  show "stays_ready (in_spool (claim i now))"
    unfolding stays_ready_def by (rule keeps_from_weaken [OF keeps_claim]) (auto simp: claimed_def split: if_splits)
qed

lemma ready_get_view [ready_steps]: "stays_ready (in_spool get_view)"
  unfolding stays_ready_def
  by (rule keeps_fromI)
    (auto simp: in_spool_def exec_simps ready_def in_sync_def split: option.splits sum.split)

lemma ready_basic [ready_steps]:
  "stays_ready (ret a)" "stays_ready read_now" "stays_ready (on_report g)" "stays_ready read_consent" "stays_ready get_files"
  "e \<noteq> Spool_failed Died \<Longrightarrow> stays_ready (fail e)" "stays_ready (lift (json_or d f))"
  "stays_ready (state_record_failure receiver error)" "stays_ready (record_success receiver)"
  by (intro ready_harmless harmless_steps; assumption)+

lemma ready_due [ready_steps]: "stays_ready (due_for_delivery states index)"
  unfolding due_for_delivery_def
  by (cases "map_of states index"; simp only: option.case; intro ready_steps)
    (auto intro!: ready_steps split: option.split)

lemma ready_permitted [ready_steps]: "stays_ready (permitted_batch index entry)"
proof -
  have "stays_ready (case recheck_directory_batch cn entry of
                Inl e \<Rightarrow> fail (Consent_failed e)
              | Inr (Origin_unreadable session, _) \<Rightarrow>
                  and_then (in_spool (hold index unreadable_origin_hold)) (\<lambda>_.
                  and_then (on_report (\<lambda>r. r\<lparr>rr_unreadable := note_unreadable session (rr_unreadable r)\<rparr>)) (\<lambda>_. ret None))
              | Inr (Rechecked, entry') \<Rightarrow>
                  if ids_of (se_document entry') = []
                  then and_then (in_spool (hold index consent_hold)) (\<lambda>_. ret None)
                  else ret (Some entry'))" for cn
    by (auto intro!: ready_steps split: sum.split prod.split recheck.split)
  then have "stays_ready (case cn_selection cn of
         Inl e \<Rightarrow> fail (Consent_failed e)
       | Inr active \<Rightarrow>
           if active \<or> se_directory_selection entry then
             (case recheck_directory_batch cn entry of
                Inl e \<Rightarrow> fail (Consent_failed e)
              | Inr (Origin_unreadable session, _) \<Rightarrow>
                  and_then (in_spool (hold index unreadable_origin_hold)) (\<lambda>_.
                  and_then (on_report (\<lambda>r. r\<lparr>rr_unreadable := note_unreadable session (rr_unreadable r)\<rparr>)) (\<lambda>_. ret None))
              | Inr (Rechecked, entry') \<Rightarrow>
                  if ids_of (se_document entry') = []
                  then and_then (in_spool (hold index consent_hold)) (\<lambda>_. ret None)
                  else ret (Some entry'))
           else ret (Some entry))" for cn
    by (auto intro!: ready_steps split: sum.split)
  then show ?thesis unfolding permitted_batch_def by (intro ready_steps) simp_all
qed

lemma ready_refuse [ready_steps]: "stays_ready (refuse_batch receiver index error)"
  unfolding refuse_batch_def by (intro ready_steps)

lemma took_harmless: "harmless m \<Longrightarrow> (\<And>a. keeps_from (took i) (k a) Q) \<Longrightarrow> keeps_from (took i) (and_then m k) Q"
  by (rule keeps_and_then [OF harmless_keeps(2)])

lemma keeps_accept: "keeps_from (took i) (accept_batch receiver i session ids refused withheld created) (\<lambda>_. ready)"
  unfolding accept_batch_def
proof (rule took_harmless [OF harmless_record_delivered], rule took_harmless)
  show "harmless (case refused of Some n \<Rightarrow> record_refused_delivered session n | None \<Rightarrow> ret ())"
    by (cases refused) (auto intro: harmless_record_refused harmless_ret)
  have "stays_ready (and_then (on_report f) (\<lambda>_. and_then (record_success receiver) (\<lambda>_. on_report g)))" for f g
    by (intro ready_steps)
  then show "keeps_from (took i) (and_then (in_spool (record_acceptance i ids withheld)) (\<lambda>_. and_then (on_report f)
      (\<lambda>_. and_then (record_success receiver) (\<lambda>_. on_report g)))) (\<lambda>_. ready)" for f g
    unfolding stays_ready_def by (rule keeps_and_then [OF keeps_spool_calls(4)])
qed

lemma keeps_send: "keeps_from (claimed i) (send_batch receiver withhold agents i entry) (\<lambda>_. ready)"
proof -
  have fails: "keeps_from (claimed i) (fail e) Q" if "e \<noteq> Spool_failed Died" for e :: relay_error and Q :: "unit \<Rightarrow> relay_world \<Rightarrow> bool"
    using that by (auto simp: keeps_from_def fail_def left_behind_def claimed_def)
  show ?thesis
  proof (cases "doc_session (se_document entry)")
    case None
    then show ?thesis by (simp add: send_batch_def fails)
  next
    case (Some session)
    show ?thesis
    proof (cases "map_of agents session")
      case None
      with Some show ?thesis by (simp add: send_batch_def fails)
    next
      case (Some agent)
      let ?outcome = "\<lambda>result. case result of Inl e \<Rightarrow> refuse_batch receiver i e
        | Inr created \<Rightarrow> accept_batch receiver i session (ids_of (se_document entry)) (doc_refused (se_document entry))
            (withhold (se_document entry)) created"
      have "keeps_from (\<lambda>w. ready w \<and> (\<forall>c. result = Inr c \<longrightarrow> took i w)) (?outcome result) (\<lambda>_. ready)" for result
      proof (cases result)
        case (Inl e)
        have "keeps_from ready (refuse_batch receiver i e) (\<lambda>_. ready)" using ready_refuse by (simp add: stays_ready_def)
        then show ?thesis unfolding Inl sum.case by (rule keeps_from_weaken) simp_all
      next
        case (Inr c)
        show ?thesis unfolding Inr sum.case by (rule keeps_from_weaken [OF keeps_accept]) simp_all
      qed
      from keeps_and_then [OF keeps_pin keeps_and_then [OF keeps_post this]]
      show ?thesis using Some \<open>doc_session (se_document entry) = Some session\<close> by (simp add: send_batch_def Let_def)
    qed
  qed
qed

lemma ready_claim_then:
  assumes "keeps_from (claimed i) m (\<lambda>_. ready)"
  shows "stays_ready (and_then (in_spool (claim i now)) (\<lambda>b. if \<not> b then ret () else m))"
  unfolding stays_ready_def
proof (rule keeps_and_then [OF keeps_claim])
  show "keeps_from (\<lambda>w. if b then claimed i w else ready w) (if \<not> b then ret () else m) (\<lambda>_. ready)" for b
    using assms ready_basic(1) by (cases b) (simp_all add: stays_ready_def)
qed

lemma ready_deliver_one [ready_steps]: "stays_ready (deliver_one receiver withhold agents states batch)"
proof (cases batch)
  case (Pair i entry)
  have "stays_ready (case permitted of None \<Rightarrow> ret ()
            | Some entry' \<Rightarrow>
                and_then read_now (\<lambda>now. and_then (in_spool (claim i now)) (\<lambda>claimed.
                  if \<not> claimed then ret () else send_batch receiver withhold agents i entry')))" for permitted
    by (cases permitted) (auto intro!: ready_basic ready_and_then ready_claim_then keeps_send)
  then show ?thesis unfolding Pair deliver_one_def prod.case by (intro ready_steps)
qed

lemma ready_deliver_all [ready_steps]: "stays_ready (deliver_all receiver withhold agents states bs)"
  by (induction bs) (auto intro: ready_steps)

lemma ready_queue_all [ready_steps]: "stays_ready (queue_all selection bs q)"
proof (induction bs arbitrary: q)
  case (Cons b bs)
  have "stays_ready (queue_one selection b q)"
    by (cases b) (auto simp: queue_one_def Let_def intro!: ready_steps)
  with Cons show ?case by (auto intro: ready_steps)
qed (auto intro: ready_steps)

lemma ready_queue_carriers [ready_steps]: "stays_ready (queue_carriers selection cs q)"
proof (induction cs arbitrary: q)
  case (Cons c cs)
  have "stays_ready (queue_carrier selection c q)"
    by (cases c) (auto simp: queue_carrier_def Let_def intro!: ready_steps)
  with Cons show ?case by (auto intro: ready_steps)
qed (auto intro: ready_steps)

lemma ready_relay_batches: "stays_ready (relay_batches receiver withhold selection batches carriers)"
  unfolding relay_batches_def session_agents_def refused_delivered_def Let_def by (intro ready_steps)

subsection \<open>Runs one after another\<close>

text \<open>What the world brings to a run, and the home it runs on. A run that returns, with a report or an
  error, closes its spool; a killed one does not.\<close>

record relay_process =
  rp_spool_faults :: "io_fault option list"
  rp_write_faults :: "write_fault option list"
  rp_times :: "int list"
  rp_consents :: "consent_reading list"
  rp_answers :: "(string + http_response) list"
  rp_receiver :: string
  rp_withhold :: "document \<Rightarrow> nat"
  rp_selection :: bool
  rp_batches :: "(string \<times> wire_batch) list"
  rp_carriers :: "(string \<times> wire_batch) list"
  rp_close :: int
  rp_pins_error :: string

record relay_home =
  rh_disk :: spool_disk
  rh_files :: relay_files
  rh_posts :: "post list"

definition empty_home :: relay_home where
  "empty_home = \<lparr>rh_disk = empty_disk, rh_files = no_files, rh_posts = []\<rparr>"

definition no_report :: run_report where
  "no_report = \<lparr>rr_first_failure = None, rr_batches_delivered = 0, rr_events_delivered = 0, rr_events_new = Some 0,
     rr_withheld = 0, rr_unreadable = []\<rparr>"

definition run_world :: "relay_process \<Rightarrow> relay_home \<Rightarrow> spool \<Rightarrow> relay_world" where
  "run_world p h s = \<lparr>rw_spool = s, rw_files = rh_files h, rw_write_faults = rp_write_faults p, rw_times = rp_times p,
     rw_consents = rp_consents p, rw_answers = rp_answers p, rw_posts = rh_posts h, rw_report = no_report\<rparr>"

definition run_pins :: "relay_process \<Rightarrow> relay_files \<Rightarrow> string + uuid list" where
  "run_pins p f = (case session_agents f of Inl _ \<Rightarrow> Inl (rp_pins_error p) | Inr m \<Rightarrow> Inr (map fst m))"

definition killed :: "relay_error + 'a \<Rightarrow> bool" where
  "killed r = (case r of Inl Run_killed \<Rightarrow> True | Inl (Spool_failed Died) \<Rightarrow> True | _ \<Rightarrow> False)"

definition run_relay :: "relay_process \<Rightarrow> relay_home \<Rightarrow> (relay_error + run_report) \<times> relay_home" where
  "run_relay p h =
     (case open_spool True \<lparr>sp_disk = rh_disk h, sp_writer = None, sp_locked = False, sp_faults = rp_spool_faults p\<rparr> of
        (Inl e, s) \<Rightarrow> (Inl (Spool_failed e), h\<lparr>rh_disk := sp_disk s\<rparr>)
      | (Inr _, s) \<Rightarrow>
          (case relay_batches (rp_receiver p) (rp_withhold p) (rp_selection p) (rp_batches p) (rp_carriers p) (run_world p h s) of
             (r, w) \<Rightarrow> (res_map (\<lambda>_. rw_report w) r,
               \<lparr>rh_disk = sp_disk (if killed r then rw_spool w else close_spool (run_pins p (rw_files w)) (rp_close p) (rw_spool w)),
                rh_files = rw_files w, rh_posts = rw_posts w\<rparr>)))"

definition run_relays :: "relay_process list \<Rightarrow> relay_home \<Rightarrow> relay_home" where
  "run_relays ps h = foldl (\<lambda>h p. snd (run_relay p h)) h ps"

definition only_dies :: "relay_process \<Rightarrow> bool" where
  "only_dies p \<longleftrightarrow> list_all (\<lambda>f. case f of Some (Fails k t b) \<Rightarrow> False | _ \<Rightarrow> True) (rp_spool_faults p)"

definition home_ok :: "relay_home \<Rightarrow> bool" where
  "home_ok h \<longleftrightarrow> disk_has (relay_ok (rh_posts h)) (rh_disk h) \<and> pinned (rh_posts h) (rh_files h)"

lemma ready_leaves_home:
  assumes "ready w"
  shows "disk_has (relay_ok (rw_posts w)) (sp_disk (rw_spool w))" "disk_has (relay_ok (rw_posts w)) (sp_disk (close_spool pins t (rw_spool w)))"
  using assms in_sync_disk_has relay_outbox.close_keeps by (auto simp: ready_def)

lemma run_relay_home_ok:
  assumes "home_ok h" "only_dies p"
  shows "home_ok (snd (run_relay p h))"
proof -
  let ?s = "\<lparr>sp_disk = rh_disk h, sp_writer = None, sp_locked = False, sp_faults = rp_spool_faults p\<rparr>"
  have h: "disk_has (relay_ok (rh_posts h)) (sp_disk ?s)" "pinned (rh_posts h) (rh_files h)" using assms(1) by (simp_all add: home_ok_def)
  obtain o' s where o: "open_spool True ?s = (o', s)" by (rule prod.exhaust)
  note opened = relay_outbox.open_keeps [OF h(1) o]
  show ?thesis
  proof (cases o')
    case (Inl e)
    with o opened h(2) show ?thesis by (simp add: run_relay_def home_ok_def)
  next
    case (Inr u)
    have "only_deaths ?s" using assms(2) by (simp add: only_deaths_def only_dies_def)
    then have "only_deaths s" by (rule open_deaths [OF _ o [unfolded Inr]])
    then have w: "ready (run_world p h s)" using opened h(2) Inr by (simp add: ready_def run_world_def)
    obtain r w' where run: "relay_batches (rp_receiver p) (rp_withhold p) (rp_selection p) (rp_batches p) (rp_carriers p) (run_world p h s) = (r, w')"
      by (rule prod.exhaust)
    have "keeps_from ready (relay_batches (rp_receiver p) (rp_withhold p) (rp_selection p) (rp_batches p) (rp_carriers p)) (\<lambda>_. ready)"
      using ready_relay_batches by (simp add: stays_ready_def)
    from keeps_fromD [OF this w run] consider "ready w'"
      | "r = Inl (Spool_failed Died)" "disk_has (relay_ok (rw_posts w')) (sp_disk (rw_spool w'))" "pinned (rw_posts w') (rw_files w')"
      by (auto simp: left_behind_def split: sum.splits if_splits)
    then show ?thesis
    proof cases
      case 1
      then have "pinned (rw_posts w') (rw_files w')" by (simp add: ready_def)
      with ready_leaves_home [OF 1] o run Inr show ?thesis by (simp add: run_relay_def home_ok_def)
    next
      case 2
      with o run Inr show ?thesis by (simp add: run_relay_def home_ok_def killed_def)
    qed
  qed
qed

lemma run_relays_home_ok: "home_ok h \<Longrightarrow> list_all only_dies ps \<Longrightarrow> home_ok (run_relays ps h)"
  unfolding run_relays_def by (induction ps arbitrary: h) (auto intro: run_relay_home_ok)

lemma empty_home_ok: "home_ok empty_home"
proof -
  obtain x where x: "holds_content empty_disk x" "life_ok {} {} x" using empty_disk_ok by (auto simp: disk_ok_def)
  then have "ox_states x = []" by (auto simp: holds_content_def disk_view_iff empty_disk_def parse_journal_def journal_start_def
      read_snapshot_def parse_queue_def queue_rows_def assemble_def Let_def content_def full_states_def bt_extend_def)
  with x have "relay_ok [] x" by (auto simp: relay_ok_def posts_of_def life_ok_def)
  with x(1) show ?thesis by (auto simp: home_ok_def empty_home_def disk_has_def pinned_def)
qed

lemma history_ok: "list_all only_dies ps \<Longrightarrow> home_ok (run_relays ps empty_home)"
  by (rule run_relays_home_ok [OF empty_home_ok])

lemma home_states:
  assumes "home_ok h" "load_disk True (rh_disk h) = Inr l" "map_of (full_states (ld_view l)) i = Some st"
  shows "state_ok (rh_posts h) i st"
proof -
  from assms(1) obtain v pr where v: "disk_view (rh_disk h) v pr" "relay_ok (rh_posts h) (content v)"
    by (auto simp: home_ok_def disk_has_def holds_content_def)
  with assms(2) have "ld_view l = v" by (auto simp: disk_view_def)
  with v(2) assms(3) show ?thesis by (auto simp: relay_ok_def content_def)
qed

subsection \<open>Queueing\<close>

lemma enqueue_lines:
  assumes "in_spool (enqueue e) w = (Inr i, w')" "sp_writer (rw_spool w) \<noteq> None"
  shows "sp_writer (rw_spool w') \<noteq> None"
    "\<exists>i. vw_lines (spool_view (rw_spool w')) = vw_lines (spool_view (rw_spool w)) @ [(i, e)]"
  using assms
  by (auto simp: in_spool_def enqueue_def exec_simps modify_def ret_def next_fault_def on_disk_def change_view_def change_writer_def
      spool_view_def Let_def split: option.splits list.splits io_fault.splits prod.splits sum.splits)

definition line_ids :: "(nat \<times> spool_entry) list \<Rightarrow> uuid list" where
  "line_ids ls = concat (map (\<lambda>(i, e). ids_of (se_document e)) ls)"

lemma line_ids_append [simp]: "line_ids (xs @ ys) = line_ids xs @ line_ids ys" "line_ids [] = []"
  "line_ids [(i, e)] = ids_of (se_document e)"
  by (simp_all add: line_ids_def)

lemma ids_of_to_document [simp]: "ids_of (to_document b) = wb_events b"
  by (simp add: ids_of_def to_document_def map_filter_map_filter comp_def List.map_filter_def)

text \<open>What queueing from one state to another adds.\<close>

definition queues :: "queueing \<Rightarrow> relay_world \<Rightarrow> queueing \<Rightarrow> relay_world \<Rightarrow> bool" where
  "queues q w q' w' \<longleftrightarrow> (\<exists>new. vw_lines (spool_view (rw_spool w')) = vw_lines (spool_view (rw_spool w)) @ new
     \<and> qu_already q' = qu_already q @ line_ids new \<and> distinct (line_ids new) \<and> set (line_ids new) \<inter> set (qu_already q) = {}
     \<and> qu_enqueued q' = qu_enqueued q + length (line_ids new))"

lemma queues_refl: "queues q w q w"
  by (auto simp: queues_def intro: exI [of _ "[]"])

lemma queues_trans: "queues q w q1 w1 \<Longrightarrow> queues q1 w1 q2 w2 \<Longrightarrow> queues q w q2 w2"
proof -
  assume "queues q w q1 w1" "queues q1 w1 q2 w2"
  then obtain n m where "vw_lines (spool_view (rw_spool w1)) = vw_lines (spool_view (rw_spool w)) @ n"
      "qu_already q1 = qu_already q @ line_ids n" "distinct (line_ids n)" "set (line_ids n) \<inter> set (qu_already q) = {}"
      "qu_enqueued q1 = qu_enqueued q + length (line_ids n)"
      "vw_lines (spool_view (rw_spool w2)) = vw_lines (spool_view (rw_spool w1)) @ m"
      "qu_already q2 = qu_already q1 @ line_ids m" "distinct (line_ids m)" "set (line_ids m) \<inter> set (qu_already q1) = {}"
      "qu_enqueued q2 = qu_enqueued q1 + length (line_ids m)" by (auto simp: queues_def)
  then show ?thesis unfolding queues_def by (intro exI [of _ "n @ m"]) auto
qed

lemma read_now_spool: "read_now w = (r, w') \<Longrightarrow> rw_spool w' = rw_spool w"
  by (auto simp: read_now_def split: list.splits)

lemma queue_one_queues:
  assumes "queue_one selection (origin, b) q w = (Inr q', w')" "sp_writer (rw_spool w) \<noteq> None" "distinct (wb_events b)"
  shows "queues q w q' w' \<and> sp_writer (rw_spool w') \<noteq> None \<and> set (wb_events b) \<subseteq> set (qu_already q')"
proof -
  define events where "events = filter (\<lambda>i. i \<notin> set (qu_already q)) (wb_events b)"
  show ?thesis
  proof (cases "events = []")
    case True
    then have "set (wb_events b) \<subseteq> set (qu_already q)" by (auto simp: events_def filter_empty_conv)
    moreover from True assms(1) have "q' = q" "w' = w"
      by (simp_all add: queue_one_def Let_def events_def ret_def)
    ultimately show ?thesis using assms(2) queues_refl by simp
  next
    case False
    with assms(1) obtain e now w1 i where now: "read_now w = (Inr now, w1)" and e: "in_spool (enqueue e) w1 = (Inr i, w')"
      and d: "ids_of (se_document e) = events" and q': "qu_already q' = qu_already q @ events" "qu_enqueued q' = qu_enqueued q + length events"
      unfolding queue_one_def Let_def prod.case events_def [symmetric]
      by (auto simp: and_then_Inr_iff ret_def)
    note s = read_now_spool [OF now]
    from e assms(2) s have "sp_writer (rw_spool w') \<noteq> None"
      "\<exists>i. vw_lines (spool_view (rw_spool w')) = vw_lines (spool_view (rw_spool w)) @ [(i, e)]"
      using enqueue_lines [OF e] by simp_all
    moreover have "distinct events" "set events \<inter> set (qu_already q) = {}" "set (wb_events b) \<subseteq> set (qu_already q @ events)"
      using assms(3) by (auto simp: events_def)
    ultimately show ?thesis using d q' by (auto simp: queues_def)
  qed
qed

lemma queue_all_queues:
  assumes "queue_all selection bs q w = (Inr q', w')" "sp_writer (rw_spool w) \<noteq> None" "\<forall>(origin, b) \<in> set bs. distinct (wb_events b)"
  shows "queues q w q' w' \<and> (\<forall>(origin, b) \<in> set bs. set (wb_events b) \<subseteq> set (qu_already q')) \<and> set (qu_already q) \<subseteq> set (qu_already q')"
  using assms
proof (induction bs arbitrary: q w)
  case Nil
  then show ?case by (simp add: ret_def queues_refl)
next
  case (Cons ob bs)
  obtain origin b where ob: "ob = (origin, b)" by (rule prod.exhaust)
  with Cons.prems(1) obtain q1 w1 where one: "queue_one selection (origin, b) q w = (Inr q1, w1)"
    "queue_all selection bs q1 w1 = (Inr q', w')" by (auto simp: and_then_Inr_iff)
  have "distinct (wb_events b)" using Cons.prems(3) ob by simp
  note first = queue_one_queues [OF one(1) Cons.prems(2) this]
  with Cons.IH [OF one(2)] Cons.prems(3)
  have rest: "queues q1 w1 q' w'" "\<forall>(origin, b) \<in> set bs. set (wb_events b) \<subseteq> set (qu_already q')" "set (qu_already q1) \<subseteq> set (qu_already q')"
    by simp_all
  have "set (qu_already q) \<subseteq> set (qu_already q1)" using first by (auto simp: queues_def)
  with first rest queues_trans ob show ?case by auto
qed

subsection \<open>The recheck of consent\<close>

definition silent :: "'a relay_op \<Rightarrow> bool" where
  "silent m \<longleftrightarrow> (\<forall>w r w'. m w = (r, w') \<longrightarrow> rw_posts w' = rw_posts w \<and> rw_consents w' = rw_consents w)"

lemma silentD: "silent m \<Longrightarrow> m w = (r, w') \<Longrightarrow> rw_posts w' = rw_posts w \<and> rw_consents w' = rw_consents w"
  by (auto simp: silent_def)

named_theorems silent_steps \<open>steps that post nothing and read no consent\<close>

lemma silent_and_then [silent_steps]: "silent m \<Longrightarrow> (\<And>a. silent (k a)) \<Longrightarrow> silent (and_then m k)"
  unfolding silent_def [of "and_then m k"] by (intro allI impI, erule and_thenE) (metis silentD)+

lemma silent_basic [silent_steps]:
  "silent (ret a)" "silent (fail e)" "silent read_now" "silent (on_report g)" "silent get_files" "silent (in_spool m)" "silent (lift x)"
  "silent (replace_private f)" "silent (record_delivered ids)"
  by (auto simp: silent_def ret_def fail_def read_now_def on_report_def get_files_def in_spool_def lift_def replace_private_def
      record_delivered_def next_write_def on_files_def Let_def
      split: list.splits option.splits prod.splits sum.splits write_fault.splits if_splits)

lemma silent_if [silent_steps]: "silent m \<Longrightarrow> silent n \<Longrightarrow> silent (if b then m else n)"
  by simp

lemma silent_due: "silent (due_for_delivery states i)"
  unfolding due_for_delivery_def by (auto intro!: silent_steps split: option.split)

lemma silent_pin: "silent (pin_session_agent session agent)"
  unfolding pin_session_agent_def by (auto intro!: silent_steps split: option.split)

lemma silent_accept: "silent (accept_batch receiver i session ids refused withheld created)"
  unfolding accept_batch_def record_success_def record_refused_delivered_def Let_def by (auto intro!: silent_steps split: option.split)

lemma silent_refuse: "silent (refuse_batch receiver i err)"
  unfolding refuse_batch_def state_record_failure_def Let_def by (auto intro!: silent_steps)

lemma send_batch_posts:
  assumes "send_batch receiver withhold agents i entry w = (r, w')"
  shows "rw_posts w' = rw_posts w \<or> (\<exists>p. rw_posts w' = rw_posts w @ [p] \<and> po_ids p = ids_of (se_document entry) \<and> po_index p = i)"
proof (cases "doc_session (se_document entry) = None \<or> map_of agents (the (doc_session (se_document entry))) = None")
  case True
  with assms show ?thesis by (auto simp: send_batch_def fail_def split: option.splits)
next
  case False
  then obtain session agent where s: "doc_session (se_document entry) = Some session" "map_of agents session = Some agent" by auto
  define k where "k = (\<lambda>result. case result of Inl e \<Rightarrow> refuse_batch receiver i e
    | Inr created \<Rightarrow> accept_batch receiver i session (ids_of (se_document entry)) (doc_refused (se_document entry))
        (withhold (se_document entry)) created)"
  have k: "silent (k result)" for result unfolding k_def by (cases result) (simp_all add: silent_accept silent_refuse)
  have "and_then (pin_session_agent session agent) (\<lambda>_. and_then (post_batch i session agent (ids_of (se_document entry))) k) w = (r, w')"
    using assms s by (simp add: send_batch_def Let_def k_def)
  then show ?thesis
  proof (cases rule: and_thenE)
    case (err e)
    with silentD [OF silent_pin] show ?thesis by blast
  next
    case (ok a w1)
    have w1: "rw_posts w1 = rw_posts w" using silentD [OF silent_pin ok(1)] by blast
    from ok(2) show ?thesis
    proof (cases rule: and_thenE)
      case (err e)
      then show ?thesis using w1 by (auto simp: post_batch_def Let_def split: list.splits)
    next
      case (ok result w2)
      from ok(1) have "\<exists>p. rw_posts w2 = rw_posts w @ [p] \<and> po_ids p = ids_of (se_document entry) \<and> po_index p = i"
        using w1 by (auto simp: post_batch_def Let_def split: list.splits)
      with silentD [OF k ok(2)] show ?thesis by simp
    qed
  qed
qed

text \<open>What a recheck lets through.\<close>

definition cleared_by :: "consent_reading \<Rightarrow> spool_entry \<Rightarrow> uuid list \<Rightarrow> bool" where
  "cleared_by cn entry ids \<longleftrightarrow> cn_locked cn \<and> ids \<noteq> [] \<and> set ids \<subseteq> set (ids_of (se_document entry)) \<and> cn_registry cn = Inr True
     \<and> (\<exists>permitted refused. cn_source cn = Readable_log permitted refused \<and> set ids \<subseteq> set permitted)"

lemma set_ids_of: "y \<in> set (ids_of d) \<longleftrightarrow> (\<exists>es. doc_events d = Some es \<and> Some y \<in> set es)"
  by (auto simp: ids_of_def List.map_filter_def image_iff split: option.split) (metis option.sel)+

lemma recheck_clears:
  assumes "recheck_directory_batch cn entry = Inr (Rechecked, entry')" "ids_of (se_document entry') \<noteq> []" "cn_locked cn"
  shows "cleared_by cn entry (ids_of (se_document entry'))"
proof -
  from assms(1) have reg: "cn_registry cn = Inr True"
    by (auto simp: recheck_directory_batch_def split: sum.splits bool.splits)
  show ?thesis
  proof (cases "cn_source cn")
    case (Readable_log permitted refused)
    with assms(1) reg have e: "doc_events (se_document entry') = map_option
        (filter (\<lambda>e. case e of Some i \<Rightarrow> i \<in> set permitted | None \<Rightarrow> False)) (doc_events (se_document entry))"
      by (auto simp: recheck_directory_batch_def)
    have "y \<in> set (ids_of (se_document entry)) \<and> y \<in> set permitted" if "y \<in> set (ids_of (se_document entry'))" for y
      using that by (auto simp: set_ids_of e)
    with Readable_log reg assms show ?thesis by (auto simp: cleared_by_def)
  qed (use assms reg in \<open>auto simp: recheck_directory_batch_def ids_of_def List.map_filter_def\<close>)
qed

lemma permitted_batch_clears:
  assumes "permitted_batch i entry w = (r, w')" "rw_consents w = cn # cns" "se_directory_selection entry \<or> cn_selection cn = Inr True"
  shows "rw_posts w' = rw_posts w \<and> (\<forall>entry'. r = Inr (Some entry') \<longrightarrow> cleared_by cn entry (ids_of (se_document entry')))"
proof (cases "cn_locked cn \<and> (\<exists>b. cn_selection cn = Inr b)")
  case False
  with assms show ?thesis
    by (auto simp: permitted_batch_def and_then_def read_consent_def fail_def split: if_splits sum.splits)
next
  case True
  then obtain b where b: "cn_locked cn" "cn_selection cn = Inr b" by blast
  let ?w = "w\<lparr>rw_consents := cns\<rparr>"
  have run: "(case recheck_directory_batch cn entry of
                Inl e \<Rightarrow> fail (Consent_failed e)
              | Inr (Origin_unreadable session, _) \<Rightarrow>
                  and_then (in_spool (hold i unreadable_origin_hold)) (\<lambda>_.
                  and_then (on_report (\<lambda>r. r\<lparr>rr_unreadable := note_unreadable session (rr_unreadable r)\<rparr>)) (\<lambda>_. ret None))
              | Inr (Rechecked, entry') \<Rightarrow>
                  if ids_of (se_document entry') = []
                  then and_then (in_spool (hold i consent_hold)) (\<lambda>_. ret None)
                  else ret (Some entry')) ?w = (r, w')"
    using assms b by (auto simp: permitted_batch_def and_then_def read_consent_def)
  have none: "silent (and_then m (\<lambda>_. and_then n (\<lambda>_. ret None)))" if "silent m" "silent n" for m n :: "unit relay_op"
    using that by (intro silent_steps)
  show ?thesis
  proof (cases "recheck_directory_batch cn entry")
    case (Inl e)
    with run show ?thesis by (auto simp: fail_def)
  next
    case (Inr re)
    obtain k entry' where re: "re = (k, entry')" by (rule prod.exhaust)
    show ?thesis
    proof (cases "k = Rechecked \<and> ids_of (se_document entry') \<noteq> []")
      case True
      with run Inr re have r: "r = Inr (Some entry')" "w' = ?w" by (simp_all add: ret_def)
      with recheck_clears [of cn entry entry'] Inr re True b show ?thesis by simp
    next
      case False
      show ?thesis
      proof (cases k)
        case Rechecked
        with False run Inr re have "and_then (in_spool (hold i consent_hold)) (\<lambda>_. ret None) ?w = (r, w')" by simp
        moreover have "silent (and_then (in_spool (hold i consent_hold)) (\<lambda>_. ret (None :: spool_entry option)))" by (intro silent_steps)
        ultimately show ?thesis
          by (auto dest: silentD) (auto simp: and_then_def ret_def split: prod.splits sum.splits)
      next
        case (Origin_unreadable session)
        with run Inr re have m: "and_then (in_spool (hold i unreadable_origin_hold)) (\<lambda>_.
            and_then (on_report (\<lambda>r. r\<lparr>rr_unreadable := note_unreadable session (rr_unreadable r)\<rparr>)) (\<lambda>_. ret None)) ?w = (r, w')" by simp
        have "r \<noteq> Inr (Some x)" for x
          using m by (auto simp: and_then_def ret_def split: prod.splits sum.splits)
        with silentD [OF none [OF silent_basic(6) silent_basic(4)] m] show ?thesis by auto
      qed
    qed
  qed
qed

lemma deliver_one_posts:
  assumes "deliver_one receiver withhold agents states (i, entry) w = (r, w')" "rw_consents w = cn # cns"
    "se_directory_selection entry \<or> cn_selection cn = Inr True"
  shows "rw_posts w' = rw_posts w \<or> (\<exists>p. rw_posts w' = rw_posts w @ [p] \<and> po_index p = i \<and> cleared_by cn entry (po_ids p))"
proof -
  from assms(1) have "and_then (due_for_delivery states i) (\<lambda>due.
          if \<not> due then ret ()
          else and_then (permitted_batch i entry) (\<lambda>permitted.
            case permitted of None \<Rightarrow> ret ()
            | Some entry' \<Rightarrow>
                and_then read_now (\<lambda>now. and_then (in_spool (claim i now)) (\<lambda>claimed.
                  if \<not> claimed then ret () else send_batch receiver withhold agents i entry')))) w = (r, w')"
    by (simp add: deliver_one_def)
  then show ?thesis
  proof (cases rule: and_thenE)
    case (err e)
    with silentD [OF silent_due] show ?thesis by blast
  next
    case (ok due w1)
    have w1: "rw_posts w1 = rw_posts w" "rw_consents w1 = cn # cns" using silentD [OF silent_due ok(1)] assms(2) by simp_all
    show ?thesis
    proof (cases due)
      case False
      with ok(2) w1 show ?thesis by (simp add: ret_def)
    next
      case True
      with ok(2) have "and_then (permitted_batch i entry) (\<lambda>permitted.
            case permitted of None \<Rightarrow> ret ()
            | Some entry' \<Rightarrow>
                and_then read_now (\<lambda>now. and_then (in_spool (claim i now)) (\<lambda>claimed.
                  if \<not> claimed then ret () else send_batch receiver withhold agents i entry'))) w1 = (r, w')" by simp
      then show ?thesis
      proof (cases rule: and_thenE)
        case (err e)
        with permitted_batch_clears [OF err(1) w1(2) assms(3)] w1 show ?thesis by simp
      next
        case (ok permitted w2)
        note clear = permitted_batch_clears [OF ok(1) w1(2) assms(3)]
        show ?thesis
        proof (cases permitted)
          case None
          with ok(2) clear w1 show ?thesis by (simp add: ret_def)
        next
          case (Some entry')
          with clear have c: "cleared_by cn entry (ids_of (se_document entry'))" "rw_posts w2 = rw_posts w" using w1 by simp_all
          from ok(2) Some have "and_then read_now (\<lambda>now. and_then (in_spool (claim i now)) (\<lambda>claimed.
                  if \<not> claimed then ret () else send_batch receiver withhold agents i entry')) w2 = (r, w')" by simp
          then obtain w3 where w3: "rw_posts w3 = rw_posts w2" "w' = w3 \<or> send_batch receiver withhold agents i entry' w3 = (r, w')"
            by (auto elim!: and_thenE dest!: silentD [OF silent_basic(3)] silentD [OF silent_basic(6)] simp: ret_def split: if_splits)
          then show ?thesis using send_batch_posts [of receiver withhold agents i entry' w3 r w'] c by auto
        qed
      qed
    qed
  qed
qed

end
