(* ===== verification/Relay_Life.thy ===== *)
theory Relay_Life
  imports Relay_Runs
begin

section \<open>Properties of the relay\<close>

text \<open>
  What histories of relay runs (\<open>crates/commonmeasure-relay/src/lib.rs\<close>) keep, and what one run does:
  the bound on posts, the meaning of a recorded delivery, the pinned agents, the queueing, the recheck of
  consent and the delivered ids.
\<close>

definition sample_answer :: "nat \<Rightarrow> string + http_response" where
  "sample_answer status = Inr \<lparr>hr_status = status, hr_detail = None, hr_summary = ''summary'', hr_created = Some 1\<rparr>"

definition sample_run :: "(string + http_response) list \<Rightarrow> int list \<Rightarrow> relay_process" where
  "sample_run answers clock = \<lparr>rp_spool_faults = [None, None, None], rp_write_faults = [], rp_times = clock,
     rp_consents = [\<lparr>cn_locked = True, cn_selection = Inr False, cn_registry = Inr True, cn_source = Not_a_session\<rparr>],
     rp_answers = answers, rp_receiver = ''https://telemetry.example'', rp_withhold = (\<lambda>_. 0), rp_selection = False,
     rp_batches = [(''s.ndjson'', \<lparr>wb_session = Uuid 7, wb_agent = ''agent'', wb_events = [Uuid 1], wb_refused = None\<rparr>)],
     rp_carriers = [], rp_close = 0, rp_pins_error = ''''\<rparr>"

text \<open>A post refused, a post retried after the wait of the claim and accepted.\<close>

definition sample_history :: "relay_process list" where
  "sample_history = [sample_run [sample_answer 500] [7200000000000], sample_run [sample_answer 200] [10000000000000]]"

lemma sample_history_dies: "list_all only_dies sample_history"
  by code_simp

lemma sample_history_posts:
  "map (\<lambda>p. (po_index p, po_session p, po_agent p, po_accepted p)) (rh_posts (run_relays sample_history empty_home)) =
     [(0, Uuid 7, ''agent'', False), (0, Uuid 7, ''agent'', True)]"
  by code_simp

lemma sample_history_state:
  "(case load_disk True (rh_disk (run_relays sample_history empty_home)) of Inl _ \<Rightarrow> None
     | Inr l \<Rightarrow> map_option ds_status (map_of (full_states (ld_view l)) 0)) = Some Delivered"
  by code_simp

text \<open>
  C9. Over any history of relay runs on one home, each of which may be killed at any durable step or before
  any post, and each of whose spool writes fails only by ending the process, every batch is posted at most
  ten times: the attempt is counted durably before the post it counts.
\<close>

theorem at_most_ten_posts:
  assumes "list_all only_dies ps"
  shows "posts_of i (rh_posts (run_relays ps empty_home)) \<le> max_attempts"
proof -
  from history_ok [OF assms] obtain x where "relay_ok (rh_posts (run_relays ps empty_home)) x"
    by (auto simp: home_ok_def disk_has_def)
  then show ?thesis by (simp add: relay_ok_def)
qed

theorem at_most_ten_posts_witness:
  "posts_of 0 (rh_posts (run_relays sample_history empty_home)) \<le> max_attempts \<and> sample_history \<noteq> []"
  using at_most_ten_posts [OF sample_history_dies] by (simp add: sample_history_def)

text \<open>
  C10. Over any such history a batch the spool records as delivered was accepted: some post of it was answered
  with a 2xx status. No fault, kill, close, compaction or reopening makes a delivery of anything else.
\<close>

theorem delivered_batches_were_accepted:
  assumes "list_all only_dies ps" "load_disk True (rh_disk (run_relays ps empty_home)) = Inr l"
    "map_of (full_states (ld_view l)) i = Some st" "ds_status st = Delivered"
  shows "\<exists>p \<in> set (rh_posts (run_relays ps empty_home)). po_index p = i \<and> po_accepted p"
  using home_states [OF history_ok [OF assms(1)] assms(2,3)] assms(4) by (simp add: state_ok_def accepted_post_def)

theorem delivered_batches_were_accepted_witness:
  "\<exists>p \<in> set (rh_posts (run_relays sample_history empty_home)). po_index p = 0 \<and> po_accepted p"
proof -
  obtain l st where "load_disk True (rh_disk (run_relays sample_history empty_home)) = Inr l"
    "map_of (full_states (ld_view l)) 0 = Some st" "ds_status st = Delivered"
    using sample_history_state by (auto split: sum.splits)
  from delivered_batches_were_accepted [OF sample_history_dies this] show ?thesis .
qed

text \<open>
  C11. Over any such history all posts of one wire session carry one agent id, whatever agent later
  projections of the session name: the first delivery pins it durably before the post.
\<close>

theorem one_agent_per_session:
  assumes "list_all only_dies ps" "p \<in> set (rh_posts (run_relays ps empty_home))" "q \<in> set (rh_posts (run_relays ps empty_home))"
    "po_session p = po_session q"
  shows "po_agent p = po_agent q"
proof -
  have "pinned (rh_posts (run_relays ps empty_home)) (rh_files (run_relays ps empty_home))"
    using history_ok [OF assms(1)] by (simp add: home_ok_def)
  with assms(2-4) show ?thesis by (auto simp: pinned_def) (metis option.inject)
qed

definition other_agent :: "relay_process" where
  "other_agent = (sample_run [sample_answer 200] [10000000000000])\<lparr>rp_batches :=
     [(''s.ndjson'', \<lparr>wb_session = Uuid 7, wb_agent = ''renamed'', wb_events = [Uuid 2], wb_refused = None\<rparr>)]\<rparr>"

theorem one_agent_per_session_witness:
  "\<exists>p \<in> set (rh_posts (run_relays [sample_run [sample_answer 200] [7200000000000], other_agent] empty_home)).
     \<exists>q \<in> set (rh_posts (run_relays [sample_run [sample_answer 200] [7200000000000], other_agent] empty_home)).
       po_index p \<noteq> po_index q \<and> po_agent p = po_agent q"
proof -
  let ?ps = "[sample_run [sample_answer 200] [7200000000000], other_agent]"
  have "map (\<lambda>p. (po_index p, po_session p)) (rh_posts (run_relays ?ps empty_home)) = [(0, Uuid 7), (1, Uuid 7)]" by code_simp
  then obtain p q where pq: "rh_posts (run_relays ?ps empty_home) = [p, q]" "po_session p = po_session q" "po_index p \<noteq> po_index q"
    by (auto simp: map_eq_Cons_conv)
  have "list_all only_dies ?ps" by code_simp
  from one_agent_per_session [OF this, of p q] pq show ?thesis by auto
qed

text \<open>
  Queueing a run's batches queues every event of them that neither left before nor waits in the spool, each
  once: the lines added carry pairwise different ids, none of them known before, the count of events enqueued is
  theirs, and every event of the batches is known afterwards.
\<close>

theorem nothing_is_queued_twice:
  assumes "queue_all selection bs q w = (Inr q', w')" "sp_writer (rw_spool w) \<noteq> None" "\<forall>(origin, b) \<in> set bs. distinct (wb_events b)"
  shows "\<exists>new. vw_lines (spool_view (rw_spool w')) = vw_lines (spool_view (rw_spool w)) @ new
     \<and> distinct (line_ids new) \<and> set (line_ids new) \<inter> set (qu_already q) = {}
     \<and> qu_already q' = qu_already q @ line_ids new \<and> qu_enqueued q' = qu_enqueued q + length (line_ids new)
     \<and> (\<forall>(origin, b) \<in> set bs. set (wb_events b) \<subseteq> set (qu_already q @ line_ids new))"
  using queue_all_queues [OF assms] by (auto simp: queues_def)

definition sample_world :: relay_world where
  "sample_world = run_world (sample_run [] [5]) empty_home \<lparr>sp_disk = empty_disk, sp_writer = Some \<lparr>wr_view = \<lparr>vw_lines = [],
     vw_explicit = [], vw_generation = None, vw_next_index = 0, vw_pruned = Some 0, vw_journal_records = 0\<rparr>, wr_failed = False\<rparr>,
     sp_locked = True, sp_faults = []\<rparr>"

definition sample_batches :: "(string \<times> wire_batch) list" where
  "sample_batches = [(''s'', \<lparr>wb_session = Uuid 7, wb_agent = ''a'', wb_events = [Uuid 1, Uuid 2], wb_refused = None\<rparr>),
     (''s'', \<lparr>wb_session = Uuid 7, wb_agent = ''a'', wb_events = [Uuid 2, Uuid 3], wb_refused = None\<rparr>)]"

definition sample_queueing :: queueing where
  "sample_queueing = \<lparr>qu_already = [Uuid 1], qu_agents = [], qu_enqueued = 0\<rparr>"

theorem nothing_is_queued_twice_witness:
  "\<exists>new. distinct (line_ids new) \<and> set [Uuid 2, Uuid 3] \<subseteq> set (line_ids new) \<and> Uuid 1 \<notin> set (line_ids new)"
proof -
  have "(case fst (queue_all False sample_batches sample_queueing sample_world) of Inl _ \<Rightarrow> False | Inr _ \<Rightarrow> True)" by code_simp
  then obtain q' w' where run: "queue_all False sample_batches sample_queueing sample_world = (Inr q', w')"
    by (cases "queue_all False sample_batches sample_queueing sample_world") (auto split: sum.splits)
  from nothing_is_queued_twice [OF this] show ?thesis
    by (auto simp: sample_batches_def sample_queueing_def sample_world_def run_world_def)
qed

text \<open>
  C12. A queued batch of directory reporting leaves only as consent stands at its delivery: while a directory
  selection is active, or for a batch queued under one, one step of the delivery loop posts nothing, or one batch
  whose events were in the queued document, are permitted by the session log as it reads now, and are not none;
  and it reads that under the lock of the selection.
\<close>

theorem posts_only_what_consent_permits:
  assumes "deliver_one receiver withhold agents states (i, entry) w = (r, w')" "rw_consents w = cn # cns"
    "se_directory_selection entry \<or> cn_selection cn = Inr True"
  shows "rw_posts w' = rw_posts w \<or> (\<exists>p. rw_posts w' = rw_posts w @ [p] \<and> po_index p = i \<and> cleared_by cn entry (po_ids p))"
  using deliver_one_posts [OF assms] .

definition sample_entry_of :: "uuid list \<Rightarrow> spool_entry" where
  "sample_entry_of ids = \<lparr>se_origin = ''s'', se_queued_at = None, se_document = \<lparr>doc_events = Some (map Some ids),
     doc_session = Some (Uuid 7), doc_agent = Some ''a'', doc_refused = None\<rparr>, se_directory_selection = True\<rparr>"

definition sample_consent :: consent_reading where
  "sample_consent = \<lparr>cn_locked = True, cn_selection = Inr True, cn_registry = Inr True, cn_source = Readable_log [Uuid 2, Uuid 9] None\<rparr>"

definition sample_queue_world :: relay_world where
  "sample_queue_world = (snd (in_spool (enqueue (sample_entry_of [Uuid 1, Uuid 2])) sample_world))\<lparr>rw_consents := [sample_consent],
     rw_answers := [sample_answer 200]\<rparr>"

theorem posts_only_what_consent_permits_witness:
  "\<exists>p. rw_posts (snd (deliver_one ''r'' (\<lambda>_. 0) [(Uuid 7, ''a'')] [] (0, sample_entry_of [Uuid 1, Uuid 2]) sample_queue_world)) = [p]
     \<and> set (po_ids p) \<subseteq> {Uuid 2}"
proof -
  let ?run = "deliver_one ''r'' (\<lambda>_. 0) [(Uuid 7, ''a'')] [] (0, sample_entry_of [Uuid 1, Uuid 2]) sample_queue_world"
  obtain r w' where run: "?run = (r, w')" by (rule prod.exhaust)
  have n: "length (rw_posts (snd ?run)) = 1" by code_simp
  have w: "rw_posts sample_queue_world = []" "rw_consents sample_queue_world = [sample_consent]" by code_simp+
  have "se_directory_selection (sample_entry_of [Uuid 1, Uuid 2]) \<or> cn_selection sample_consent = Inr True"
    by (simp add: sample_consent_def)
  from posts_only_what_consent_permits [OF run w(2) this] n run w(1)
  obtain p where "rw_posts w' = [p]" "cleared_by sample_consent (sample_entry_of [Uuid 1, Uuid 2]) (po_ids p)" by auto
  moreover from this have "set (po_ids p) \<subseteq> {Uuid 2}"
    by (auto simp: cleared_by_def sample_consent_def set_ids_of sample_entry_of_def)
  ultimately show ?thesis using run by simp
qed

text \<open>
  An API key is sent only where it was given for: a request gets the key of the invocation when its target is
  the receiver of the run or of that receiver's origin, the configured key when its target is of the configured
  receiver's origin, and no key otherwise.
\<close>

theorem key_goes_to_its_receiver_only:
  "key_for origin target delivering_to api_key configured = Some key \<Longrightarrow>
     (api_key = Some key \<and> (target = delivering_to \<or> origin target \<noteq> None \<and> origin delivering_to = origin target)) \<or>
     (\<exists>receiver. configured = Some (receiver, Some key) \<and> origin target \<noteq> None \<and> origin receiver = origin target)"
  by (auto simp: key_for_def Let_def split: option.splits if_splits)

theorem key_goes_to_its_receiver_only_witness:
  "key_for (\<lambda>u. if u = ''https://hub/a'' then Some (1 :: nat) else if u = ''https://hub/b'' then Some 1 else None)
     ''https://hub/a'' ''https://elsewhere'' (Some ''run key'') (Some (''https://hub/b'', Some ''hub key'')) = Some ''hub key''
   \<and> (Some (1 :: nat) \<noteq> None)"
  using key_goes_to_its_receiver_only
    [of "\<lambda>u. if u = ''https://hub/a'' then Some (1 :: nat) else if u = ''https://hub/b'' then Some 1 else None"
      "''https://hub/a''" "''https://elsewhere''" "Some ''run key''" "Some (''https://hub/b'', Some ''hub key'')" "''hub key''"]
  by (simp add: key_for_def Let_def)

subsection \<open>The delivered ids\<close>

lemma append_id_whole:
  "ix_tail f = No_idx_tail \<Longrightarrow> delivered_ids (append_id f i) = delivered_ids f @ [i]" "ix_tail (append_id f i) = No_idx_tail"
  by (simp_all add: append_id_def delivered_ids_def List.map_filter_def)

lemma append_ids_whole:
  assumes "ix_tail f = No_idx_tail"
  shows "delivered_ids (foldl append_id f ids) = delivered_ids f @ ids" "ix_tail (foldl append_id f ids) = No_idx_tail"
proof -
  have "delivered_ids (foldl append_id f ids) = delivered_ids f @ ids \<and> ix_tail (foldl append_id f ids) = No_idx_tail"
    using assms
    by (induction ids arbitrary: f) (simp_all add: append_id_whole)
  then show "delivered_ids (foldl append_id f ids) = delivered_ids f @ ids" "ix_tail (foldl append_id f ids) = No_idx_tail" by blast+
qed

text \<open>
  The ids of an accepted batch are read back: recorded on a file that ends at a line's end, they are the
  delivered ids that were read before and those of the batch, in order.
\<close>

theorem recorded_ids_are_read_back:
  assumes "ix_tail (rf_delivered (rw_files w)) = No_idx_tail" "record_delivered ids w = (Inr (), w')"
  shows "delivered_ids (rf_delivered (rw_files w')) = delivered_ids (rf_delivered (rw_files w)) @ ids
     \<and> ix_tail (rf_delivered (rw_files w')) = No_idx_tail"
  using assms append_ids_whole [OF assms(1), of ids]
  by (auto simp: record_delivered_def next_write_def on_files_def append_ids_def tear_id_def Let_def
      split: list.splits option.splits write_fault.splits)

theorem recorded_ids_are_read_back_witness:
  "delivered_ids (rf_delivered (rw_files (snd (record_delivered [Uuid 4, Uuid 5] sample_world)))) = [Uuid 4, Uuid 5]"
proof -
  have w: "ix_tail (rf_delivered (rw_files sample_world)) = No_idx_tail" "delivered_ids (rf_delivered (rw_files sample_world)) = []"
    "fst (record_delivered [Uuid 4, Uuid 5] sample_world) = Inr ()" by code_simp+
  then have "record_delivered [Uuid 4, Uuid 5] sample_world = (Inr (), snd (record_delivered [Uuid 4, Uuid 5] sample_world))"
    by (simp add: prod_eq_iff)
  from recorded_ids_are_read_back [OF w(1) this] w(2) show ?thesis by simp
qed



end
