(* ===== verification/Targets.thy ===== *)
theory Targets
  imports CM_Prelude
begin

section \<open>Targets and patterns in one spelling\<close>

text \<open>
  \<open>crates/commonmeasure-types/src/job.rs\<close>: the form in which a request target is compared with a publisher's
  pattern, and the readings of a page's path that different servers may route by. A target is its bytes. Dot
  segments are resolved by \<open>url::Url::set_path\<close>, which is the parameter \<open>resolve\<close>.
\<close>

subsection \<open>The matching form\<close>

definition is_unreserved :: "char \<Rightarrow> bool" where
  "is_unreserved c \<longleftrightarrow> is_ascii_alphanumeric c \<or> c \<in> set ''-._~''"

definition is_reserved :: "char \<Rightarrow> bool" where
  "is_reserved c \<longleftrightarrow> c \<in> set '':/?#[]@!$&'' \<or> byte_of c = 39 \<or> c \<in> set ''()*+,;=''"

definition hex_upper :: "nat \<Rightarrow> char" where
  "hex_upper d = char_of (if d < 10 then 48 + d else 55 + d)"

definition hex_value :: "char \<Rightarrow> nat" where
  "hex_value c = (if is_ascii_digit c then byte_of c - 48
     else if is_ascii_upper c then byte_of c - 55 else byte_of c - 87)"

text \<open>\<open>push_encoded\<close>: what it appends.\<close>

definition encoded :: "char \<Rightarrow> string" where
  "encoded c = [CHR ''%'', hex_upper (byte_of c div 16), hex_upper (byte_of c mod 16)]"

text \<open>A percent-encoded octet at the front, and what follows it.\<close>

fun escape :: "string \<Rightarrow> (char \<times> string) option" where
  "escape (p # h # l # rest) =
     (if p = CHR ''%'' \<and> is_ascii_hexdigit h \<and> is_ascii_hexdigit l
      then Some (char_of (16 * hex_value h + hex_value l), rest) else None)"
| "escape _ = None"

lemma escape_Some: "escape s = Some (c, rest) \<longleftrightarrow>
    (\<exists>h l. s = CHR ''%'' # h # l # rest \<and> is_ascii_hexdigit h \<and> is_ascii_hexdigit l \<and> c = char_of (16 * hex_value h + hex_value l))"
  by (cases s rule: escape.cases) auto

lemma escape_shorter: "escape s = Some (c, rest) \<Longrightarrow> length rest < length s"
  by (auto simp: escape_Some)

function matching_target :: "string \<Rightarrow> string" where
  "matching_target [] = []"
| "matching_target (c # s) =
     (case escape (c # s) of
        Some (octet, rest) \<Rightarrow> (if is_unreserved octet then [octet] else encoded octet) @ matching_target rest
      | None \<Rightarrow>
          (if c \<in> set ''*$%'' then encoded c
           else if is_unreserved c \<or> is_reserved c then [c] else encoded c) @ matching_target s)"
  by pat_completeness auto
termination
  by (relation "measure length") (auto dest: escape_shorter)

declare matching_target.simps(2) [simp del]

definition matching_pattern :: "string \<Rightarrow> string" where
  "matching_pattern pattern =
     (let (literal, anchored) = (case strip_suffix ''$'' pattern of Some stripped \<Rightarrow> (stripped, True) | None \<Rightarrow> (pattern, False))
      in join_with ''*'' (map matching_target (split_on (CHR ''*'') literal)) @ (if anchored then ''$'' else []))"

subsection \<open>The form is a normal form\<close>

text \<open>What the form is made of: unreserved octets, reserved ones but a star or a dollar, and encodings in
  upper case of octets that are not unreserved.\<close>

definition plain_octet :: "char \<Rightarrow> bool" where
  "plain_octet c \<longleftrightarrow> (is_unreserved c \<or> is_reserved c) \<and> c \<notin> set ''*$%''"

inductive in_form :: "string \<Rightarrow> bool" where
  in_form_Nil: "in_form []"
| in_form_plain: "plain_octet c \<Longrightarrow> in_form s \<Longrightarrow> in_form (c # s)"
| in_form_encoded: "\<not> is_unreserved c \<Longrightarrow> in_form s \<Longrightarrow> in_form (encoded c @ s)"

lemma percent_not_unreserved: "\<not> is_unreserved (CHR ''%'')" "\<not> is_unreserved (CHR ''*'')" "\<not> is_unreserved (CHR ''$'')"
  by (simp_all add: is_unreserved_def is_ascii_alphanumeric_def is_ascii_digit_def is_ascii_upper_def is_ascii_lower_def byte_of_def)

lemma unreserved_plain: "is_unreserved c \<Longrightarrow> plain_octet c"
  using percent_not_unreserved by (auto simp: plain_octet_def)

lemma hex_value_upper: "d < 16 \<Longrightarrow> hex_value (hex_upper d) = d" "d < 16 \<Longrightarrow> is_ascii_hexdigit (hex_upper d)"
  by (auto simp: hex_value_def hex_upper_def is_ascii_hexdigit_def is_ascii_digit_def is_ascii_upper_def byte_of_char_of)

lemma escape_encoded [simp]: "escape (encoded c @ s) = Some (c, s)"
proof -
  have "byte_of c div 16 < 16" using byte_of_lt [of c] by linarith
  then show ?thesis by (simp add: encoded_def hex_value_upper)
qed

lemma encoded_Cons: "encoded c @ s = CHR ''%'' # hex_upper (byte_of c div 16) # hex_upper (byte_of c mod 16) # s"
  by (simp add: encoded_def)

lemma matching_target_encoded: "\<not> is_unreserved c \<Longrightarrow> matching_target (encoded c @ s) = encoded c @ matching_target s"
proof -
  assume c: "\<not> is_unreserved c"
  have "escape (CHR ''%'' # hex_upper (byte_of c div 16) # hex_upper (byte_of c mod 16) # s) = Some (c, s)"
    using escape_encoded [of c s] by (simp only: encoded_Cons)
  with c show ?thesis by (simp add: encoded_Cons matching_target.simps(2))
qed

lemma matching_target_plain: "plain_octet c \<Longrightarrow> matching_target (c # s) = c # matching_target s"
proof -
  assume c: "plain_octet c"
  then have "escape (c # s) = None" by (cases "c # s" rule: escape.cases) (auto simp: plain_octet_def)
  with c show ?thesis by (auto simp: plain_octet_def matching_target.simps(2))
qed

lemma matching_target_in_form: "in_form (matching_target s)"
proof (induction s rule: matching_target.induct)
  case (2 c s)
  show ?case
  proof (cases "escape (c # s)")
    case None
    have "in_form (matching_target s)" using 2(1) [OF None] .
    moreover have "plain_octet c \<or> \<not> is_unreserved c" by (auto dest: unreserved_plain)
    ultimately show ?thesis
      using None unreserved_plain percent_not_unreserved
      by (auto simp: plain_octet_def matching_target.simps(2) intro: in_form.intros)
  next
    case (Some or)
    obtain octet rest where r: "or = (octet, rest)" by (rule prod.exhaust)
    have "in_form (matching_target rest)" using 2(2) Some r by blast
    then show ?thesis
      using Some r unreserved_plain by (auto simp: matching_target.simps(2) intro: in_form_plain in_form_encoded)
  qed
qed (simp add: in_form_Nil)

lemma in_form_fixed: "in_form s \<Longrightarrow> matching_target s = s"
  by (induction rule: in_form.induct) (simp_all add: matching_target_plain matching_target_encoded)

lemma in_form_append: "in_form s \<Longrightarrow> in_form t \<Longrightarrow> in_form (s @ t)"
  by (induction rule: in_form.induct) (auto intro: in_form.intros)

lemma hex_upper_octet: "d < 16 \<Longrightarrow> is_ascii_alphanumeric (hex_upper d)"
  by (auto simp: hex_upper_def is_ascii_alphanumeric_def is_ascii_digit_def is_ascii_upper_def byte_of_char_of)

lemma alphanumeric_not: "is_ascii_alphanumeric c \<Longrightarrow> c \<notin> set ''*$% ''"
  by (auto simp: is_ascii_alphanumeric_def is_ascii_digit_def is_ascii_upper_def is_ascii_lower_def byte_of_def)

lemma plain_not_space: "plain_octet c \<Longrightarrow> c \<notin> set ''*$% ''"
  by (auto simp: plain_octet_def is_unreserved_def is_reserved_def byte_of_def dest: alphanumeric_not)

lemma in_form_chars: "in_form s \<Longrightarrow> c \<in> set ''*$ '' \<Longrightarrow> c \<notin> set s"
proof (induction rule: in_form.induct)
  case (in_form_plain d s)
  then show ?case using plain_not_space [of d] by auto
next
  case (in_form_encoded d s)
  have "byte_of d div 16 < 16" "byte_of d mod 16 < 16" using byte_of_lt [of d] by linarith+
  from this [THEN hex_upper_octet] have "x = CHR ''%'' \<or> is_ascii_alphanumeric x" if "x \<in> set (encoded d)" for x
    using that by (auto simp: encoded_def)
  moreover have "c \<noteq> CHR ''%''" "\<not> is_ascii_alphanumeric c" using in_form_encoded.prems alphanumeric_not [of c] by auto
  ultimately have "c \<notin> set (encoded d)" by blast
  with in_form_encoded.IH [OF in_form_encoded.prems] show ?case by simp
qed simp

text \<open>
  A target has one spelling: bringing it to the matching form again changes nothing, no star, dollar or space
  is left in it, and a percent sign stands only before two upper-case digits of an octet that needs encoding.
\<close>

theorem matching_form_is_normal:
  "matching_target (matching_target s) = matching_target s \<and> in_form (matching_target s)
     \<and> CHR ''*'' \<notin> set (matching_target s) \<and> CHR ''$'' \<notin> set (matching_target s) \<and> CHR '' '' \<notin> set (matching_target s)"
  using matching_target_in_form [of s] in_form_fixed in_form_chars by simp

subsection \<open>The readings of a page\<close>

abbreviation max_page_readings :: nat where "max_page_readings \<equiv> 64"

fun merged_from :: "bool \<Rightarrow> string \<Rightarrow> string" where
  "merged_from after_slash [] = []"
| "merged_from after_slash (c # s) =
     (if c = CHR ''/'' \<and> after_slash then merged_from True s else c # merged_from (c = CHR ''/'') s)"

definition merged_slashes :: "string \<Rightarrow> string" where
  "merged_slashes path = merged_from False path"

text \<open>What an escape of a separator is read as: \<open>%2F\<close> and \<open>%5C\<close> are a slash, \<open>%3B\<close> a semicolon.\<close>

fun separator_escape :: "string \<Rightarrow> (char \<times> string) option" where
  "separator_escape (p # h # l # rest) =
     (let e = to_lowercase [p, h, l]
      in if e = ''%2f'' \<or> e = ''%5c'' then Some (CHR ''/'', rest)
         else if e = ''%3b'' then Some (CHR '';'', rest) else None)"
| "separator_escape _ = None"

lemma separator_escape_shorter: "separator_escape s = Some (c, rest) \<Longrightarrow> length rest < length s"
  by (cases s rule: separator_escape.cases) (auto simp: Let_def split: if_splits)

function decoded_separators :: "string \<Rightarrow> string" where
  "decoded_separators [] = []"
| "decoded_separators (c # s) =
     (case separator_escape (c # s) of
        Some (delimiter, rest) \<Rightarrow> delimiter # decoded_separators rest
      | None \<Rightarrow> c # decoded_separators s)"
  by pat_completeness auto
termination
  by (relation "measure length") (auto dest: separator_escape_shorter)

definition stripped_parameters :: "string \<Rightarrow> string" where
  "stripped_parameters path = join_with ''/'' (map (\<lambda>segment. hd (split_on (CHR '';'') segment)) (split_on (CHR ''/'') path))"

definition reading_operations :: "(string \<Rightarrow> string) \<Rightarrow> (string \<Rightarrow> string) list" where
  "reading_operations resolve = [decoded_separators, merged_slashes, resolve, stripped_parameters]"

text \<open>The paths one operation away from a path, added to those found; more than the cap is an error.\<close>

datatype too_many_readings = Too_many nat

fun reached_from :: "nat \<Rightarrow> string \<Rightarrow> (string \<Rightarrow> string) list \<Rightarrow> string list \<Rightarrow> too_many_readings + string list" where
  "reached_from cap current [] paths = Inr paths"
| "reached_from cap current (operation # ops) paths =
     (if operation current \<in> set paths then reached_from cap current ops paths
      else if length paths = cap then Inl (Too_many cap)
      else reached_from cap current ops (paths @ [operation current]))"

text \<open>The loop over the paths found: it ends when the last of them has been looked at, if it does.\<close>

partial_function (option) closure_from ::
  "nat \<Rightarrow> (string \<Rightarrow> string) list \<Rightarrow> nat \<Rightarrow> string list \<Rightarrow> (too_many_readings + string list) option" where
  "closure_from cap ops next' paths =
     (if next' < length paths then
        (case reached_from cap (paths ! next') ops paths of
           Inl e \<Rightarrow> Some (Inl e)
         | Inr paths' \<Rightarrow> closure_from cap ops (Suc next') paths')
      else Some (Inr paths))"

definition path_of :: "string \<Rightarrow> string" where
  "path_of target = takeWhile (\<lambda>c. c \<noteq> CHR ''?'') target"

definition query_of :: "string \<Rightarrow> string" where
  "query_of target = dropWhile (\<lambda>c. c \<noteq> CHR ''?'') target"

definition readings_of :: "string \<Rightarrow> string list \<Rightarrow> string list" where
  "readings_of query paths = foldl (\<lambda>rs path. let r = matching_target (path @ query) in if r \<in> set rs then rs else rs @ [r]) [] paths"

definition readings_within :: "(string \<Rightarrow> string) \<Rightarrow> string \<Rightarrow> nat \<Rightarrow> (too_many_readings + string list) option" where
  "readings_within resolve target cap =
     map_option (res_map (readings_of (query_of target))) (closure_from cap (reading_operations resolve) 0 [path_of target])"

definition matching_target_readings :: "(string \<Rightarrow> string) \<Rightarrow> string \<Rightarrow> (too_many_readings + string list) option" where
  "matching_target_readings resolve target = readings_within resolve target max_page_readings"

subsection \<open>The readings are the closure\<close>

definition one_operation :: "(string \<Rightarrow> string) list \<Rightarrow> (string \<times> string) set" where
  "one_operation ops = {(p, f p) | p f. f \<in> set ops}"

definition reachable_paths :: "(string \<Rightarrow> string) list \<Rightarrow> string \<Rightarrow> string set" where
  "reachable_paths ops path = (one_operation ops)\<^sup>* `` {path}"

lemma reachable_step: "p \<in> reachable_paths ops path \<Longrightarrow> f \<in> set ops \<Longrightarrow> f p \<in> reachable_paths ops path"
  unfolding reachable_paths_def one_operation_def by (auto intro: rtrancl_into_rtrancl)

lemma reachable_least:
  assumes "path \<in> S" "\<And>p f. p \<in> S \<Longrightarrow> f \<in> set ops \<Longrightarrow> f p \<in> S"
  shows "reachable_paths ops path \<subseteq> S"
proof
  fix p assume "p \<in> reachable_paths ops path"
  then have "(path, p) \<in> (one_operation ops)\<^sup>*" by (simp add: reachable_paths_def)
  then show "p \<in> S" by (induction) (use assms in \<open>auto simp: one_operation_def\<close>)
qed

definition more_than :: "nat \<Rightarrow> 'a set \<Rightarrow> bool" where
  "more_than n S \<longleftrightarrow> (\<exists>T \<subseteq> S. finite T \<and> card T = Suc n)"

lemma reached_from_ok:
  assumes "distinct paths" "length paths \<le> cap" "set paths \<subseteq> reachable_paths all path" "current \<in> reachable_paths all path" "set ops \<subseteq> set all"
  shows "case reached_from cap current ops paths of
      Inl e \<Rightarrow> e = Too_many cap \<and> more_than cap (reachable_paths all path)
    | Inr ps \<Rightarrow> distinct ps \<and> length ps \<le> cap \<and> set ps \<subseteq> reachable_paths all path \<and> (\<exists>new. ps = paths @ new) \<and> (\<forall>f \<in> set ops. f current \<in> set ps)"
  using assms
proof (induction ops arbitrary: paths)
  case (Cons f ops)
  have f: "f current \<in> reachable_paths all path" using reachable_step Cons.prems by auto
  show ?case
  proof (cases "f current \<in> set paths")
    case True
    with Cons.IH [of paths] Cons.prems show ?thesis by (auto split: sum.splits)
  next
    case False
    show ?thesis
    proof (cases "length paths = cap")
      case True
      have "insert (f current) (set paths) \<subseteq> reachable_paths all path" using f Cons.prems by simp
      moreover have "card (insert (f current) (set paths)) = Suc cap"
        using False True Cons.prems by (simp add: distinct_card)
      ultimately have "more_than cap (reachable_paths all path)" unfolding more_than_def by blast
      with False True show ?thesis by simp
    next
      case not_full: False
      with Cons.prems False f have "case reached_from cap current ops (paths @ [f current]) of
          Inl e \<Rightarrow> e = Too_many cap \<and> more_than cap (reachable_paths all path)
        | Inr ps \<Rightarrow> distinct ps \<and> length ps \<le> cap \<and> set ps \<subseteq> reachable_paths all path \<and> (\<exists>new. ps = (paths @ [f current]) @ new)
            \<and> (\<forall>f \<in> set ops. f current \<in> set ps)"
        by (intro Cons.IH) auto
      with False not_full show ?thesis by (auto split: sum.splits)
    qed
  qed
qed auto

definition looked_at :: "(string \<Rightarrow> string) list \<Rightarrow> nat \<Rightarrow> string list \<Rightarrow> bool" where
  "looked_at ops n paths \<longleftrightarrow> (\<forall>i < n. \<forall>f \<in> set ops. f (paths ! i) \<in> set paths)"

lemma closure_from_ends:
  assumes "distinct paths" "length paths \<le> cap" "set paths \<subseteq> reachable_paths ops path" "path \<in> set paths" "n \<le> length paths" "looked_at ops n paths"
  shows "\<exists>r. closure_from cap ops n paths = Some r \<and> (case r of
      Inl e \<Rightarrow> e = Too_many cap \<and> more_than cap (reachable_paths ops path)
    | Inr ps \<Rightarrow> distinct ps \<and> length ps \<le> cap \<and> set ps = reachable_paths ops path \<and> (\<exists>new. ps = paths @ new))"
  using assms
proof (induction "cap - n" arbitrary: n paths rule: less_induct)
  case less
  show ?case
  proof (cases "n < length paths")
    case True
    have cur: "paths ! n \<in> reachable_paths ops path" using True less.prems(3) by auto
    note ok = reached_from_ok [OF less.prems(1,2,3) cur order_refl]
    show ?thesis
    proof (cases "reached_from cap (paths ! n) ops paths")
      case (Inl e)
      with ok True show ?thesis by (subst closure_from.simps) auto
    next
      case (Inr ps)
      with ok obtain new where ps: "distinct ps" "length ps \<le> cap" "set ps \<subseteq> reachable_paths ops path" "ps = paths @ new"
        "\<forall>f \<in> set ops. f (paths ! n) \<in> set ps" by auto
      have nth: "ps ! i = paths ! i" if "i < length paths" for i using that ps(4) by (simp add: nth_append)
      have "looked_at ops (Suc n) ps"
        unfolding looked_at_def
      proof (intro allI impI ballI)
        fix i f assume i: "i < Suc n" and f: "f \<in> set ops"
        show "f (ps ! i) \<in> set ps"
        proof (cases "i = n")
          case True
          with ps(5) f nth \<open>n < length paths\<close> show ?thesis by simp
        next
          case False
          with i have "i < n" by simp
          with less.prems(5,6) f have "f (paths ! i) \<in> set paths" by (simp add: looked_at_def)
          moreover have "ps ! i = paths ! i" using nth \<open>i < n\<close> True by simp
          ultimately show ?thesis using ps(4) by simp
        qed
      qed
      moreover have "path \<in> set ps" "Suc n \<le> length ps" using less.prems(4) ps(4) True by auto
      moreover have "cap - Suc n < cap - n" using True less.prems(2) by simp
      ultimately obtain r where r: "closure_from cap ops (Suc n) ps = Some r" "case r of
          Inl e \<Rightarrow> e = Too_many cap \<and> more_than cap (reachable_paths ops path)
        | Inr ps' \<Rightarrow> distinct ps' \<and> length ps' \<le> cap \<and> set ps' = reachable_paths ops path \<and> (\<exists>new. ps' = ps @ new)"
        using less.hyps [of "Suc n" ps] ps(1-3) by blast
      then show ?thesis using True Inr ps(4) by (subst closure_from.simps) (auto split: sum.splits)
    qed
  next
    case False
    with less.prems(5) have "n = length paths" by simp
    have "f p \<in> set paths" if "p \<in> set paths" "f \<in> set ops" for p f
    proof -
      from that(1) obtain i where "i < length paths" "p = paths ! i" by (auto simp: in_set_conv_nth)
      with less.prems(6) that(2) \<open>n = length paths\<close> show ?thesis by (auto simp: looked_at_def)
    qed
    then have "reachable_paths ops path \<subseteq> set paths" by (intro reachable_least less.prems(4))
    with False less.prems show ?thesis by (subst closure_from.simps) auto
  qed
qed

lemma readings_of_set: "set (readings_of query paths) = (\<lambda>p. matching_target (p @ query)) ` set paths \<and> distinct (readings_of query paths)"
proof -
  have "set (foldl (\<lambda>rs path. let r = matching_target (path @ query) in if r \<in> set rs then rs else rs @ [r]) rs paths)
      = set rs \<union> (\<lambda>p. matching_target (p @ query)) ` set paths \<and>
      (distinct rs \<longrightarrow> distinct (foldl (\<lambda>rs path. let r = matching_target (path @ query) in if r \<in> set rs then rs else rs @ [r]) rs paths))" for rs
    by (induction paths arbitrary: rs) (auto simp: Let_def)
  from this [of "[]"] show ?thesis by (simp add: readings_of_def)
qed

lemma readings_of_first: "readings_of query (p # ps) \<noteq> [] \<and> hd (readings_of query (p # ps)) = matching_target (p @ query)"
proof -
  have "rs \<noteq> [] \<Longrightarrow> foldl (\<lambda>rs path. let r = matching_target (path @ query) in if r \<in> set rs then rs else rs @ [r]) rs ps \<noteq> []
      \<and> hd (foldl (\<lambda>rs path. let r = matching_target (path @ query) in if r \<in> set rs then rs else rs @ [r]) rs ps) = hd rs" for rs
    by (induction ps arbitrary: rs) (auto simp: Let_def)
  from this [of "[matching_target (p @ query)]"] show ?thesis by (simp add: readings_of_def)
qed

lemma matching_target_readings_closure:
  "\<exists>r. matching_target_readings resolve target = Some r \<and>
     (case r of
        Inl e \<Rightarrow> e = Too_many max_page_readings \<and> more_than max_page_readings (reachable_paths (reading_operations resolve) (path_of target))
      | Inr readings \<Rightarrow> readings \<noteq> [] \<and> hd readings = matching_target target \<and> distinct readings
          \<and> set readings = (\<lambda>p. matching_target (p @ query_of target)) ` reachable_paths (reading_operations resolve) (path_of target)
          \<and> \<not> more_than max_page_readings (reachable_paths (reading_operations resolve) (path_of target)))"
proof -
  let ?ops = "reading_operations resolve" and ?p = "path_of target"
  have "?p \<in> reachable_paths ?ops ?p" by (simp add: reachable_paths_def)
  then obtain r where r: "closure_from max_page_readings ?ops 0 [?p] = Some r" "case r of
      Inl e \<Rightarrow> e = Too_many max_page_readings \<and> more_than max_page_readings (reachable_paths ?ops ?p)
    | Inr ps \<Rightarrow> distinct ps \<and> length ps \<le> max_page_readings \<and> set ps = reachable_paths ?ops ?p \<and> (\<exists>new. ps = [?p] @ new)"
    using closure_from_ends [of "[?p]" max_page_readings ?ops ?p 0] by (auto simp: looked_at_def)
  show ?thesis
  proof (cases r)
    case (Inl e)
    with r show ?thesis by (auto simp: matching_target_readings_def readings_within_def)
  next
    case (Inr ps)
    with r obtain new where ps: "distinct ps" "length ps \<le> max_page_readings" "set ps = reachable_paths ?ops ?p" "ps = ?p # new" by auto
    have "hd (readings_of (query_of target) ps) = matching_target target" "readings_of (query_of target) ps \<noteq> []"
      using readings_of_first [of "query_of target" ?p new] ps(4) by (simp_all add: path_of_def query_of_def)
    note first = this
    have "\<not> more_than max_page_readings (reachable_paths ?ops ?p)"
    proof
      assume "more_than max_page_readings (reachable_paths ?ops ?p)"
      then obtain T where "T \<subseteq> set ps" "card T = Suc max_page_readings" by (auto simp: more_than_def ps(3))
      with card_mono [of "set ps" T] ps(2) card_length [of ps] show False by simp
    qed
    with Inr r ps(1-3) first readings_of_set [of "query_of target" ps] show ?thesis
      by (auto simp: matching_target_readings_def readings_within_def)
  qed
qed

text \<open>
  C28. The readings of a page are decided in full, whatever the dot-segment resolver does: the search ends; it gives
  up exactly when more than sixty-four paths can be reached by decoding, merging, resolving and stripping in any
  order; and otherwise the readings are exactly those paths, each with the page's query in the matching form, once,
  the page as parsed first.
\<close>

theorem readings_are_the_closure:
  "\<exists>r. matching_target_readings resolve target = Some r \<and>
     (case r of
        Inl e \<Rightarrow> e = Too_many max_page_readings \<and> more_than max_page_readings (reachable_paths (reading_operations resolve) (path_of target))
      | Inr readings \<Rightarrow> readings \<noteq> [] \<and> hd readings = matching_target target \<and> distinct readings
          \<and> set readings = (\<lambda>p. matching_target (p @ query_of target)) ` reachable_paths (reading_operations resolve) (path_of target)
          \<and> \<not> more_than max_page_readings (reachable_paths (reading_operations resolve) (path_of target)))"
  by (rule matching_target_readings_closure)

end
