(* ===== verification/Robots.thy ===== *)
theory Robots
  imports Targets Complex_Main "HOL-Library.Sublist" "HOL-Library.Char_ord" "HOL-Library.List_Lexorder"
begin

section \<open>What robots.txt says of a page\<close>

text \<open>
  \<open>crates/commonmeasure-harness/src/declarations.rs\<close> up to its RSL part: usage preferences and how statements
  combine, the \<open>Content-Usage\<close> and \<open>Content-Signal\<close> values, the \<open>robots.txt\<close> file and what its selected groups
  say of a path, with \<open>quoted_path\<close> of \<open>source_text.rs\<close>. Text is its UTF-8 bytes; white space is what \<open>str::trim\<close>
  takes away. Pattern matching is compared with a reference matcher.
\<close>

subsection \<open>Text\<close>

text \<open>\<open>char::is_whitespace\<close>: the encodings of the Unicode white space.\<close>

definition white_spaces :: "string list" where
  "white_spaces = map (map char_of) (map (\<lambda>b. [b]) [9, 10, 11, 12, 13, 32 :: nat]
     @ [[0xC2, 0x85], [0xC2, 0xA0], [0xE1, 0x9A, 0x80]] @ map (\<lambda>b. [0xE2, 0x80, b]) ([0x80..<0x8B] @ [0xA8, 0xA9, 0xAF])
     @ [[0xE2, 0x81, 0x9F], [0xE3, 0x80, 0x80]])"

text \<open>A prefix that is one of the words, taken off.\<close>

fun strip_one :: "string list \<Rightarrow> string \<Rightarrow> string option" where
  "strip_one [] s = None"
| "strip_one (w # ws) s = (case strip_prefix w s of Some r \<Rightarrow> Some r | None \<Rightarrow> strip_one ws s)"

lemma strip_one_shorter: "strip_one ws s = Some r \<Longrightarrow> [] \<notin> set ws \<Longrightarrow> length r < length s"
  by (induction ws) (auto simp: strip_prefix_Some_iff split: option.splits)

function strip_all :: "string list \<Rightarrow> string \<Rightarrow> string" where
  "strip_all ws s = (if [] \<in> set ws then s else case strip_one ws s of Some r \<Rightarrow> strip_all ws r | None \<Rightarrow> s)"
  by pat_completeness auto
termination
  by (relation "measure (\<lambda>(ws, s). length s)") (auto dest: strip_one_shorter)

declare strip_all.simps [simp del]

definition trim_text :: "string \<Rightarrow> string" where
  "trim_text s = rev (strip_all (map rev white_spaces) (rev (strip_all white_spaces s)))"

text \<open>\<open>str::lines\<close>.\<close>

definition strip_cr :: "string \<Rightarrow> string" where
  "strip_cr line = (case strip_suffix [char_of (13 :: nat)] line of Some l \<Rightarrow> l | None \<Rightarrow> line)"

definition text_lines :: "string \<Rightarrow> string list" where
  "text_lines text = (let ls = split_on (char_of (10 :: nat)) text
     in map strip_cr (butlast ls) @ (if last ls = [] then [] else [last ls]))"

subsection \<open>Preferences\<close>

datatype category = Train_ai | Ai_input | Ai_index | Search_index

definition all_categories :: "category list" where
  "all_categories = [Train_ai, Ai_input, Ai_index, Search_index]"

fun category_label :: "category \<Rightarrow> string" where
  "category_label Train_ai = ''train-ai''"
| "category_label Ai_input = ''ai-input''"
| "category_label Ai_index = ''ai-index''"
| "category_label Search_index = ''search''"

definition from_aipref_label :: "string \<Rightarrow> category option" where
  "from_aipref_label label = (if label = ''train-ai'' then Some Train_ai else if label = ''search'' then Some Search_index
     else if label = ''ai-use'' then Some Ai_input else None)"

definition from_content_signal :: "string \<Rightarrow> category option" where
  "from_content_signal label = (if label = ''ai-train'' then Some Train_ai else if label = ''ai-input'' then Some Ai_input
     else if label = ''search'' then Some Search_index else None)"

datatype preference = Prefer_allow | Prefer_disallow

datatype statement_source =
    Content_usage_header
  | Robots_content_usage
  | Robots_content_signal
  | Rsl_licence
  | Pasted_rsl
  | Pasted_content_usage
  | Pasted_c2pa

record statement =
  st_source :: statement_source
  st_category :: category
  st_preference :: preference
  st_detail :: string

datatype effective = Effective_allow | Effective_disallow | Effective_unknown

text \<open>The loop over one category's statements stops at the first that disallows.\<close>

fun combine_from :: "effective \<Rightarrow> preference list \<Rightarrow> effective" where
  "combine_from answer [] = answer"
| "combine_from answer (Prefer_disallow # ps) = Effective_disallow"
| "combine_from answer (Prefer_allow # ps) = combine_from Effective_allow ps"

definition combine :: "statement list \<Rightarrow> (category \<times> effective) list" where
  "combine statements = map (\<lambda>c. (c, combine_from Effective_unknown
     (map st_preference (filter (\<lambda>s. st_category s = c) statements)))) all_categories"

subsection \<open>The structured-field dictionary\<close>

definition is_tchar :: "char \<Rightarrow> bool" where
  "is_tchar c \<longleftrightarrow> is_ascii_alphanumeric c \<or> c \<in> set ''!#$%&*+-.^_|~'' \<or> byte_of c = 39 \<or> byte_of c = 96"

definition key_start :: "char \<Rightarrow> bool" where
  "key_start c \<longleftrightarrow> is_ascii_lower c \<or> c = CHR ''*''"

definition key_rest :: "char \<Rightarrow> bool" where
  "key_rest c \<longleftrightarrow> is_ascii_lower c \<or> is_ascii_digit c \<or> c \<in> set ''_-.*''"

fun take_key :: "string \<Rightarrow> (string \<times> string) option" where
  "take_key [] = None"
| "take_key (c # s) = (if key_start c then Some (c # takeWhile key_rest s, dropWhile key_rest s) else None)"

fun after_quoted :: "bool \<Rightarrow> string \<Rightarrow> string option" where
  "after_quoted escaped [] = None"
| "after_quoted escaped (c # s) =
     (if escaped then after_quoted False s
      else if byte_of c = 92 then after_quoted True s
      else if byte_of c = 34 then Some s
      else after_quoted False s)"

definition token_char :: "char \<Rightarrow> bool" where
  "token_char c \<longleftrightarrow> is_tchar c \<or> c = CHR '':'' \<or> c = CHR ''/''"

text \<open>The value and what follows it; only a token is kept.\<close>

fun take_value :: "string \<Rightarrow> (string option \<times> string) option" where
  "take_value [] = None"
| "take_value (c # s) =
     (if is_ascii_upper c \<or> is_ascii_lower c \<or> c = CHR ''*''
      then Some (Some (takeWhile token_char (c # s)), dropWhile token_char (c # s))
      else if byte_of c = 34 then map_option (\<lambda>r. (None, r)) (after_quoted False s)
      else if c = CHR ''?'' then
        (case s of d # r \<Rightarrow> if d = CHR ''0'' \<or> d = CHR ''1'' then Some (None, r) else None | [] \<Rightarrow> None)
      else if c = CHR '':'' then map_option (\<lambda>(a, r). (None, r)) (split_once (CHR '':'') s)
      else if c = CHR ''-'' \<or> is_ascii_digit c
      then Some (None, dropWhile (\<lambda>d. is_ascii_digit d \<or> d = CHR ''.'') s)
      else None)"

lemma take_key_shorter: "take_key s = Some (k, r) \<Longrightarrow> length r < length s"
  by (cases s) (auto split: if_splits simp: le_imp_less_Suc length_dropWhile_le)

lemma after_quoted_shorter: "after_quoted e s = Some r \<Longrightarrow> length r < length s"
  by (induction e s rule: after_quoted.induct) (auto split: if_splits)

lemma take_value_shorter: "take_value s = Some (v, r) \<Longrightarrow> length r < length s"
proof (cases s)
  case (Cons c t)
  assume v: "take_value s = Some (v, r)"
  show ?thesis
  proof (cases "is_ascii_upper c \<or> is_ascii_lower c \<or> c = CHR ''*''")
    case True
    then have "token_char c" by (auto simp: token_char_def is_tchar_def is_ascii_alphanumeric_def)
    with True v Cons show ?thesis by (auto simp: le_imp_less_Suc length_dropWhile_le)
  next
    case False
    with v Cons show ?thesis
      by (auto simp: le_imp_less_Suc length_dropWhile_le dest: after_quoted_shorter dest!: split_once_Some
          split: if_splits list.splits)
  qed
qed simp

text \<open>Parameters are skipped, value and all.\<close>

function skip_parameters :: "string \<Rightarrow> string option" where
  "skip_parameters rest =
     (case strip_prefix '';'' rest of
        None \<Rightarrow> Some rest
      | Some after_semicolon \<Rightarrow>
          (case take_key (dropWhile (\<lambda>c. c = CHR '' '') after_semicolon) of
             None \<Rightarrow> None
           | Some (_, after_key) \<Rightarrow>
               (case strip_prefix ''='' after_key of
                  None \<Rightarrow> skip_parameters after_key
                | Some after_eq \<Rightarrow>
                    (case take_value after_eq of
                       None \<Rightarrow> None
                     | Some (_, after_value) \<Rightarrow> skip_parameters after_value))))"
  by pat_completeness auto
termination
proof (relation "measure length", goal_cases)
  case (2 rest a kr k r)
  then show ?case
    using length_dropWhile_le [of "\<lambda>c. c = CHR '' ''" a] by (auto simp: strip_prefix_Some_iff dest!: take_key_shorter)
next
  case (3 rest a kr k r e vr v r')
  then show ?case
    using length_dropWhile_le [of "\<lambda>c. c = CHR '' ''" a] by (auto simp: strip_prefix_Some_iff dest!: take_key_shorter take_value_shorter)
qed simp

declare skip_parameters.simps [simp del]

lemma skip_parameters_le: "skip_parameters rest = Some r \<Longrightarrow> length r \<le> length rest"
proof (induction rest rule: skip_parameters.induct)
  case (1 rest)
  show ?case
  proof (cases "strip_prefix '';'' rest")
    case None
    with 1(3) show ?thesis by (subst (asm) skip_parameters.simps) simp
  next
    case (Some a)
    with 1(3) obtain k r1 where k: "take_key (dropWhile (\<lambda>c. c = CHR '' '') a) = Some (k, r1)"
      by (subst (asm) skip_parameters.simps) (auto split: option.splits)
    have r1: "length r1 < length rest"
      using take_key_shorter [OF k] length_dropWhile_le [of "\<lambda>c. c = CHR '' ''" a] Some by (auto simp: strip_prefix_Some_iff)
    show ?thesis
    proof (cases "strip_prefix ''='' r1")
      case None
      then have "skip_parameters r1 = Some r" using 1(3) Some k by (subst (asm) skip_parameters.simps) simp
      with 1(1) [OF Some k refl None] r1 show ?thesis by simp
    next
      case eq: (Some e)
      then obtain v r2 where v: "take_value e = Some (v, r2)" "skip_parameters r2 = Some r"
        using 1(3) Some k by (subst (asm) skip_parameters.simps) (auto split: option.splits)
      with 1(2) [OF Some k refl eq v(1) refl] take_value_shorter [OF v(1)] eq r1 show ?thesis
        by (auto simp: strip_prefix_Some_iff)
    qed
  qed
qed

definition sp_or_tab :: "char \<Rightarrow> bool" where
  "sp_or_tab c \<longleftrightarrow> byte_of c = 32 \<or> byte_of c = 9"

text \<open>One member and what follows it.\<close>

definition take_member :: "string \<Rightarrow> ((string \<times> string option) \<times> string) option" where
  "take_member rest =
     (case take_key rest of
        None \<Rightarrow> None
      | Some (key, after_key) \<Rightarrow>
          (case (case strip_prefix ''='' after_key of
                   None \<Rightarrow> Some (None, after_key)
                 | Some after_eq \<Rightarrow> take_value after_eq) of
             None \<Rightarrow> None
           | Some (token, rest) \<Rightarrow> map_option (\<lambda>r. ((key, token), r)) (skip_parameters rest)))"

lemma take_member_shorter:
  assumes "take_member rest = Some (m, r)"
  shows "length r < length rest"
proof -
  from assms obtain key k token t where k: "take_key rest = Some (key, k)"
    and t: "(case strip_prefix ''='' k of None \<Rightarrow> Some (None, k) | Some e \<Rightarrow> take_value e) = Some (token, t)"
    and r: "skip_parameters t = Some r"
    by (auto simp: take_member_def split: option.splits)
  have "length t \<le> length k" using t take_value_shorter by (auto simp: strip_prefix_Some_iff split: option.splits dest!: take_value_shorter)
  with take_key_shorter [OF k] skip_parameters_le [OF r] show ?thesis by simp
qed

function take_members :: "string \<Rightarrow> (string \<times> string option) list option" where
  "take_members rest =
     (case take_member rest of
        None \<Rightarrow> None
      | Some (member, after) \<Rightarrow>
          (let trimmed = dropWhile sp_or_tab after
           in if trimmed = [] then Some [member]
              else case strip_prefix '','' trimmed of
                None \<Rightarrow> None
              | Some next' \<Rightarrow>
                  (let rest = dropWhile sp_or_tab next'
                   in if rest = [] then None else map_option (Cons member) (take_members rest))))"
  by pat_completeness auto
termination
proof (relation "measure length", goal_cases)
  case (2 rest mr m after trimmed next' rest')
  then show ?case
    using length_dropWhile_le [of sp_or_tab after] length_dropWhile_le [of sp_or_tab next']
    by (auto simp: strip_prefix_Some_iff dest!: take_member_shorter)
qed simp

declare take_members.simps [simp del]

definition parse_dictionary :: "string \<Rightarrow> (string \<times> string option) list option" where
  "parse_dictionary value =
     (let rest = rev (dropWhile sp_or_tab (rev (dropWhile sp_or_tab value)))
      in if rest = [] then Some [] else take_members rest)"

text \<open>The last value of a key applies; members are read in the order of their keys.\<close>

definition parse_content_usage :: "string \<Rightarrow> (category \<times> preference \<times> string) list" where
  "parse_content_usage value =
     (case parse_dictionary value of
        None \<Rightarrow> []
      | Some members \<Rightarrow> List.map_filter (\<lambda>(key, token).
          case from_aipref_label key of
            None \<Rightarrow> None
          | Some category \<Rightarrow>
              (if token = Some ''y'' then Some (category, Prefer_allow, key @ ''=y'')
               else if token = Some ''n'' then Some (category, Prefer_disallow, key @ ''=n'')
               else None)) (bt_extend [] members))"

subsection \<open>Content signals\<close>

definition content_signal_member :: "string \<Rightarrow> (category \<times> preference \<times> string) option" where
  "content_signal_member member =
     (case split_once (CHR ''='') (trim_text member) of
        None \<Rightarrow> None
      | Some (key, answer) \<Rightarrow>
          (case from_content_signal (trim_text key) of
             None \<Rightarrow> None
           | Some category \<Rightarrow>
               (let word = to_lowercase (trim_text answer); detail = trim_text key @ ''='' @ trim_text answer
                in if word = ''yes'' then Some (category, Prefer_allow, detail)
                   else if word = ''no'' then Some (category, Prefer_disallow, detail)
                   else None)))"

definition parse_content_signal :: "string \<Rightarrow> (category \<times> preference \<times> string) list" where
  "parse_content_signal value = List.map_filter content_signal_member (split_on (CHR '','') value)"

subsection \<open>The file\<close>

record access_rule =
  ar_allow :: bool
  ar_pattern :: string

record robots_group =
  gr_agents :: "string list"
  gr_rules :: "access_rule list"
  gr_content_usage :: "(string option \<times> string) list"
  gr_content_signal :: "string list"
  gr_licences :: "string list"
  gr_crawl_delay :: "string list"

record robots_file =
  rb_groups :: "robots_group list"
  rb_global_licences :: "string list"
  rb_global_content_signal :: "string list"

definition empty_group :: robots_group where
  "empty_group = \<lparr>gr_agents = [], gr_rules = [], gr_content_usage = [], gr_content_signal = [], gr_licences = [], gr_crawl_delay = []\<rparr>"

record robots_parse =
  pr_file :: robots_file
  pr_current :: "robots_group option"
  pr_agents_open :: bool
  pr_in_block :: bool

definition robots_start :: robots_parse where
  "robots_start = \<lparr>pr_file = \<lparr>rb_groups = [], rb_global_licences = [], rb_global_content_signal = []\<rparr>, pr_current = None,
     pr_agents_open = False, pr_in_block = False\<rparr>"

text \<open>\<open>current.take()\<close> into the groups.\<close>

definition close_group :: "robots_parse \<Rightarrow> robots_parse" where
  "close_group p = (case pr_current p of
      None \<Rightarrow> p
    | Some g \<Rightarrow> p\<lparr>pr_file := (pr_file p)\<lparr>rb_groups := rb_groups (pr_file p) @ [g]\<rparr>, pr_current := None\<rparr>)"

text \<open>A rule line of the group: it resumes the group's block, and has no group to go to before the first.\<close>

definition group_rule :: "(robots_group \<Rightarrow> robots_group) \<Rightarrow> robots_parse \<Rightarrow> robots_parse" where
  "group_rule f p = (case pr_current p of
      None \<Rightarrow> p\<lparr>pr_agents_open := False\<rparr>
    | Some g \<Rightarrow> p\<lparr>pr_agents_open := False, pr_in_block := True, pr_current := Some (f g)\<rparr>)"

text \<open>A line that is the group's inside its block and the site's outside.\<close>

definition scoped_line :: "(robots_group \<Rightarrow> robots_group) \<Rightarrow> (robots_file \<Rightarrow> robots_file) \<Rightarrow> robots_parse \<Rightarrow> robots_parse" where
  "scoped_line f g p = (case pr_current p of
      Some g0 \<Rightarrow> (if pr_in_block p then p\<lparr>pr_agents_open := False, pr_current := Some (f g0)\<rparr>
        else p\<lparr>pr_agents_open := False, pr_file := g (pr_file p)\<rparr>)
    | None \<Rightarrow> p\<lparr>pr_agents_open := False, pr_file := g (pr_file p)\<rparr>)"

definition content_usage_rule :: "string \<Rightarrow> string option \<times> string" where
  "content_usage_rule value =
     (if take 1 value = ''/''
      then (let path = takeWhile (\<lambda>c. \<not> sp_or_tab c) value; rest = dropWhile (\<lambda>c. \<not> sp_or_tab c) value
            in if rest = [] then (Some value, []) else (Some path, trim_text rest))
      else (None, value))"

definition user_agent_line :: "string \<Rightarrow> robots_parse \<Rightarrow> robots_parse" where
  "user_agent_line value p =
     (let p1 = (if pr_agents_open p then p else (close_group p)\<lparr>pr_current := Some empty_group, pr_agents_open := True\<rparr>)
      in p1\<lparr>pr_in_block := True,
           pr_current := map_option (\<lambda>g. g\<lparr>gr_agents := gr_agents g @ [to_lowercase value]\<rparr>) (pr_current p1)\<rparr>)"

definition directive :: "string \<Rightarrow> string \<Rightarrow> robots_parse \<Rightarrow> robots_parse" where
  "directive label value p =
     (if label = ''user-agent'' then user_agent_line value p
      else if label = ''allow'' \<or> label = ''disallow''
      then group_rule (\<lambda>g. g\<lparr>gr_rules := gr_rules g @ [\<lparr>ar_allow = (label = ''allow''), ar_pattern = value\<rparr>]\<rparr>) p
      else if label = ''content-usage'' then group_rule (\<lambda>g. g\<lparr>gr_content_usage := gr_content_usage g @ [content_usage_rule value]\<rparr>) p
      else if label = ''crawl-delay'' then group_rule (\<lambda>g. g\<lparr>gr_crawl_delay := gr_crawl_delay g @ [value]\<rparr>) p
      else if label = ''content-signal''
      then scoped_line (\<lambda>g. g\<lparr>gr_content_signal := gr_content_signal g @ [value]\<rparr>)
             (\<lambda>f. f\<lparr>rb_global_content_signal := rb_global_content_signal f @ [value]\<rparr>) p
      else if label = ''license''
      then scoped_line (\<lambda>g. g\<lparr>gr_licences := gr_licences g @ [value]\<rparr>)
             (\<lambda>f. f\<lparr>rb_global_licences := rb_global_licences f @ [value]\<rparr>) p
      else if label = ''sitemap'' then p\<lparr>pr_agents_open := False, pr_in_block := False\<rparr>
      else p\<lparr>pr_agents_open := False\<rparr>)"

definition robots_line :: "string \<Rightarrow> robots_parse \<Rightarrow> robots_parse" where
  "robots_line raw p =
     (let line = trim_text (hd (split_on (CHR ''#'') raw))
      in if line = [] then p\<lparr>pr_in_block := False\<rparr>
         else case split_once (CHR '':'') line of
           None \<Rightarrow> p
         | Some (label, value) \<Rightarrow> directive (to_lowercase (trim_text label)) (trim_text value) p)"

definition parse_robots :: "string \<Rightarrow> robots_file" where
  "parse_robots text = pr_file (close_group (fold robots_line (text_lines text) robots_start))"

subsection \<open>Crawl-delay\<close>

text \<open>The 53-bit rounding of an \<open>f64\<close>, of a fraction to a fraction: halves go to the even neighbour. The range of
  the exponent is left out: a value past it saturates, and one below it is under half a millisecond, either way.\<close>

function shift_up :: "nat \<Rightarrow> nat \<Rightarrow> nat" where
  "shift_up n d = (if n = 0 \<or> d * 2 ^ 52 \<le> n then 0 else Suc (shift_up (2 * n) d))"
  by pat_completeness auto
termination
  by (relation "measure (\<lambda>(n, d). d * 2 ^ 52 - n)") auto

function shift_down :: "nat \<Rightarrow> nat \<Rightarrow> nat" where
  "shift_down n d = (if d = 0 \<or> n < d * 2 ^ 53 then 0 else Suc (shift_down n (2 * d)))"
  by pat_completeness auto
termination
  by (relation "measure (\<lambda>(n, d). Suc n - d)") auto

declare shift_up.simps [simp del] shift_down.simps [simp del]

definition to_f64 :: "nat \<Rightarrow> nat \<Rightarrow> nat \<times> nat" where
  "to_f64 n d = (if n = 0 then (0, 1)
     else if n < d * 2 ^ 53 then (let s = shift_up n d in (half_even (n * 2 ^ s) d, 2 ^ s))
     else (let s = shift_down n d in (half_even n (d * 2 ^ s) * 2 ^ s, 1)))"

text \<open>\<open>(seconds * 1000.0).round() as u64\<close>.\<close>

definition ms_of_seconds :: "nat \<Rightarrow> nat \<Rightarrow> u64" where
  "ms_of_seconds n d =
     (let (p, q) = to_f64 n d; (p', q') = to_f64 (1000 * p) q; rounded = (2 * p' + q') div (2 * q')
      in if rounded < 2 ^ 64 then of_nat rounded else max_value)"

definition seconds_in_ms :: "string \<Rightarrow> u64 option" where
  "seconds_in_ms value =
     (let digits = length (filter is_ascii_digit value); dots = length (filter (\<lambda>c. c = CHR ''.'') value)
      in if digits = 0 \<or> 1 < dots \<or> digits + dots \<noteq> length value then None
         else Some (case split_once (CHR ''.'') value of
             None \<Rightarrow> ms_of_seconds (digits_val value) 1
           | Some (whole, part) \<Rightarrow> ms_of_seconds (digits_val (whole @ part)) (10 ^ length part)))"

abbreviation max_crawl_delay_ms :: u64 where "max_crawl_delay_ms \<equiv> 60000"

record crawl_delay =
  cd_value :: "string option"
  cd_delay_ms :: "u64 option"
  cd_honoured_ms :: "u64 option"
  cd_capped :: bool
  cd_unreadable :: "string list"

definition crawl_delay_step :: "crawl_delay \<Rightarrow> string \<Rightarrow> crawl_delay" where
  "crawl_delay_step delay value =
     (case seconds_in_ms value of
        Some ms \<Rightarrow> (if (case cd_delay_ms delay of None \<Rightarrow> True | Some kept \<Rightarrow> kept < ms)
          then delay\<lparr>cd_value := Some value, cd_delay_ms := Some ms\<rparr> else delay)
      | None \<Rightarrow> delay\<lparr>cd_unreadable := cd_unreadable delay @ [value]\<rparr>)"

definition crawl_delay_read :: "string list \<Rightarrow> crawl_delay option" where
  "crawl_delay_read values =
     (if values = [] then None
      else let delay = foldl crawl_delay_step \<lparr>cd_value = None, cd_delay_ms = None, cd_honoured_ms = None, cd_capped = False, cd_unreadable = []\<rparr> values
           in Some (case cd_delay_ms delay of
                None \<Rightarrow> delay
              | Some ms \<Rightarrow> delay\<lparr>cd_capped := max_crawl_delay_ms < ms, cd_honoured_ms := Some (min ms max_crawl_delay_ms)\<rparr>))"

subsection \<open>Reading a delay\<close>

lemma half_even_close: "0 < b \<Longrightarrow> 2 * \<bar>int (half_even a b) * int b - int a\<bar> \<le> int b"
proof -
  assume b: "0 < b"
  have a: "int a = int b * int (a div b) + int (a mod b)" by (metis mult_div_mod_eq of_nat_add of_nat_mult)
  have r: "int (a mod b) < int b" using b by simp
  show ?thesis
  proof (cases "half_even a b = a div b")
    case True
    then have "2 * (a mod b) \<le> b" by (auto simp: half_even_def Let_def split: if_splits)
    then have "2 * int (a mod b) \<le> int b" by linarith
    with True a show ?thesis by (simp add: mult.commute)
  next
    case False
    then have "half_even a b = Suc (a div b)" "b \<le> 2 * (a mod b)" by (auto simp: half_even_def Let_def split: if_splits)
    then have h: "int (half_even a b) * int b - int a = int b - int (a mod b)" "int b \<le> 2 * int (a mod b)"
      using a by (auto simp: algebra_simps)
    have "x = B - e \<Longrightarrow> B \<le> 2 * e \<Longrightarrow> e < B \<Longrightarrow> 2 * \<bar>x\<bar> \<le> B" for x B e :: int by arith
    from this [OF h r] show ?thesis .
  qed
qed

lemma shift_up_enough: "0 < n \<Longrightarrow> d * 2 ^ 52 \<le> n * 2 ^ shift_up n d"
proof (induction n d rule: shift_up.induct)
  case (1 n d)
  show ?case
  proof (cases "d * 2 ^ 52 \<le> n")
    case True
    with 1(2) show ?thesis by (simp add: shift_up.simps [of n d])
  next
    case False
    with 1(2) have "shift_up n d = Suc (shift_up (2 * n) d)" by (subst shift_up.simps) simp
    with 1 False show ?thesis by (simp add: ac_simps)
  qed
qed

lemma shift_down_enough: "0 < d \<Longrightarrow> d * 2 ^ 53 \<le> n \<Longrightarrow> d * 2 ^ shift_down n d * 2 ^ 52 \<le> n"
proof (induction n d rule: shift_down.induct)
  case (1 n d)
  have s: "shift_down n d = Suc (shift_down n (2 * d))" using 1(2,3) by (subst shift_down.simps) simp
  show ?case
  proof (cases "n < (2 * d) * 2 ^ 53")
    case True
    then have "shift_down n (2 * d) = 0" by (subst shift_down.simps) simp
    with s 1(3) show ?thesis by simp
  next
    case False
    with 1 s show ?thesis by (simp add: ac_simps)
  qed
qed

lemma half_unit: "2 * \<bar>x\<bar> \<le> e \<Longrightarrow> e * 2 ^ 52 \<le> n \<Longrightarrow> \<bar>x\<bar> * 2 ^ 53 \<le> n" for x e n :: int
  by simp

lemma quotient_bound: "\<bar>N\<bar> * c \<le> R \<Longrightarrow> x = N / K \<Longrightarrow> 0 < K \<Longrightarrow> \<bar>x\<bar> * c \<le> R / K" for N c R x K :: real
  by (simp add: abs_divide pos_le_divide_eq)

lemma scaled: "\<bar>x - s\<bar> * 2 ^ 53 \<le> s \<Longrightarrow> 1000 * s = m \<Longrightarrow> \<bar>1000 * x - m\<bar> * 2 ^ 53 \<le> m" for x s m :: real
  by (simp add: abs_if split: if_splits)

lemma two_roundings:
  fixes a b m :: real
  assumes "\<bar>a - m\<bar> * 2 ^ 53 \<le> m" "\<bar>b - a\<bar> * 2 ^ 53 \<le> a" "m < 2 ^ 40"
  shows "m - 1 / 2 < b" "b < m + 1 / 2"
  using assms by (simp_all add: abs_if split: if_splits)

lemma to_f64_close:
  assumes "0 < d" "to_f64 n d = (p, q)"
  shows "0 < q \<and> \<bar>real p / real q - real n / real d\<bar> * 2 ^ 53 \<le> real n / real d"
proof -
  have err: "0 < q \<and> \<bar>int p * int d - int n * int q\<bar> * 2 ^ 53 \<le> int n * int q"
  proof (cases "n = 0")
    case False
    show ?thesis
    proof (cases "n < d * 2 ^ 53")
      case True
      then have pq: "p = half_even (n * 2 ^ shift_up n d) d" "q = 2 ^ shift_up n d"
        using assms(2) False by (auto simp: to_f64_def Let_def)
      have "d * 2 ^ 52 \<le> n * q" using shift_up_enough [of n d] False pq by simp
      then have "int d * 2 ^ 52 \<le> int n * int q" by (metis of_nat_mult of_nat_le_iff of_nat_power of_nat_numeral)
      moreover have "2 * \<bar>int p * int d - int n * int q\<bar> \<le> int d"
        using half_even_close [OF assms(1), of "n * q"] pq by simp
      ultimately show ?thesis using pq half_unit by simp
    next
      case nlt: False
      let ?e = "d * 2 ^ shift_down n d"
      have pq: "p = half_even n ?e * 2 ^ shift_down n d" "q = 1"
        using assms(2) False nlt by (auto simp: to_f64_def Let_def)
      have "?e * 2 ^ 52 \<le> n" using shift_down_enough [OF assms(1), of n] nlt by simp
      then have "int ?e * 2 ^ 52 \<le> int n" by (metis of_nat_mult of_nat_le_iff of_nat_power of_nat_numeral)
      moreover have "2 * \<bar>int p * int d - int n * int q\<bar> \<le> int ?e"
        using half_even_close [of ?e n] assms(1) pq by (simp add: ac_simps)
      ultimately have "\<bar>int p * int d - int n * int q\<bar> * 2 ^ 53 \<le> int n" by (rule half_unit [rotated])
      with pq show ?thesis by simp
    qed
  qed (use assms in \<open>auto simp: to_f64_def\<close>)
  then have q: "0 < q" by simp
  from err have "real_of_int (\<bar>int p * int d - int n * int q\<bar> * 2 ^ 53) \<le> real_of_int (int n * int q)" by linarith
  then have "\<bar>real p * real d - real n * real q\<bar> * 2 ^ 53 \<le> real n * real q" by simp
  moreover have "real p / real q - real n / real d = (real p * real d - real n * real q) / (real q * real d)"
    using q assms(1) by (simp add: field_simps)
  moreover have "0 < real q * real d" using q assms(1) by simp
  ultimately have "\<bar>real p / real q - real n / real d\<bar> * 2 ^ 53 \<le> (real n * real q) / (real q * real d)"
    by (intro quotient_bound)
  with q show ?thesis by simp
qed

lemma ms_of_seconds_exact:
  assumes "0 < d" "1000 * n = m * d" "m < 2 ^ 40"
  shows "ms_of_seconds n d = of_nat m"
proof -
  obtain p q where pq: "to_f64 n d = (p, q)" by (rule prod.exhaust)
  obtain p' q' where pq': "to_f64 (1000 * p) q = (p', q')" by (rule prod.exhaust)
  have x: "0 < q" "\<bar>real p / real q - real n / real d\<bar> * 2 ^ 53 \<le> real n / real d" using to_f64_close [OF assms(1) pq] by auto
  have y: "0 < q'" "\<bar>real p' / real q' - real (1000 * p) / real q\<bar> * 2 ^ 53 \<le> real (1000 * p) / real q"
    using to_f64_close [OF x(1) pq'] by auto
  have "real 1000 * real n = real m * real d" using assms(2) by (metis of_nat_mult)
  then have m: "1000 * (real n / real d) = real m" using assms(1) by (simp add: field_simps)
  have mb: "real m < 2 ^ 40" using assms(3) by (metis of_nat_less_iff of_nat_numeral of_nat_power)
  have "\<bar>1000 * (real p / real q) - real m\<bar> * 2 ^ 53 \<le> real m" using scaled [OF x(2) m] .
  moreover have "\<bar>real p' / real q' - 1000 * (real p / real q)\<bar> * 2 ^ 53 \<le> 1000 * (real p / real q)" using y(2) by simp
  ultimately have b: "real m - 1 / 2 < real p' / real q'" "real p' / real q' < real m + 1 / 2" using mb two_roundings by blast+
  have "(real m - 1 / 2) * real q' < real p'" "real p' < (real m + 1 / 2) * real q'"
    using b y(1) by (simp_all add: less_divide_eq divide_less_eq)
  then have "real (2 * m * q') < real (2 * p' + q')" "real (2 * p' + q') < real (2 * Suc m * q')"
    by (simp_all add: algebra_simps)
  then have "m * (2 * q') \<le> 2 * p' + q'" "2 * p' + q' < Suc m * (2 * q')" by (simp_all only: of_nat_less_iff ac_simps)
  then have "(2 * p' + q') div (2 * q') = m" by (intro div_nat_eqI) (simp_all add: ac_simps)
  then show ?thesis using pq pq' assms(3) by (simp add: ms_of_seconds_def)
qed

lemma split_once_digits: "all_digits a \<Longrightarrow> split_once (CHR ''.'') (a @ CHR ''.'' # b) = Some (a, b)"
  by (rule split_once_append) (rule dot_not_digit)

lemma filter_digits: "all_digits a \<Longrightarrow> filter is_ascii_digit a = a" "all_digits a \<Longrightarrow> filter (\<lambda>c. c = CHR ''.'') a = []"
  using dot_not_digit [of a] by (auto simp: all_digits_def list_all_iff filter_id_conv filter_empty_conv)

lemma not_digit_dot: "\<not> is_ascii_digit (CHR ''.'')"
  by (simp add: is_ascii_digit_def byte_of_def)

text \<open>
  A delay a publisher would write is read to the millisecond: a number of seconds below a thousand million with
  at most three decimals, or none, comes through the two floating-point roundings exact.
\<close>

theorem short_delay_is_exact:
  assumes "all_digits a" "all_digits b" "length b \<le> 3" "a \<noteq> []" "digits_val a < 10 ^ 9"
  shows "seconds_in_ms (a @ ''.'' @ b) = Some (of_nat (digits_val (a @ b) * 10 ^ (3 - length b)))
    \<and> seconds_in_ms a = Some (of_nat (1000 * digits_val a))"
proof -
  have "digits_val b < 10 ^ length b" using digits_val_lt assms(2) by blast
  then have "digits_val (a @ b) < (digits_val a + 1) * 10 ^ length b" by (simp add: digits_val_append algebra_simps)
  also have "\<dots> \<le> 10 ^ 9 * 10 ^ length b" using assms(5) by (intro mult_right_mono) simp_all
  finally have "digits_val (a @ b) * 10 ^ (3 - length b) < 10 ^ 9 * 10 ^ length b * 10 ^ (3 - length b)" by simp
  also have "\<dots> = 10 ^ 12" using assms(3) by (simp flip: power_add)
  finally have m: "digits_val (a @ b) * 10 ^ (3 - length b) < 2 ^ 40" by simp
  have "1000 * digits_val (a @ b) = digits_val (a @ b) * 10 ^ (3 - length b) * 10 ^ length b"
    using assms(3) by (simp add: mult.assoc flip: power_add)
  with m have "ms_of_seconds (digits_val (a @ b)) (10 ^ length b) = of_nat (digits_val (a @ b) * 10 ^ (3 - length b))"
    by (intro ms_of_seconds_exact) simp_all
  then have part: "seconds_in_ms (a @ ''.'' @ b) = Some (of_nat (digits_val (a @ b) * 10 ^ (3 - length b)))"
    using assms by (simp add: seconds_in_ms_def split_once_digits filter_digits not_digit_dot)
  have "ms_of_seconds (digits_val a) 1 = of_nat (1000 * digits_val a)"
    using assms(5) by (intro ms_of_seconds_exact) simp_all
  moreover have "split_once (CHR ''.'') a = None" using dot_not_digit [OF assms(1)] by (simp add: split_once_None)
  ultimately have "seconds_in_ms a = Some (of_nat (1000 * digits_val a))"
    using assms by (simp add: seconds_in_ms_def filter_digits)
  with part show ?thesis ..
qed

theorem short_delay_is_exact_witness:
  "seconds_in_ms ''0.25'' = Some 250 \<and> seconds_in_ms ''0'' = Some 0"
proof -
  have d: "all_digits ''0''" "all_digits ''25''" by (simp_all add: all_digits_def is_ascii_digit_def byte_of_def)
  show ?thesis using short_delay_is_exact [of "''0''" "''25''", OF d]
    by (simp add: digits_val_def digit_val_def byte_of_def)
qed

definition longest_delay :: "string list \<Rightarrow> u64 option" where
  "longest_delay values = (let readable = List.map_filter seconds_in_ms values
     in if readable = [] then None else Some (Max (set readable)))"

lemma map_filter_snoc: "List.map_filter f (xs @ [x]) = List.map_filter f xs @ (case f x of None \<Rightarrow> [] | Some y \<Rightarrow> [y])"
  by (simp add: List.map_filter_def split: option.splits)

lemma longest_delay_snoc: "longest_delay (vs @ [v]) = (case seconds_in_ms v of
    None \<Rightarrow> longest_delay vs
  | Some ms \<Rightarrow> (case longest_delay vs of None \<Rightarrow> Some ms | Some kept \<Rightarrow> Some (max kept ms)))"
  by (auto simp: longest_delay_def map_filter_snoc max.commute Let_def split: option.splits if_splits)

lemma longest_delay_found: "longest_delay vs = Some ms \<Longrightarrow> \<exists>v \<in> set vs. seconds_in_ms v = Some ms"
proof -
  assume "longest_delay vs = Some ms"
  then have "ms \<in> set (List.map_filter seconds_in_ms vs)" by (auto simp: longest_delay_def Let_def split: if_splits)
  then show ?thesis by (auto simp: List.map_filter_def)
qed

lemma longest_delay_max: "longest_delay vs = Some ms \<Longrightarrow> v \<in> set vs \<Longrightarrow> seconds_in_ms v = Some n \<Longrightarrow> n \<le> ms"
proof -
  assume l: "longest_delay vs = Some ms" and v: "v \<in> set vs" "seconds_in_ms v = Some n"
  have "n \<in> set (List.map_filter seconds_in_ms vs)" using v by (force simp: List.map_filter_def)
  with l show ?thesis by (auto simp: longest_delay_def Let_def split: if_splits)
qed

lemma longest_delay_None: "longest_delay vs = None \<Longrightarrow> v \<in> set vs \<Longrightarrow> seconds_in_ms v = None"
  by (auto simp: longest_delay_def Let_def List.map_filter_def filter_empty_conv split: if_splits)

lemma find_snoc: "find P (xs @ [x]) = (case find P xs of Some y \<Rightarrow> Some y | None \<Rightarrow> (if P x then Some x else None))"
  by (induction xs) auto

definition delay_value :: "string list \<Rightarrow> string option" where
  "delay_value values = (case longest_delay values of None \<Rightarrow> None | Some ms \<Rightarrow> find (\<lambda>v. seconds_in_ms v = Some ms) values)"

lemma crawl_delay_fold:
  "foldl crawl_delay_step \<lparr>cd_value = None, cd_delay_ms = None, cd_honoured_ms = None, cd_capped = False, cd_unreadable = []\<rparr> vals
     = \<lparr>cd_value = delay_value vals, cd_delay_ms = longest_delay vals, cd_honoured_ms = None, cd_capped = False,
        cd_unreadable = filter (\<lambda>v. seconds_in_ms v = None) vals\<rparr>"
proof (induction vals rule: rev_induct)
  case Nil
  show ?case by (simp add: longest_delay_def delay_value_def List.map_filter_def)
next
  case (snoc v vs)
  show ?case
  proof (cases "seconds_in_ms v")
    case None
    with snoc show ?thesis
      by (auto simp: crawl_delay_step_def longest_delay_snoc delay_value_def find_snoc split: option.splits)
  next
    case (Some ms)
    show ?thesis
    proof (cases "longest_delay vs")
      case None
      have "find (\<lambda>v. seconds_in_ms v = Some ms) vs = None"
        using longest_delay_None [OF None] by (force simp: find_None_iff)
      with snoc Some None show ?thesis
        by (simp add: crawl_delay_step_def longest_delay_snoc delay_value_def find_snoc)
    next
      case kept: (Some kept)
      show ?thesis
      proof (cases "kept < ms")
        case True
        have "find (\<lambda>v. seconds_in_ms v = Some ms) vs = None"
          using longest_delay_max [OF kept] True by (fastforce simp: find_None_iff)
        with snoc Some kept True show ?thesis
          by (simp add: crawl_delay_step_def longest_delay_snoc delay_value_def find_snoc max_def less_imp_le)
      next
        case False
        obtain w where "find (\<lambda>v. seconds_in_ms v = Some kept) vs = Some w"
          using longest_delay_found [OF kept] by (cases "find (\<lambda>v. seconds_in_ms v = Some kept) vs") (auto simp: find_None_iff)
        with snoc Some kept False show ?thesis
          by (simp add: crawl_delay_step_def longest_delay_snoc delay_value_def find_snoc max_def)
      qed
    qed
  qed
qed

text \<open>
  A group's crawl delay is the longest of its readable values, the first that gives it being the one quoted, and
  what is kept is that delay or a minute, whichever is less; the values that are not a number of seconds are listed
  and change nothing.
\<close>

theorem crawl_delay_is_the_longest_capped:
  "crawl_delay_read values = (if values = [] then None else Some
     \<lparr>cd_value = delay_value values, cd_delay_ms = longest_delay values,
      cd_honoured_ms = map_option (\<lambda>ms. min ms max_crawl_delay_ms) (longest_delay values),
      cd_capped = (case longest_delay values of None \<Rightarrow> False | Some ms \<Rightarrow> max_crawl_delay_ms < ms),
      cd_unreadable = filter (\<lambda>v. seconds_in_ms v = None) values\<rparr>)"
  by (cases "longest_delay values") (simp_all add: crawl_delay_read_def crawl_delay_fold)

subsection \<open>Pattern matching\<close>

text \<open>\<open>str::find\<close>, and what follows the leftmost occurrence.\<close>

fun after_leftmost :: "string \<Rightarrow> string \<Rightarrow> string option" where
  "after_leftmost part [] = (if part = [] then Some [] else None)"
| "after_leftmost part (c # s) = (case strip_prefix part (c # s) of Some r \<Rightarrow> Some r | None \<Rightarrow> after_leftmost part s)"

fun after_parts :: "string list \<Rightarrow> string \<Rightarrow> string option" where
  "after_parts [] rest = Some rest"
| "after_parts (part # parts) rest = (case after_leftmost part rest of Some r \<Rightarrow> after_parts parts r | None \<Rightarrow> None)"

definition matches_form :: "string \<Rightarrow> string \<Rightarrow> bool" where
  "matches_form pattern target =
     (let (body, anchored) = (case strip_suffix ''$'' pattern of Some stripped \<Rightarrow> (stripped, True) | None \<Rightarrow> (pattern, False));
          parts = split_on (CHR ''*'') body;
          last' = (if anchored then Some (last parts) else None);
          parts = (if anchored then butlast parts else parts)
      in case parts of
           [] \<Rightarrow> last' = Some target
         | first # middle \<Rightarrow>
             (case strip_prefix first target of
                None \<Rightarrow> False
              | Some rest \<Rightarrow>
                  (case after_parts middle rest of
                     None \<Rightarrow> False
                   | Some rest \<Rightarrow> (case last' of Some l \<Rightarrow> strip_suffix l rest \<noteq> None | None \<Rightarrow> True))))"

definition matches_pattern :: "string \<Rightarrow> string \<Rightarrow> bool" where
  "matches_pattern pattern target = matches_form (matching_pattern pattern) (matching_target target)"

text \<open>The reference: a star is any text, every other character itself, and the whole target is matched.\<close>

fun glob :: "string \<Rightarrow> string \<Rightarrow> bool" where
  "glob [] t = (t = [])"
| "glob (c # p) t = (if c = CHR ''*'' then list_ex (glob p) (suffixes t)
     else (case t of [] \<Rightarrow> False | d # t' \<Rightarrow> d = c \<and> glob p t'))"

lemma strip_prefix_append [simp]: "strip_prefix p (p @ r) = Some r"
  by (simp add: strip_prefix_Some_iff)

declare glob.simps(2) [simp del]

lemma glob_star: "glob (CHR ''*'' # p) t \<longleftrightarrow> (\<exists>a b. t = a @ b \<and> glob p b)"
proof -
  have "glob (CHR ''*'' # p) t \<longleftrightarrow> (\<exists>b. (\<exists>a. t = a @ b) \<and> glob p b)"
    by (subst glob.simps(2)) (simp add: list_ex_iff suffix_def Bex_def)
  then show ?thesis by metis
qed

lemma glob_literal: "CHR ''*'' \<notin> set a \<Longrightarrow> glob (a @ p) t \<longleftrightarrow> (\<exists>r. t = a @ r \<and> glob p r)"
proof (induction a arbitrary: t)
  case (Cons c a)
  then show ?case by (cases t) (auto simp: glob.simps(2))
qed simp

lemma glob_star_longer: "glob (CHR ''*'' # p) s \<Longrightarrow> glob (CHR ''*'' # p) (a @ s)"
  unfolding glob_star by (metis append.assoc)

lemma after_leftmost_Some: "after_leftmost part s = Some r \<Longrightarrow> \<exists>a. s = a @ part @ r"
proof (induction s)
  case (Cons c s)
  show ?case
  proof (cases "strip_prefix part (c # s)")
    case None
    with Cons obtain a where "s = a @ part @ r" by auto
    then have "c # s = (c # a) @ part @ r" by simp
    then show ?thesis by blast
  next
    case (Some r')
    with Cons.prems have "c # s = [] @ part @ r" by (simp add: strip_prefix_Some_iff)
    then show ?thesis by blast
  qed
qed (auto split: if_splits)

text \<open>The leftmost occurrence leaves the most: any other leaves a suffix of what it leaves.\<close>

lemma after_leftmost_first: "s = a @ part @ r \<Longrightarrow> \<exists>b. after_leftmost part s = Some (b @ r)"
proof (induction s arbitrary: a)
  case (Cons c s)
  show ?case
  proof (cases "strip_prefix part (c # s)")
    case None
    then obtain a' where "a = c # a'" "s = a' @ part @ r" using Cons.prems
      by (cases a) (auto simp: strip_prefix_def split: if_splits)
    with Cons.IH None show ?thesis by auto
  next
    case (Some r')
    then have "part @ r' = a @ part @ r" using Cons.prems by (simp add: strip_prefix_Some_iff)
    then have "length r \<le> length r'" "drop (length (part @ r') - length r) (part @ r') = r" 
      by (auto dest: arg_cong [of _ _ length])
    then have "drop (length r' - length r) r' = r" by simp
    then have "r' = take (length r' - length r) r' @ r" by (metis append_take_drop_id)
    with Some show ?thesis by auto
  qed
qed auto

lemma glob_parts:
  assumes "list_all (\<lambda>p. CHR ''*'' \<notin> set p) parts"
  shows "glob (concat (map (Cons (CHR ''*'')) parts) @ CHR ''*'' # z) s
    \<longleftrightarrow> (case after_parts parts s of Some r \<Rightarrow> glob (CHR ''*'' # z) r | None \<Rightarrow> False)"
  using assms
proof (induction parts arbitrary: s)
  case (Cons p parts)
  let ?rest = "concat (map (Cons (CHR ''*'')) parts) @ CHR ''*'' # z"
  have star: "glob ?rest s \<Longrightarrow> glob ?rest (a @ s)" for a s
    by (cases parts) (auto intro: glob_star_longer)
  have "glob (CHR ''*'' # p @ ?rest) s \<longleftrightarrow> (\<exists>a r. s = a @ p @ r \<and> glob ?rest r)"
    using Cons.prems unfolding glob_star by (auto simp: glob_literal)
  also have "\<dots> \<longleftrightarrow> (case after_leftmost p s of Some r \<Rightarrow> glob ?rest r | None \<Rightarrow> False)"
  proof (cases "after_leftmost p s")
    case None
    then show ?thesis using after_leftmost_first by (metis option.distinct(1) option.simps(4))
  next
    case (Some r)
    then obtain a where a: "s = a @ p @ r" using after_leftmost_Some by blast
    have "glob ?rest r" if "s = b @ p @ r'" "glob ?rest r'" for b r'
      using after_leftmost_first [OF that(1)] Some star [OF that(2)] by auto
    with a Some show ?thesis by auto
  qed
  finally show ?case using Cons by (auto split: option.splits)
qed simp

lemma split_on_parts: "list_all (\<lambda>p. sep \<notin> set p) (split_on sep s)"
  by (induction sep s rule: split_on.induct) (auto split: list.splits)

lemma join_with_Cons: "join_with [sep] (p # ps) = p @ concat (map (Cons sep) ps)"
  by (induction ps arbitrary: p) auto

text \<open>What a pattern's form stands for: anchored it is the whole target, and otherwise a prefix of it.\<close>

definition form_glob :: "string \<Rightarrow> string" where
  "form_glob form = (case strip_suffix ''$'' form of Some body \<Rightarrow> body | None \<Rightarrow> form @ ''*'')"

lemma glob_last: "CHR ''*'' \<notin> set l \<Longrightarrow> glob (CHR ''*'' # l) r \<longleftrightarrow> strip_suffix l r \<noteq> None"
  using glob_literal [of l "[]"] by (auto simp: glob_star strip_suffix_Some_iff)

lemma matches_form_glob: "matches_form form target = glob (form_glob form) target"
proof (cases "strip_suffix ''$'' form")
  case None
  obtain p ps where parts: "split_on (CHR ''*'') form = p # ps" by (cases "split_on (CHR ''*'') form") auto
  have star: "CHR ''*'' \<notin> set p" "list_all (\<lambda>p. CHR ''*'' \<notin> set p) ps" using split_on_parts [of "CHR ''*''" form] parts by simp_all
  have "form = p @ concat (map (Cons (CHR ''*'')) ps)" using join_split [of "CHR ''*''" form] by (simp add: parts join_with_Cons)
  then have "glob (form_glob form) target \<longleftrightarrow> (\<exists>r. target = p @ r \<and> glob (concat (map (Cons (CHR ''*'')) ps) @ [CHR ''*'']) r)"
    using None star(1) by (simp add: form_glob_def glob_literal)
  also have "\<dots> \<longleftrightarrow> (\<exists>r. target = p @ r \<and> after_parts ps r \<noteq> None)"
    using glob_parts [OF star(2), of "[]"] by (auto simp: glob_star split: option.splits)
  also have "\<dots> \<longleftrightarrow> matches_form form target"
    using None parts by (auto simp: matches_form_def strip_prefix_Some_iff split: option.splits)
  finally show ?thesis by simp
next
  case (Some body)
  obtain ps l where parts: "split_on (CHR ''*'') body = ps @ [l]" by (cases "split_on (CHR ''*'') body" rule: rev_cases) auto
  have star: "CHR ''*'' \<notin> set l" "list_all (\<lambda>p. CHR ''*'' \<notin> set p) ps"
    using split_on_parts [of "CHR ''*''" body] parts by simp_all
  have body: "join_with ''*'' (ps @ [l]) = body" using join_split [of "CHR ''*''" body] by (simp add: parts)
  show ?thesis
  proof (cases ps)
    case Nil
    with Some parts body star glob_literal [of l "[]" target] show ?thesis by (auto simp: matches_form_def form_glob_def)
  next
    case (Cons p qs)
    have "body = p @ concat (map (Cons (CHR ''*'')) qs) @ CHR ''*'' # l" using body Cons by (simp add: join_with_Cons)
    then have "glob (form_glob form) target \<longleftrightarrow> (\<exists>r. target = p @ r \<and> glob (concat (map (Cons (CHR ''*'')) qs) @ CHR ''*'' # l) r)"
      using Some star(2) Cons by (simp add: form_glob_def glob_literal)
    also have "\<dots> \<longleftrightarrow> (\<exists>r. target = p @ r \<and> (case after_parts qs r of Some r' \<Rightarrow> strip_suffix l r' \<noteq> None | None \<Rightarrow> False))"
      using glob_parts [of qs l] star Cons by (simp add: glob_last cong: option.case_cong)
    also have "\<dots> \<longleftrightarrow> matches_form form target"
      using Some parts Cons by (auto simp: matches_form_def strip_prefix_Some_iff split: option.splits)
    finally show ?thesis by simp
  qed
qed

text \<open>
  C27. Matching by parts, each taken at its leftmost place and the last at the end, finds what a search through every
  place a star could end at finds: a pattern matches exactly the targets its stars can be filled in to give, to the
  end where it is anchored and as a prefix where it is not.
\<close>

theorem matches_pattern_is_glob: "matches_pattern pattern target = glob (form_glob (matching_pattern pattern)) (matching_target target)"
  by (simp add: matches_pattern_def matches_form_glob)

subsection \<open>The reading\<close>

abbreviation quoted_part_chars :: nat where "quoted_part_chars \<equiv> 64"

definition quoted_char :: "char \<Rightarrow> string" where
  "quoted_char c = (if 33 \<le> byte_of c \<and> byte_of c \<le> 126 \<and> byte_of c \<notin> {34, 60, 62, 96, 92} then [c] else encoded c)"

text \<open>The encoded text is ASCII, so its characters are its bytes.\<close>

definition capped :: "string \<Rightarrow> string" where
  "capped s = (if length s \<le> quoted_part_chars then s else take quoted_part_chars s @ map char_of [0xE2, 0x80, 0xA6 :: nat])"

definition quoted_path :: "string \<Rightarrow> string" where
  "quoted_path path = capped (concat (map quoted_char path))"

definition too_many_text :: "too_many_readings \<Rightarrow> string" where
  "too_many_text e = (case e of Too_many cap \<Rightarrow> ''the page's path has more than '' @ show_nat cap @
     '' readings (decoding `%2F`, `%5C` and `%3B`, merging `/`, resolving dot segments and stripping `;` parameters, in any order), so it is refused without comparing them'')"

definition signal_statements :: "string list \<Rightarrow> string option \<Rightarrow> statement list" where
  "signal_statements signals name =
     map (\<lambda>(category, preference, label). \<lparr>st_source = Robots_content_signal, st_category = category, st_preference = preference,
        st_detail = (case name of Some n \<Rightarrow> ''group '' @ n @ '': Content-Signal: '' @ label
                     | None \<Rightarrow> ''site-wide Content-Signal: '' @ label)\<rparr>)
       (concat (map parse_content_signal signals))"

definition longest_match :: "(string \<times> 'a) list \<Rightarrow> string \<Rightarrow> (nat \<times> 'a) list" where
  "longest_match rules reading = List.map_filter (\<lambda>(pattern, rule).
     if pattern = [] then None
     else let form = matching_pattern pattern in if matches_form form reading then Some (length form, rule) else None) rules"

text \<open>\<open>max_by\<close> over the length and then Allow: of equals, the last.\<close>

definition outranks :: "nat \<times> access_rule \<Rightarrow> nat \<times> access_rule \<Rightarrow> bool" where
  "outranks a b \<longleftrightarrow> fst b < fst a \<or> fst b = fst a \<and> ar_allow (snd a) \<and> \<not> ar_allow (snd b)"

definition max_rule :: "(nat \<times> access_rule) list \<Rightarrow> (nat \<times> access_rule) option" where
  "max_rule matched = foldl (\<lambda>best r. case best of None \<Rightarrow> Some r | Some b \<Rightarrow> if outranks b r then Some b else Some r) None matched"

definition reading_decision :: "access_rule list \<Rightarrow> string \<Rightarrow> access_rule option" where
  "reading_decision rules reading = map_option snd (max_rule (longest_match (map (\<lambda>r. (ar_pattern r, r)) rules) reading))"

definition decide :: "access_rule list \<Rightarrow> access_rule option" where
  "decide decisions = (case find (\<lambda>r. \<not> ar_allow r) decisions of
      Some r \<Rightarrow> Some r
    | None \<Rightarrow> (case decisions of [] \<Rightarrow> None | r # _ \<Rightarrow> Some r))"

type_synonym usage_rule = "nat \<times> string option \<times> string"

definition usage_candidates :: "usage_rule list \<Rightarrow> string \<Rightarrow> (nat \<times> usage_rule) list" where
  "usage_candidates rules reading = List.map_filter (\<lambda>rule.
     case rule of (_, path, _) \<Rightarrow>
       (let pattern = (case path of None \<Rightarrow> [] | Some p \<Rightarrow> p)
        in if pattern = [] then Some (0, rule)
           else let form = matching_pattern pattern in if matches_form form reading then Some (length form, rule) else None)) rules"

definition usage_step :: "usage_rule list \<Rightarrow> usage_rule list \<Rightarrow> string \<Rightarrow> usage_rule list" where
  "usage_step rules selected reading =
     (let candidates = usage_candidates rules reading
      in foldl (\<lambda>sel (n, rule). if list_all (\<lambda>(m, _). m \<le> n) candidates \<and> fst rule \<notin> fst ` set sel then sel @ [rule] else sel)
           selected candidates)"

definition usage_selected :: "usage_rule list \<Rightarrow> string list \<Rightarrow> usage_rule list" where
  "usage_selected rules readings = foldl (usage_step rules) [] readings"

definition usage_statements :: "string \<Rightarrow> usage_rule \<Rightarrow> statement list" where
  "usage_statements name rule = (case rule of (_, path, preference) \<Rightarrow>
     map (\<lambda>(category, preference, label). \<lparr>st_source = Robots_content_usage, st_category = category, st_preference = preference,
        st_detail = (case path of
            Some p \<Rightarrow> ''group '' @ name @ '': Content-Usage: '' @ quoted_path p @ '' '' @ label
          | None \<Rightarrow> ''group '' @ name @ '': Content-Usage: '' @ label)\<rparr>) (parse_content_usage preference))"

record robots_reading =
  rr_group :: "string option"
  rr_group_is_wildcard :: bool
  rr_crawlable :: "bool option"
  rr_access_rule :: "string option"
  rr_access_rule_wildcard :: "bool option"
  rr_statements :: "statement list"
  rr_licences :: "string list"
  rr_crawl_delay :: "crawl_delay option"
  rr_too_many_readings :: "too_many_readings option"

text \<open>The groups that name the token, or the star's, and the name they are read under.\<close>

definition selected_groups :: "robots_file \<Rightarrow> string \<Rightarrow> robots_group list \<times> bool" where
  "selected_groups file token =
     (let named = filter (\<lambda>g. to_lowercase token \<in> set (gr_agents g)) (rb_groups file)
      in if named = [] then (filter (\<lambda>g. ''*'' \<in> set (gr_agents g)) (rb_groups file), True) else (named, False))"

definition unread_robots :: "robots_file \<Rightarrow> too_many_readings \<Rightarrow> robots_reading" where
  "unread_robots file e = \<lparr>rr_group = None, rr_group_is_wildcard = False, rr_crawlable = Some False,
     rr_access_rule = Some (too_many_text e), rr_access_rule_wildcard = None, rr_statements = [],
     rr_licences = rb_global_licences file, rr_crawl_delay = None, rr_too_many_readings = Some e\<rparr>"

definition no_group_reading :: "robots_file \<Rightarrow> robots_reading" where
  "no_group_reading file = \<lparr>rr_group = None, rr_group_is_wildcard = False, rr_crawlable = None, rr_access_rule = None,
     rr_access_rule_wildcard = None, rr_statements = signal_statements (rb_global_content_signal file) None,
     rr_licences = rb_global_licences file, rr_crawl_delay = None, rr_too_many_readings = None\<rparr>"

definition group_reading :: "robots_file \<Rightarrow> robots_group list \<Rightarrow> bool \<Rightarrow> string \<Rightarrow> string list \<Rightarrow> robots_reading" where
  "group_reading file gs wildcard name readings =
     (let rules = concat (map gr_rules gs);
          content_signal = concat (map gr_content_signal gs);
          licences = concat (map gr_licences gs);
          decided = decide (List.map_filter (reading_decision rules) readings);
          crawlable = (case decided of None \<Rightarrow> True | Some rule \<Rightarrow> ar_allow rule)
      in \<lparr>rr_group = Some name, rr_group_is_wildcard = wildcard, rr_crawlable = Some crawlable,
          rr_access_rule = map_option (\<lambda>rule. (if ar_allow rule then ''Allow'' else ''Disallow'') @ '': '' @ ar_pattern rule) decided,
          rr_access_rule_wildcard = map_option (\<lambda>rule. CHR ''*'' \<in> set (ar_pattern rule)) decided,
          rr_statements = (if crawlable
            then concat (map (usage_statements name) (usage_selected (enumerate 0 (concat (map gr_content_usage gs))) readings))
              @ (if content_signal = [] then signal_statements (rb_global_content_signal file) None
                 else signal_statements content_signal (Some name))
            else []),
          rr_licences = (if licences = [] then rb_global_licences file else licences),
          rr_crawl_delay = crawl_delay_read (concat (map gr_crawl_delay gs)), rr_too_many_readings = None\<rparr>)"

definition read_readings :: "robots_file \<Rightarrow> string \<Rightarrow> too_many_readings + string list \<Rightarrow> robots_reading" where
  "read_readings file token readings =
     (case readings of
        Inl e \<Rightarrow> unread_robots file e
      | Inr rs \<Rightarrow>
          (case selected_groups file token of (gs, wildcard) \<Rightarrow>
             if gs = [] then no_group_reading file
             else group_reading file gs wildcard (if wildcard then ''*'' else token) rs))"

definition robots_read :: "(string \<Rightarrow> string) \<Rightarrow> robots_file \<Rightarrow> string \<Rightarrow> string \<Rightarrow> robots_reading option" where
  "robots_read resolve file token path = map_option (read_readings file token) (matching_target_readings resolve path)"

subsection \<open>Which pages are refused\<close>

definition rule_matches :: "access_rule \<Rightarrow> string \<Rightarrow> bool" where
  "rule_matches rule reading \<longleftrightarrow> ar_pattern rule \<noteq> [] \<and> glob (form_glob (matching_pattern (ar_pattern rule))) reading"

definition rule_rank :: "access_rule \<Rightarrow> nat" where
  "rule_rank rule = length (matching_pattern (ar_pattern rule))"

text \<open>A Disallow of the rules reaches the reading, and no Allow that does names as long a path.\<close>

definition refused_by :: "access_rule list \<Rightarrow> string \<Rightarrow> bool" where
  "refused_by rules reading \<longleftrightarrow> list_ex (\<lambda>d. \<not> ar_allow d \<and> rule_matches d reading \<and>
     \<not> list_ex (\<lambda>a. ar_allow a \<and> rule_matches a reading \<and> rule_rank d \<le> rule_rank a) rules) rules"

lemma longest_match_rules: "longest_match (map (\<lambda>r. (ar_pattern r, r)) rules) reading
    = map (\<lambda>r. (rule_rank r, r)) (filter (\<lambda>r. rule_matches r reading) rules)"
  by (induction rules) (auto simp: longest_match_def List.map_filter_def rule_matches_def rule_rank_def matches_form_glob Let_def)

lemma outranks_trans: "\<not> outranks a b \<Longrightarrow> \<not> outranks b c \<Longrightarrow> \<not> outranks a c"
  by (auto simp: outranks_def)

lemma max_rule_snoc: "max_rule (xs @ [x]) = (case max_rule xs of None \<Rightarrow> Some x | Some b \<Rightarrow> if outranks b x then Some b else Some x)"
  by (simp add: max_rule_def)

lemma max_rule_max: "case max_rule xs of None \<Rightarrow> xs = [] | Some b \<Rightarrow> b \<in> set xs \<and> (\<forall>x \<in> set xs. \<not> outranks x b)"
proof (induction xs rule: rev_induct)
  case (snoc x xs)
  have self: "\<not> outranks x x" "outranks b x \<Longrightarrow> \<not> outranks x b" for b by (auto simp: outranks_def)
  show ?case
  proof (cases "max_rule xs")
    case None
    with snoc self show ?thesis by (simp add: max_rule_def)
  next
    case (Some b)
    with snoc have b: "b \<in> set xs" "\<forall>y \<in> set xs. \<not> outranks y b" by simp_all
    show ?thesis
    proof (cases "outranks b x")
      case True
      with Some b self(2) show ?thesis by (simp add: max_rule_snoc)
    next
      case False
      then have "\<forall>y \<in> set xs. \<not> outranks y x" using b(2) outranks_trans by blast
      with Some False self(1) show ?thesis by (simp add: max_rule_snoc)
    qed
  qed
qed (simp add: max_rule_def)

lemma reading_decision_refuses:
  "(\<exists>r. reading_decision rules reading = Some r \<and> \<not> ar_allow r) \<longleftrightarrow> refused_by rules reading"
proof -
  let ?ms = "map (\<lambda>r. (rule_rank r, r)) (filter (\<lambda>r. rule_matches r reading) rules)"
  have d: "reading_decision rules reading = map_option snd (max_rule ?ms)"
    by (simp add: reading_decision_def longest_match_rules)
  show ?thesis
  proof (cases "max_rule ?ms")
    case None
    with max_rule_max [of ?ms] d show ?thesis by (auto simp: refused_by_def list_ex_iff filter_empty_conv)
  next
    case (Some b)
    with max_rule_max [of ?ms] obtain r where r: "b = (rule_rank r, r)" "r \<in> set rules" "rule_matches r reading"
      and top: "\<And>x. x \<in> set rules \<Longrightarrow> rule_matches x reading \<Longrightarrow> \<not> outranks (rule_rank x, x) (rule_rank r, r)"
      by auto
    show ?thesis
    proof (cases "ar_allow r")
      case True
      have "\<not> refused_by rules reading"
        using r top True by (force simp: refused_by_def list_ex_iff outranks_def)
      with Some d r True show ?thesis by simp
    next
      case False
      have "refused_by rules reading"
        using r False top by (force simp: refused_by_def list_ex_iff outranks_def)
      with Some d r False show ?thesis by simp
    qed
  qed
qed

lemma decide_refuses: "(case decide ds of None \<Rightarrow> True | Some r \<Rightarrow> ar_allow r) \<longleftrightarrow> list_all ar_allow ds"
proof (cases "find (\<lambda>r. \<not> ar_allow r) ds")
  case None
  then have "list_all ar_allow ds" by (simp add: find_None_iff list_all_iff)
  with None show ?thesis by (cases ds) (simp_all add: decide_def)
next
  case (Some r)
  then have "r \<in> set ds" "\<not> ar_allow r" by (auto simp: find_Some_iff)
  with Some show ?thesis by (auto simp: decide_def list_all_iff)
qed

lemma group_reading_crawlable: "rr_crawlable (group_reading file gs wildcard name readings)
    = Some (\<not> list_ex (refused_by (concat (map gr_rules gs))) readings)"
proof -
  have "list_all ar_allow (List.map_filter (reading_decision rules) readings) \<longleftrightarrow> \<not> list_ex (refused_by rules) readings" for rules
    by (force simp: list_all_iff list_ex_iff List.map_filter_def simp flip: reading_decision_refuses)
  then show ?thesis by (simp add: group_reading_def Let_def decide_refuses)
qed

text \<open>The rules that bind a token: those of every group that names it, or the star's where none does.\<close>

definition binding_rules :: "robots_file \<Rightarrow> string \<Rightarrow> access_rule list" where
  "binding_rules file token = concat (map gr_rules (filter
     (\<lambda>g. if list_ex (\<lambda>h. to_lowercase token \<in> set (gr_agents h)) (rb_groups file)
          then to_lowercase token \<in> set (gr_agents g) else ''*'' \<in> set (gr_agents g)) (rb_groups file)))"

lemma selected_groups_rules: "concat (map gr_rules (fst (selected_groups file token))) = binding_rules file token"
  by (auto simp: selected_groups_def binding_rules_def list_ex_iff filter_empty_conv Let_def)

lemma read_readings_crawlable: "rr_crawlable (read_readings file token (Inr readings)) = Some False
    \<longleftrightarrow> list_ex (refused_by (binding_rules file token)) readings"
proof (cases "selected_groups file token")
  case (Pair gs wildcard)
  have "fst (selected_groups file token) = gs" using Pair by simp
  then have rules: "binding_rules file token = concat (map gr_rules gs)" using selected_groups_rules by metis
  show ?thesis
  proof (cases "gs = []")
    case True
    with Pair rules show ?thesis by (simp add: read_readings_def no_group_reading_def refused_by_def list_ex_iff)
  next
    case False
    with Pair rules show ?thesis by (simp add: read_readings_def group_reading_crawlable)
  qed
qed

text \<open>
  C22. Whether a page may be fetched is decided, and it is refused exactly when more than sixty-four paths can be
  reached from its own, or when some path reached from it in any order of the operations, with its query, meets a
  Disallow of the groups that name the token (of the star's where none does) that no matching Allow is as long as.
\<close>

theorem page_refused_exactly:
  "\<exists>r. robots_read resolve file token path = Some r \<and>
     (rr_crawlable r = Some False \<longleftrightarrow>
        more_than max_page_readings (reachable_paths (reading_operations resolve) (path_of path)) \<or>
        (\<exists>p \<in> reachable_paths (reading_operations resolve) (path_of path).
           refused_by (binding_rules file token) (matching_target (p @ query_of path))))"
proof -
  from matching_target_readings_closure [of resolve path] obtain res where res: "matching_target_readings resolve path = Some res"
    and c: "case res of
        Inl e \<Rightarrow> e = Too_many max_page_readings \<and> more_than max_page_readings (reachable_paths (reading_operations resolve) (path_of path))
      | Inr readings \<Rightarrow> readings \<noteq> [] \<and> hd readings = matching_target path \<and> distinct readings
          \<and> set readings = (\<lambda>p. matching_target (p @ query_of path)) ` reachable_paths (reading_operations resolve) (path_of path)
          \<and> \<not> more_than max_page_readings (reachable_paths (reading_operations resolve) (path_of path))" by blast
  show ?thesis
  proof (cases res)
    case (Inl e)
    with res c show ?thesis by (simp add: robots_read_def read_readings_def unread_robots_def)
  next
    case (Inr readings)
    with res c show ?thesis by (simp add: robots_read_def read_readings_crawlable list_ex_iff)
  qed
qed

end
