(* ===== verification/Rsl.thy ===== *)
theory Rsl
  imports Robots Money Ruling "HOL-Library.Product_Lexorder"
begin

section \<open>RSL licences\<close>

text \<open>
  The RSL part of \<open>crates/commonmeasure-harness/src/declarations.rs\<close>: the document as its reader's events are
  folded, the \<open><content>\<close> entries that govern a page, and the terms their licences state for AI input. The events
  are \<open>quick_xml\<close>'s with white space at the ends of text taken off, their faults by kind; \<open>serde_json\<close> is the
  parameter \<open>json_of\<close>, which gives a value's text; the URL parser is the parameter \<open>parse_url\<close>. Containment of
  scopes is compared with inclusion of the targets they match.
\<close>

subsection \<open>The document\<close>

record rsl_amount =
  am_currency :: string
  am_decimal :: string

record rsl_payment =
  py_kind :: "string option"
  py_amount :: "rsl_amount option"
  py_standard :: "string option"
  py_custom :: "string option"
  py_accepts :: "string option"

record rsl_reporting =
  rp_kind :: string
  rp_profile :: string
  rp_endpoint :: "string option"
  rp_config :: "string option"

record rsl_licence =
  li_permits_usage :: "string list option"
  li_prohibits_usage :: "string list option"
  li_payments :: "rsl_payment list"
  li_reporting :: "rsl_reporting list"
  li_restricted :: bool

record rsl_content =
  co_url :: string
  co_server :: "string option"
  co_licences :: "rsl_licence list"

definition default_payment :: rsl_payment where
  "default_payment = \<lparr>py_kind = None, py_amount = None, py_standard = None, py_custom = None, py_accepts = None\<rparr>"

definition default_licence :: rsl_licence where
  "default_licence = \<lparr>li_permits_usage = None, li_prohibits_usage = None, li_payments = [], li_reporting = [], li_restricted = False\<rparr>"

definition needs_settlement :: "rsl_payment \<Rightarrow> bool" where
  "needs_settlement p = (case py_kind p of
      Some kind \<Rightarrow> kind \<noteq> ''free'' \<and> kind \<noteq> ''attribution''
    | None \<Rightarrow> py_amount p \<noteq> None \<or> py_standard p \<noteq> None \<or> py_custom p \<noteq> None \<or> py_accepts p \<noteq> None)"

definition payment :: "rsl_licence \<Rightarrow> rsl_payment option" where
  "payment licence = (case find needs_settlement (li_payments licence) of
      Some p \<Rightarrow> Some p
    | None \<Rightarrow> (case li_payments licence of [] \<Rightarrow> None | p # _ \<Rightarrow> Some p))"

definition price :: "rsl_payment \<Rightarrow> money option" where
  "price p = (case py_amount p of
      None \<Rightarrow> None
    | Some amount \<Rightarrow> from_decimal_str (am_currency amount) (trim_text (am_decimal amount)))"

subsection \<open>Reading it\<close>

text \<open>The reader's faults: a syntax fault carries the parser's own words.\<close>

datatype xml_error =
    Syntax string
  | Missing_end_tag
  | Unmatched_end_tag
  | Mismatched_end_tag
  | Missing_decl_version
  | Other_ill_formed
  | Invalid_attr
  | Xml_encoding
  | Xml_escape
  | Xml_namespace
  | Xml_io

fun xml_fault_kind :: "xml_error \<Rightarrow> string" where
  "xml_fault_kind (Syntax words) = words"
| "xml_fault_kind Missing_end_tag = ''a start tag is not closed''"
| "xml_fault_kind Unmatched_end_tag = ''an end tag matches no open tag''"
| "xml_fault_kind Mismatched_end_tag = ''an end tag does not match its start tag''"
| "xml_fault_kind Missing_decl_version = ''the XML declaration does not begin with its version''"
| "xml_fault_kind Other_ill_formed = ''the document is not well-formed''"
| "xml_fault_kind Invalid_attr = ''an attribute is not well-formed''"
| "xml_fault_kind Xml_encoding = ''the document is not in a readable encoding''"
| "xml_fault_kind Xml_escape = ''a character or entity reference is not valid''"
| "xml_fault_kind Xml_namespace = ''a namespace is not valid''"
| "xml_fault_kind Xml_io = ''the document could not be read''"

definition xml_fault :: "xml_error \<Rightarrow> nat \<Rightarrow> string" where
  "xml_fault error pos = ''not well-formed XML at byte '' @ show_nat pos @ '': '' @ xml_fault_kind error"

text \<open>An event as the loop uses it: an element by its local name with its readable attributes, each by its local
  name with its value where that can be normalised; text with the place after it, where it can be decoded. The end
  of the list is the end of the document.\<close>

type_synonym xml_attributes = "(string \<times> string option) list"

datatype xml_event =
    Start_element string xml_attributes
  | Xml_text "string option" nat
  | Xml_cdata string
  | End_element string
  | Other_event
  | Xml_failure xml_error nat

definition attribute :: "xml_attributes \<Rightarrow> string \<Rightarrow> string option" where
  "attribute attrs name = (case find (\<lambda>(key, _). key = name) attrs of Some (_, value) \<Rightarrow> value | None \<Rightarrow> None)"

definition or_default :: "string option \<Rightarrow> string" where
  "or_default s = (case s of Some t \<Rightarrow> t | None \<Rightarrow> [])"

record rsl_parse =
  rp_contents :: "rsl_content list"
  rp_content :: "rsl_content option"
  rp_licence :: "rsl_licence option"
  rp_payment :: "rsl_payment option"
  rp_current_reporting :: "rsl_reporting option"
  rp_reporting_body :: string
  rp_collecting :: "(string \<times> string option) option"
  rp_text :: string

definition rsl_start :: rsl_parse where
  "rsl_start = \<lparr>rp_contents = [], rp_content = None, rp_licence = None, rp_payment = None, rp_current_reporting = None,
     rp_reporting_body = [], rp_collecting = None, rp_text = []\<rparr>"

definition start_element :: "string \<Rightarrow> xml_attributes \<Rightarrow> rsl_parse \<Rightarrow> rsl_parse" where
  "start_element name attrs p =
     (if name = ''content''
      then p\<lparr>rp_content := Some \<lparr>co_url = or_default (attribute attrs ''url''), co_server = attribute attrs ''server'', co_licences = []\<rparr>\<rparr>
      else if name = ''license'' \<and> rp_content p \<noteq> None then p\<lparr>rp_licence := Some default_licence\<rparr>
      else if (name = ''permits'' \<or> name = ''prohibits'') \<and> rp_licence p \<noteq> None
      then p\<lparr>rp_text := [], rp_collecting := Some (name, attribute attrs ''type'')\<rparr>
      else if name = ''payment'' \<and> rp_licence p \<noteq> None
      then p\<lparr>rp_payment := Some (default_payment\<lparr>py_kind := attribute attrs ''type''\<rparr>)\<rparr>
      else if (name = ''amount'' \<or> name = ''standard'' \<or> name = ''custom'' \<or> name = ''accepts'') \<and> rp_payment p \<noteq> None
      then p\<lparr>rp_text := [], rp_collecting := Some (name, attribute attrs ''currency'')\<rparr>
      else if name = ''reporting'' \<and> rp_licence p \<noteq> None
      then p\<lparr>rp_current_reporting := Some \<lparr>rp_kind = or_default (attribute attrs ''type''), rp_profile = or_default (attribute attrs ''profile''),
               rp_endpoint = attribute attrs ''endpoint'', rp_config = None\<rparr>, rp_reporting_body := []\<rparr>
      else p)"

definition collect_text :: "string \<Rightarrow> rsl_parse \<Rightarrow> rsl_parse" where
  "collect_text value p = (if rp_collecting p \<noteq> None then p\<lparr>rp_text := rp_text p @ value\<rparr>
     else if rp_current_reporting p \<noteq> None then p\<lparr>rp_reporting_body := rp_reporting_body p @ value\<rparr> else p)"

definition collect_cdata :: "string \<Rightarrow> rsl_parse \<Rightarrow> rsl_parse" where
  "collect_cdata value p = (if rp_current_reporting p \<noteq> None then p\<lparr>rp_reporting_body := rp_reporting_body p @ value\<rparr>
     else if rp_collecting p \<noteq> None then p\<lparr>rp_text := rp_text p @ value\<rparr> else p)"

text \<open>\<open>split_whitespace\<close>.\<close>

lemma white_spaces_nonempty: "[] \<notin> set white_spaces"
  by (simp add: white_spaces_def)

function words_from :: "string \<Rightarrow> string \<Rightarrow> string list" where
  "words_from word [] = (if word = [] then [] else [word])"
| "words_from word (c # s) = (case strip_one white_spaces (c # s) of
      Some r \<Rightarrow> (if word = [] then [] else [word]) @ words_from [] r
    | None \<Rightarrow> words_from (word @ [c]) s)"
  by pat_completeness auto
termination
  by (relation "measure (\<lambda>(w, s). length s)") (auto dest!: strip_one_shorter [OF _ white_spaces_nonempty])

definition split_whitespace :: "string \<Rightarrow> string list" where
  "split_whitespace s = words_from [] s"

definition extended :: "string list option \<Rightarrow> string list \<Rightarrow> string list option" where
  "extended usage tokens = Some ((case usage of Some ts \<Rightarrow> ts | None \<Rightarrow> []) @ tokens)"

definition finish_usage :: "string \<Rightarrow> string option \<Rightarrow> string \<Rightarrow> rsl_licence \<Rightarrow> rsl_licence" where
  "finish_usage element kind text licence =
     (if kind = Some ''user'' \<or> kind = Some ''geo'' then licence\<lparr>li_restricted := True\<rparr>
      else if kind \<noteq> Some ''usage'' then licence
      else if element = ''permits'' then licence\<lparr>li_permits_usage := extended (li_permits_usage licence) (split_whitespace text)\<rparr>
      else licence\<lparr>li_prohibits_usage := extended (li_prohibits_usage licence) (split_whitespace text)\<rparr>)"

definition end_element :: "(string \<Rightarrow> string option) \<Rightarrow> string \<Rightarrow> rsl_parse \<Rightarrow> rsl_parse" where
  "end_element json_of name p =
     (if name = ''content''
      then (case rp_content p of None \<Rightarrow> p | Some c \<Rightarrow> p\<lparr>rp_content := None, rp_contents := rp_contents p @ [c]\<rparr>)
      else if name = ''license''
      then p\<lparr>rp_licence := None,
             rp_content := (case (rp_licence p, rp_content p) of
                 (Some l, Some c) \<Rightarrow> Some (c\<lparr>co_licences := co_licences c @ [l]\<rparr>) | _ \<Rightarrow> rp_content p)\<rparr>
      else if name = ''permits'' \<or> name = ''prohibits''
      then (case rp_collecting p of
              None \<Rightarrow> p
            | Some (_, kind) \<Rightarrow> p\<lparr>rp_collecting := None, rp_licence := map_option (finish_usage name kind (rp_text p)) (rp_licence p)\<rparr>)
      else if name = ''amount''
      then p\<lparr>rp_collecting := None,
             rp_payment := (case rp_collecting p of
                 None \<Rightarrow> rp_payment p
               | Some (_, cur) \<Rightarrow> map_option (\<lambda>y. y\<lparr>py_amount := Some \<lparr>am_currency = or_default cur, am_decimal = trim_text (rp_text p)\<rparr>\<rparr>) (rp_payment p))\<rparr>
      else if name = ''standard'' \<or> name = ''custom'' \<or> name = ''accepts''
      then p\<lparr>rp_collecting := None,
             rp_payment := (if rp_collecting p = None then rp_payment p
               else map_option (\<lambda>y. if name = ''standard'' then y\<lparr>py_standard := Some (trim_text (rp_text p))\<rparr>
                  else if name = ''custom'' then y\<lparr>py_custom := Some (trim_text (rp_text p))\<rparr>
                  else y\<lparr>py_accepts := Some (trim_text (rp_text p))\<rparr>) (rp_payment p))\<rparr>
      else if name = ''payment''
      then p\<lparr>rp_payment := None,
             rp_licence := (case rp_payment p of
                 None \<Rightarrow> rp_licence p
               | Some y \<Rightarrow> map_option (\<lambda>l. l\<lparr>li_payments := li_payments l @ [y]\<rparr>) (rp_licence p))\<rparr>
      else if name = ''reporting''
      then p\<lparr>rp_current_reporting := None,
             rp_licence := (case rp_current_reporting p of
                 None \<Rightarrow> rp_licence p
               | Some r \<Rightarrow>
                   (let body = trim_text (rp_reporting_body p); r = (if body = [] then r else r\<lparr>rp_config := json_of body\<rparr>)
                    in map_option (\<lambda>l. l\<lparr>li_reporting := li_reporting l @ [r]\<rparr>) (rp_licence p)))\<rparr>
      else p)"

fun rsl_events :: "(string \<Rightarrow> string option) \<Rightarrow> xml_event list \<Rightarrow> rsl_parse \<Rightarrow> string + rsl_parse" where
  "rsl_events json_of [] p = Inr p"
| "rsl_events json_of (event # events) p = (case event of
      Start_element name attrs \<Rightarrow> rsl_events json_of events (start_element name attrs p)
    | Xml_text value pos \<Rightarrow>
        (case value of
           None \<Rightarrow> Inl (''text is not decodable, at byte '' @ show_nat pos)
         | Some v \<Rightarrow> rsl_events json_of events (collect_text v p))
    | Xml_cdata v \<Rightarrow> rsl_events json_of events (collect_cdata v p)
    | End_element name \<Rightarrow> rsl_events json_of events (end_element json_of name p)
    | Other_event \<Rightarrow> rsl_events json_of events p
    | Xml_failure error pos \<Rightarrow> Inl (xml_fault error pos))"

definition parse_rsl :: "(string \<Rightarrow> string option) \<Rightarrow> xml_event list \<Rightarrow> string + rsl_content list" where
  "parse_rsl json_of events =
     (case rsl_events json_of events rsl_start of
        Inl fault \<Rightarrow> Inl fault
      | Inr p \<Rightarrow> (if rp_contents p = [] then Inl ''the RSL document declares no <content> element'' else Inr (rp_contents p)))"

subsection \<open>The terms for AI input\<close>

definition from_rsl_token :: "string \<Rightarrow> category list" where
  "from_rsl_token token =
     (if token = ''ai-train'' then [Train_ai] else if token = ''ai-input'' then [Ai_input]
      else if token = ''ai-index'' then [Ai_index] else if token = ''search'' then [Search_index]
      else if token = ''ai-all'' then [Train_ai, Ai_input, Ai_index] else if token = ''all'' then all_categories else [])"

definition token_specificity :: "string list \<Rightarrow> category \<Rightarrow> nat option" where
  "token_specificity tokens category =
     (let ranks = map (\<lambda>token. if token = ''all'' then 1 else 2) (filter (\<lambda>token. category \<in> set (from_rsl_token token)) tokens)
      in if ranks = [] then None else Some (Max (set ranks)))"

definition usage_specificity :: "string list option \<Rightarrow> category \<Rightarrow> nat option" where
  "usage_specificity usage category = (case usage of None \<Rightarrow> None | Some tokens \<Rightarrow> token_specificity tokens category)"

datatype ai_input_grant = By_name | Silent

definition names_ai_input :: "rsl_licence \<Rightarrow> bool" where
  "names_ai_input l \<longleftrightarrow> list_ex (\<lambda>usage. usage_specificity usage Ai_input \<noteq> None) [li_permits_usage l, li_prohibits_usage l]"

definition prohibits_ai_input :: "rsl_licence \<Rightarrow> bool" where
  "prohibits_ai_input l = (case usage_specificity (li_prohibits_usage l) Ai_input of
      None \<Rightarrow> False
    | Some prohibit \<Rightarrow> (case usage_specificity (li_permits_usage l) Ai_input of None \<Rightarrow> True | Some permit \<Rightarrow> permit \<le> prohibit))"

definition ai_input_granted :: "rsl_licence \<Rightarrow> bool \<Rightarrow> ai_input_grant option" where
  "ai_input_granted l silent_counts =
     (if li_restricted l then None
      else case li_permits_usage l of
        Some tokens \<Rightarrow> (if token_specificity tokens Ai_input \<noteq> None \<and> \<not> prohibits_ai_input l then Some By_name else None)
      | None \<Rightarrow> (if silent_counts then Some Silent else None))"

definition settles :: "rsl_licence \<Rightarrow> bool" where
  "settles l \<longleftrightarrow> list_ex needs_settlement (li_payments l)"

text \<open>\<open>min_by_key\<close> over whether it needs settlement and then the place: the first that needs none, else the first.\<close>

definition offers :: "rsl_content \<Rightarrow> (nat \<times> rsl_licence \<times> ai_input_grant) list" where
  "offers content = List.map_filter (\<lambda>(index, l). map_option (\<lambda>grant. (index, l, grant))
       (ai_input_granted l (\<not> list_ex names_ai_input (co_licences content))))
     (enumerate 0 (co_licences content))"

definition offer_key :: "nat \<times> rsl_licence \<times> ai_input_grant \<Rightarrow> bool \<times> nat" where
  "offer_key offer = (case offer of (index, l, _) \<Rightarrow> (settles l, index))"

definition min_offer :: "(nat \<times> rsl_licence \<times> ai_input_grant) list \<Rightarrow> (nat \<times> rsl_licence \<times> ai_input_grant) option" where
  "min_offer os = foldl (\<lambda>best offer. case best of
      None \<Rightarrow> Some offer
    | Some b \<Rightarrow> if offer_key offer < offer_key b then Some offer else Some b) None os"

definition governing_offer :: "rsl_content \<Rightarrow> (nat \<times> rsl_licence \<times> ai_input_grant) option" where
  "governing_offer content =
     (if list_ex prohibits_ai_input (co_licences content) then None else min_offer (offers content))"

record stated_terms =
  lt_statements :: "statement list"
  lt_payment :: "rsl_payment option"
  lt_payments :: "rsl_payment list"
  lt_offer :: "nat option"
  lt_restricted :: "nat list"
  lt_reporting :: "rsl_reporting list"
  lt_server :: "string option"

datatype term_verdict = Term_allows | Term_disallows | Term_silent

text \<open>What one licence says of a category in the loop over the licences.\<close>

definition licence_verdict :: "category \<Rightarrow> rsl_licence \<Rightarrow> term_verdict" where
  "licence_verdict category l =
     (case (usage_specificity (li_permits_usage l) category, usage_specificity (li_prohibits_usage l) category) of
        (Some permit, Some prohibit) \<Rightarrow>
          (if permit \<le> prohibit then Term_disallows else if li_restricted l then Term_disallows else Term_allows)
      | (Some _, None) \<Rightarrow> (if li_restricted l then Term_disallows else Term_allows)
      | (None, Some _) \<Rightarrow> Term_disallows
      | (None, None) \<Rightarrow>
          (if li_permits_usage l \<noteq> None then Term_disallows
           else if category = Ai_input \<and> li_restricted l \<and> settles l then Term_disallows else Term_silent))"

definition numbered :: "nat list \<Rightarrow> string" where
  "numbered indices = join_with '', '' (map (\<lambda>index. show_nat (index + 1)) indices)"

definition where_index :: "(rsl_licence \<Rightarrow> bool) \<Rightarrow> rsl_content \<Rightarrow> nat list" where
  "where_index P content = map fst (filter (\<lambda>(_, l). P l) (enumerate 0 (co_licences content)))"

definition rsl_statement :: "category \<Rightarrow> preference \<Rightarrow> string \<Rightarrow> statement" where
  "rsl_statement category preference detail =
     \<lparr>st_source = Rsl_licence, st_category = category, st_preference = preference, st_detail = detail\<rparr>"

definition offer_statement :: "string \<Rightarrow> nat \<times> rsl_licence \<times> ai_input_grant \<Rightarrow> statement" where
  "offer_statement licence_url offer = (case offer of (index, l, grant) \<Rightarrow>
     rsl_statement Ai_input Prefer_allow (case grant of
         By_name \<Rightarrow> licence_url @ '': permits usage '' @ category_label Ai_input
       | Silent \<Rightarrow> licence_url @ '': licence '' @ show_nat (index + 1) @ '' lists no usage it permits, so covers usage ''
           @ category_label Ai_input))"

definition category_statement :: "rsl_content \<Rightarrow> string \<Rightarrow> category \<Rightarrow> statement list" where
  "category_statement content licence_url category =
     (let allowed = list_ex (\<lambda>l. licence_verdict category l = Term_allows) (co_licences content);
          disallowed_by = where_index (\<lambda>l. licence_verdict category l = Term_disallows) content;
          prohibiting = (if category = Ai_input then where_index prohibits_ai_input content else []);
          permitting = filter (\<lambda>i. i \<notin> set disallowed_by)
            (where_index (\<lambda>l. usage_specificity (li_permits_usage l) category \<noteq> None) content)
      in if allowed \<and> prohibiting \<noteq> [] then
           [rsl_statement category Prefer_disallow (licence_url @ '': licence '' @ numbered prohibiting @ '' prohibits usage '' @
              category_label category @ '', which takes precedence over the permit of licence '' @ numbered permitting)]
         else if allowed then
           [rsl_statement category Prefer_allow (licence_url @ '': permits usage '' @ category_label category)]
         else if disallowed_by \<noteq> [] then
           [rsl_statement category Prefer_disallow (licence_url @ '': no licence permits usage '' @ category_label category @
              '' (licence '' @ numbered disallowed_by @ '')'')]
         else [])"

definition reporting_demands :: "rsl_content \<Rightarrow> rsl_licence option \<Rightarrow> rsl_reporting list" where
  "reporting_demands content offer = (case offer of
      Some l \<Rightarrow> li_reporting l
    | None \<Rightarrow> concat (map li_reporting (co_licences content)))"

definition licence_terms :: "rsl_content \<Rightarrow> string \<Rightarrow> stated_terms" where
  "licence_terms content licence_url =
     (let offer = governing_offer content;
          paying = (case offer of
              Some (_, l, _) \<Rightarrow> Some l
            | None \<Rightarrow> find (\<lambda>l. li_restricted l \<and> settles l) (co_licences content))
      in \<lparr>lt_statements = concat (map (\<lambda>category.
              (case offer of
                 Some o' \<Rightarrow> (if category = Ai_input then [offer_statement licence_url o'] else category_statement content licence_url category)
               | None \<Rightarrow> category_statement content licence_url category)) all_categories),
          lt_payment = (case paying of Some l \<Rightarrow> payment l | None \<Rightarrow> None),
          lt_payments = (case paying of Some l \<Rightarrow> (if 1 < length (li_payments l) then li_payments l else []) | None \<Rightarrow> []),
          lt_offer = map_option (\<lambda>(index, _). index + 1) offer,
          lt_restricted = map Suc (where_index li_restricted content),
          lt_reporting = reporting_demands content (map_option (\<lambda>(_, l, _). l) offer),
          lt_server = co_server content\<rparr>)"

subsection \<open>The answer on AI input\<close>

lemma no_usage [simp]: "usage_specificity None category = None"
  by (simp add: usage_specificity_def)

lemma listed_usage [simp]: "usage_specificity (Some tokens) category = token_specificity tokens category"
  by (simp add: usage_specificity_def)

lemma prohibits_disallows: "prohibits_ai_input l \<Longrightarrow> licence_verdict Ai_input l = Term_disallows"
  by (auto simp: prohibits_ai_input_def licence_verdict_def split: option.splits)

lemma allows_granted: "licence_verdict Ai_input l = Term_allows \<Longrightarrow> ai_input_granted l silent = Some By_name"
  by (cases "li_permits_usage l")
    (auto simp: licence_verdict_def ai_input_granted_def prohibits_ai_input_def split: option.splits if_splits)

lemma where_index_empty: "where_index P content = [] \<longleftrightarrow> \<not> list_ex P (co_licences content)"
proof -
  have "where_index P content = [] \<longleftrightarrow> (\<forall>l \<in> snd ` set (enumerate 0 (co_licences content)). \<not> P l)"
    by (auto simp: where_index_def filter_empty_conv)
  also have "snd ` set (enumerate 0 (co_licences content)) = set (co_licences content)"
    by (metis map_snd_enumerate set_map)
  finally show ?thesis by (simp add: list_ex_iff)
qed

lemma min_offer_min: "case min_offer os of
    None \<Rightarrow> os = []
  | Some b \<Rightarrow> b \<in> set os \<and> (\<forall>x \<in> set os. offer_key b \<le> offer_key x)"
proof (induction os rule: rev_induct)
  case (snoc x xs)
  have step: "min_offer (xs @ [x]) = (case min_offer xs of
      None \<Rightarrow> Some x | Some b \<Rightarrow> if offer_key x < offer_key b then Some x else Some b)"
    by (simp add: min_offer_def)
  show ?case
  proof (cases "min_offer xs")
    case None
    with snoc step show ?thesis by simp
  next
    case (Some b)
    with snoc have "b \<in> set xs" "\<forall>y \<in> set xs. offer_key b \<le> offer_key y" by simp_all
    with Some step show ?thesis by (auto simp: not_less intro: order_trans less_imp_le)
  qed
qed (simp add: min_offer_def)

text \<open>Some licence grants AI input: by name, or by its silence where none of the entry names it.\<close>

definition grants_ai_input :: "rsl_licence list \<Rightarrow> bool" where
  "grants_ai_input ls \<longleftrightarrow> list_ex (\<lambda>l. ai_input_granted l (\<not> list_ex names_ai_input ls) \<noteq> None) ls"

lemma offers_mem: "(i, l, g) \<in> set (offers content) \<longleftrightarrow>
    i < length (co_licences content) \<and> l = co_licences content ! i
      \<and> ai_input_granted l (\<not> list_ex names_ai_input (co_licences content)) = Some g"
  by (auto simp: offers_def List.map_filter_def in_set_enumerate_eq image_iff intro!: bexI [of _ "(i, l)"])

lemma some_indexed: "(\<exists>i l g. i < length xs \<and> l = xs ! i \<and> f l = Some g) \<longleftrightarrow> list_ex (\<lambda>l. f l \<noteq> None) xs"
  by (auto simp: list_ex_length)

lemma offers_empty: "offers content = [] \<longleftrightarrow> \<not> grants_ai_input (co_licences content)"
proof -
  have "offers content \<noteq> [] \<longleftrightarrow> (\<exists>i l g. (i, l, g) \<in> set (offers content))"
    by (metis list.set_intros(1) neq_Nil_conv prod_cases3 empty_iff list.set(1))
  also have "\<dots> \<longleftrightarrow> grants_ai_input (co_licences content)"
    unfolding offers_mem grants_ai_input_def by (rule some_indexed)
  finally show ?thesis by blast
qed

lemma governing_offer_None: "governing_offer content = None \<longleftrightarrow>
    list_ex prohibits_ai_input (co_licences content) \<or> \<not> grants_ai_input (co_licences content)"
proof -
  have "min_offer (offers content) = None \<longleftrightarrow> offers content = []"
    using min_offer_min [of "offers content"] by (cases "min_offer (offers content)") (auto simp: min_offer_def)
  then show ?thesis by (simp add: governing_offer_def offers_empty)
qed

definition refuses_ai_input :: "rsl_licence list \<Rightarrow> bool" where
  "refuses_ai_input ls \<longleftrightarrow> list_ex (\<lambda>l. licence_verdict Ai_input l = Term_disallows) ls"

definition ai_input_answer :: "rsl_licence list \<Rightarrow> effective" where
  "ai_input_answer ls =
     (if list_ex prohibits_ai_input ls then Effective_disallow
      else if grants_ai_input ls then Effective_allow
      else if refuses_ai_input ls then Effective_disallow else Effective_unknown)"

definition stated :: "statement list \<Rightarrow> category \<Rightarrow> effective" where
  "stated statements c = (case map_of (combine statements) c of Some e \<Rightarrow> e | None \<Rightarrow> Effective_unknown)"

lemma stated_combine: "stated statements c = combine_from Effective_unknown (map st_preference (filter (\<lambda>s. st_category s = c) statements))"
  by (cases c) (simp_all add: stated_def combine_def all_categories_def)

lemma category_statement_category: "list_all (\<lambda>s. st_category s = c) (category_statement content url c)"
  by (simp add: category_statement_def rsl_statement_def Let_def)

lemma licence_terms_ai_input: "filter (\<lambda>s. st_category s = Ai_input) (lt_statements (licence_terms content url))
    = (case governing_offer content of Some offer \<Rightarrow> [offer_statement url offer] | None \<Rightarrow> category_statement content url Ai_input)"
proof -
  have other: "filter (\<lambda>s. st_category s = Ai_input) (category_statement content url c) = (if c = Ai_input then category_statement content url c else [])" for c
    using category_statement_category [of c content url]
    by (auto simp: list_all_iff filter_empty_conv intro!: filter_True)
  have "st_category (offer_statement url offer) = Ai_input" for offer
    by (cases offer) (simp add: offer_statement_def rsl_statement_def)
  then show ?thesis
    by (cases "governing_offer content") (simp_all add: licence_terms_def all_categories_def other Let_def)
qed

lemma category_statement_answer: "combine_from Effective_unknown (map st_preference (category_statement content url Ai_input))
    = (if list_ex prohibits_ai_input (co_licences content) then Effective_disallow
       else if list_ex (\<lambda>l. licence_verdict Ai_input l = Term_allows) (co_licences content) then Effective_allow
       else if refuses_ai_input (co_licences content) then Effective_disallow else Effective_unknown)"
proof -
  have "list_ex prohibits_ai_input ls \<Longrightarrow> refuses_ai_input ls" for ls
    using prohibits_disallows by (auto simp: refuses_ai_input_def list_ex_iff)
  then show ?thesis
    by (auto simp: category_statement_def rsl_statement_def where_index_empty refuses_ai_input_def Let_def)
qed

lemma licence_terms_answer:
  "stated (lt_statements (licence_terms content url)) Ai_input = ai_input_answer (co_licences content)
     \<and> (lt_offer (licence_terms content url) \<noteq> None
          \<longleftrightarrow> grants_ai_input (co_licences content) \<and> \<not> list_ex prohibits_ai_input (co_licences content))"
proof -
  have "list_ex (\<lambda>l. licence_verdict Ai_input l = Term_allows) ls \<Longrightarrow> grants_ai_input ls" for ls
    using allows_granted by (fastforce simp: grants_ai_input_def list_ex_iff)
  note grants = this
  have answer: "stated (lt_statements (licence_terms content url)) Ai_input = ai_input_answer (co_licences content)"
  proof (cases "governing_offer content")
    case None
    with governing_offer_None [of content] grants [of "co_licences content"]
    show ?thesis by (auto simp: stated_combine licence_terms_ai_input category_statement_answer ai_input_answer_def)
  next
    case (Some offer)
    then have "\<not> list_ex prohibits_ai_input (co_licences content)" "grants_ai_input (co_licences content)"
      using governing_offer_None [of content] by auto
    with Some show ?thesis
      by (cases offer) (simp add: stated_combine licence_terms_ai_input ai_input_answer_def offer_statement_def rsl_statement_def)
  qed
  have "lt_offer (licence_terms content url) = None \<longleftrightarrow> governing_offer content = None"
    by (simp add: licence_terms_def Let_def)
  with answer governing_offer_None [of content] show ?thesis by (auto simp: conj_commute)
qed

text \<open>The offer taken: one that needs no settlement where there is one, and the first of those.\<close>

lemma governing_offer_best:
  assumes "governing_offer content = Some (i, l, g)"
  shows "l = co_licences content ! i \<and> i < length (co_licences content) \<and> \<not> prohibits_ai_input l
    \<and> (\<forall>j m. j < length (co_licences content) \<longrightarrow> m = co_licences content ! j
         \<longrightarrow> ai_input_granted m (\<not> list_ex names_ai_input (co_licences content)) \<noteq> None
         \<longrightarrow> (settles l, i) \<le> (settles m, j))"
proof -
  have np: "\<not> list_ex prohibits_ai_input (co_licences content)" and mo: "min_offer (offers content) = Some (i, l, g)"
    using assms by (auto simp: governing_offer_def split: if_splits)
  from mo min_offer_min [of "offers content"]
  have mem: "(i, l, g) \<in> set (offers content)" and least: "\<forall>x \<in> set (offers content). offer_key (i, l, g) \<le> offer_key x" by auto
  from mem have il: "i < length (co_licences content)" "l = co_licences content ! i" by (auto simp: offers_mem)
  moreover have "\<not> prohibits_ai_input l" using np il by (auto simp: list_ex_iff)
  moreover have "(settles l, i) \<le> (settles m, j)"
    if "j < length (co_licences content)" "m = co_licences content ! j" "ai_input_granted m (\<not> list_ex names_ai_input (co_licences content)) = Some h" for j m h
    using least that offers_mem [of j m h content] by (force simp: offer_key_def)
  ultimately show ?thesis by blast
qed

text \<open>Neither the order of the licences nor a repeated one matters.\<close>

lemma licence_order_does_not_matter:
  assumes "set (co_licences c) = set (co_licences d)"
  shows "stated (lt_statements (licence_terms c url)) Ai_input = stated (lt_statements (licence_terms d url')) Ai_input"
  using assms licence_terms_answer [of c url] licence_terms_answer [of d url']
  by (simp add: ai_input_answer_def grants_ai_input_def refuses_ai_input_def list_ex_iff)

text \<open>
  C26. What a licence document states of AI input is decided by its licences alone: Disallow where any of them
  prohibits it, else Allow where any grants it (by name, or by silence where none names it), else Disallow where
  any refuses it, and otherwise nothing; and an offer is taken exactly where something grants it and nothing
  prohibits it.
\<close>

theorem ai_input_is_decided_by_the_licences:
  "stated (lt_statements (licence_terms content url)) Ai_input = ai_input_answer (co_licences content)
     \<and> (lt_offer (licence_terms content url) \<noteq> None
          \<longleftrightarrow> grants_ai_input (co_licences content) \<and> \<not> list_ex prohibits_ai_input (co_licences content))"
  by (rule licence_terms_answer)

subsection \<open>Scopes\<close>

record scope =
  sc_form :: string
  sc_general :: string

definition scope_new :: "string \<Rightarrow> scope" where
  "scope_new form =
     (let (literal, anchored) = (case strip_suffix ''$'' form of Some l \<Rightarrow> (l, True) | None \<Rightarrow> (form, False));
          general = map (\<lambda>c. if c = CHR ''*'' then CHR '' '' else c) literal
      in \<lparr>sc_form = form, sc_general = (if anchored then general else general @ '' '')\<rparr>)"

definition scope_within :: "scope \<Rightarrow> scope \<Rightarrow> bool" where
  "scope_within inner outer = matches_form (sc_form outer) (sc_general inner)"

lemma general_glob: "sc_general (scope_new form) = map (\<lambda>c. if c = CHR ''*'' then CHR '' '' else c) (form_glob form)"
  by (auto simp: scope_new_def form_glob_def split: option.splits)

lemma form_of_scope [simp]: "sc_form (scope_new form) = form"
  by (simp add: scope_new_def Let_def split: option.splits)

lemma within_glob: "scope_within (scope_new inner) (scope_new outer)
    = glob (form_glob outer) (map (\<lambda>c. if c = CHR ''*'' then CHR '' '' else c) (form_glob inner))"
  by (simp add: scope_within_def matches_form_glob general_glob)

lemma glob_append: "glob (a @ b) t \<Longrightarrow> \<exists>u v. t = u @ v \<and> glob a u \<and> glob b v"
proof (induction a arbitrary: t)
  case (Cons c a)
  show ?case
  proof (cases "c = CHR ''*''")
    case True
    with Cons.prems obtain x y where xy: "t = x @ y" "glob (a @ b) y" by (auto simp: glob_star)
    with Cons.IH obtain u v where "y = u @ v" "glob a u" "glob b v" by blast
    with xy True have "t = (x @ u) @ v" "glob (c # a) (x @ u)" "glob b v" by (auto simp: glob_star)
    then show ?thesis by blast
  next
    case False
    with Cons.prems obtain t' where t': "t = c # t'" "glob (a @ b) t'" by (cases t) (auto simp: glob.simps(2))
    with Cons.IH obtain u v where "t' = u @ v" "glob a u" "glob b v" by blast
    with t' False have "t = (c # u) @ v" "glob (c # a) (c # u)" "glob b v" by (auto simp: glob.simps(2))
    then show ?thesis by blast
  qed
qed auto

lemma glob_starI: "glob p v \<Longrightarrow> glob (CHR ''*'' # p) (u @ v)"
  by (auto simp: glob_star)

text \<open>A pattern without a space that takes in the general target of another takes in its every target.\<close>

lemma glob_general_sound:
  "glob p (map (\<lambda>c. if c = CHR ''*'' then CHR '' '' else c) g) \<Longrightarrow> CHR '' '' \<notin> set p \<Longrightarrow> glob g t \<Longrightarrow> glob p t"
proof (induction p arbitrary: g t)
  case (Cons c p)
  show ?case
  proof (cases "c = CHR ''*''")
    case True
    with Cons.prems obtain u v where uv: "map (\<lambda>c. if c = CHR ''*'' then CHR '' '' else c) g = u @ v" "glob p v" by (auto simp: glob_star)
    then obtain g1 g2 where g: "g = g1 @ g2" "map (\<lambda>c. if c = CHR ''*'' then CHR '' '' else c) g2 = v"
      by (auto simp: map_eq_append_conv)
    with Cons.prems(3) obtain t1 t2 where "t = t1 @ t2" "glob g2 t2" using glob_append by blast
    moreover have "glob p t2" using Cons.IH [of g2 t2] uv g Cons.prems(2) \<open>glob g2 t2\<close> by simp
    ultimately show ?thesis using True by (auto intro: glob_starI)
  next
    case False
    with Cons.prems obtain d g' where g: "g = d # g'" "(if d = CHR ''*'' then CHR '' '' else d) = c"
      "glob p (map (\<lambda>c. if c = CHR ''*'' then CHR '' '' else c) g')" by (cases g) (auto simp: glob.simps(2))
    with Cons.prems(2) have d: "d = c" by (auto split: if_splits)
    with g Cons.prems(3) False obtain t' where "t = c # t'" "glob g' t'" by (cases t) (auto simp: glob.simps(2))
    with Cons.IH [of g' t'] g Cons.prems(2) False show ?thesis by (auto simp: glob.simps(2))
  qed
qed auto

text \<open>A pattern does not see a difference in characters it does not hold.\<close>

lemma glob_blind: "glob p (map f g) \<Longrightarrow> (\<And>c. f c = h c \<or> f c \<notin> set p) \<Longrightarrow> glob p (map h g)"
proof (induction p arbitrary: g)
  case (Cons c p)
  show ?case
  proof (cases "c = CHR ''*''")
    case True
    with Cons.prems obtain u v where uv: "map f g = u @ v" "glob p v" by (auto simp: glob_star)
    then obtain g1 g2 where g: "g = g1 @ g2" "map f g2 = v" by (auto simp: map_eq_append_conv)
    have "glob p (map h g2)" using Cons.IH [of g2] uv g Cons.prems(2) by auto
    with g True show ?thesis by (auto intro: glob_starI)
  next
    case False
    with Cons.prems obtain d g' where g: "g = d # g'" "f d = c" "glob p (map f g')" by (cases g) (auto simp: glob.simps(2))
    have "h d = c" using Cons.prems(2) [of d] g(2) by auto
    moreover have "glob p (map h g')" using Cons.IH [of g'] g Cons.prems(2) by auto
    ultimately show ?thesis using g False by (auto simp: glob.simps(2))
  qed
qed simp

lemma glob_filled: "x \<noteq> CHR ''*'' \<Longrightarrow> glob g (map (\<lambda>c. if c = CHR ''*'' then x else c) g)"
proof (induction g)
  case (Cons c g)
  then have "glob g (map (\<lambda>c. if c = CHR ''*'' then x else c) g)" by simp
  from glob_starI [OF this, of "[x]"] this show ?case by (cases "c = CHR ''*''") (simp_all add: glob.simps(2) [of c])
qed simp

lemma no_space_in_pattern: "CHR '' '' \<notin> set (matching_pattern p)"
proof -
  have "CHR '' '' \<notin> set (join_with ''*'' (map matching_target parts))" for parts
    using in_form_chars [OF matching_target_in_form, of "CHR '' ''"]
    by (induction parts rule: induct_list012) auto
  then show ?thesis by (auto simp: matching_pattern_def Let_def split: option.splits)
qed

lemma form_glob_chars: "c \<notin> set form \<Longrightarrow> c \<noteq> CHR ''*'' \<Longrightarrow> c \<notin> set (form_glob form)"
  by (auto simp: form_glob_def strip_suffix_Some_iff split: option.splits)

lemma within_sound:
  assumes "scope_within (scope_new inner) (scope_new outer)" "CHR '' '' \<notin> set outer" "matches_form inner t"
  shows "matches_form outer t"
  using assms glob_general_sound form_glob_chars [of "CHR '' ''" outer] by (auto simp: within_glob matches_form_glob)

lemma within_trans:
  assumes "scope_within (scope_new a) (scope_new b)" "scope_within (scope_new b) (scope_new c)" "CHR '' '' \<notin> set c"
  shows "scope_within (scope_new a) (scope_new c)"
  using within_sound [OF assms(2,3)] assms(1) by (simp add: scope_within_def)

lemma within_refl: "scope_within (scope_new a) (scope_new a)"
  using glob_filled [of "CHR '' ''" "form_glob a"] by (simp add: within_glob)

text \<open>The general target with its spaces read as a plain character is a target in the form.\<close>

lemma in_form_filled:
  assumes "plain_octet x"
  shows "in_form (map (\<lambda>c. if c = CHR ''*'' then x else c) (form_glob (matching_pattern p)))"
proof -
  have same: "map (\<lambda>c. if c = CHR ''*'' then x else c) (matching_target s) = matching_target s" for s
    using in_form_chars [OF matching_target_in_form, of "CHR ''*''" s] by (auto intro!: map_idI)
  have parts: "in_form (map (\<lambda>c. if c = CHR ''*'' then x else c) (join_with ''*'' (map matching_target ps)))" for ps
  proof (induction ps rule: induct_list012)
    case (3 s t ps)
    have "in_form (x # map (\<lambda>c. if c = CHR ''*'' then x else c) (join_with ''*'' (map matching_target (t # ps))))"
      using 3 assms by (auto intro: in_form_plain)
    with in_form_append [OF matching_target_in_form [of s]] show ?case by (simp add: same)
  qed (simp_all add: in_form_Nil same matching_target_in_form)
  have dollar: "CHR ''$'' \<notin> set (join_with ''*'' (map matching_target ps))" for ps
    using in_form_chars [OF matching_target_in_form, of "CHR ''$''"] by (induction ps rule: induct_list012) auto
  obtain literal anchored where "(case strip_suffix ''$'' p of Some stripped \<Rightarrow> (stripped, True) | None \<Rightarrow> (p, False)) = (literal, anchored)"
    by (rule prod.exhaust)
  then obtain ps where p: "matching_pattern p = join_with ''*'' (map matching_target ps) @ (if anchored then ''$'' else [])"
    by (simp add: matching_pattern_def)
  have "form_glob (matching_pattern p) = join_with ''*'' (map matching_target ps) @ (if anchored then [] else ''*'')"
  proof (cases anchored)
    case True
    then show ?thesis by (simp add: p form_glob_def strip_suffix_Some_iff split: option.splits)
  next
    case False
    with dollar [of ps] show ?thesis by (auto simp: p form_glob_def strip_suffix_Some_iff split: option.splits)
  qed
  then show ?thesis using parts in_form_append [OF parts [of ps], of "[x]"] in_form_plain [OF assms in_form_Nil] by simp
qed

text \<open>
  C25. Where some character a target can carry plainly does not occur in the outer pattern, the containment test is
  exact: one pattern lies within another precisely when every target it matches in the matching form is matched by
  the other.
\<close>

theorem containment_is_inclusion:
  assumes "plain_octet x" "x \<notin> set (matching_pattern outer)"
  shows "scope_within (scope_new (matching_pattern inner)) (scope_new (matching_pattern outer))
    \<longleftrightarrow> {t. in_form t \<and> matches_form (matching_pattern inner) t} \<subseteq> {t. matches_form (matching_pattern outer) t}"
proof
  assume "scope_within (scope_new (matching_pattern inner)) (scope_new (matching_pattern outer))"
  then show "{t. in_form t \<and> matches_form (matching_pattern inner) t} \<subseteq> {t. matches_form (matching_pattern outer) t}"
    using within_sound no_space_in_pattern by blast
next
  let ?i = "form_glob (matching_pattern inner)" and ?o = "form_glob (matching_pattern outer)"
  let ?t = "map (\<lambda>c. if c = CHR ''*'' then x else c) ?i"
  assume sub: "{t. in_form t \<and> matches_form (matching_pattern inner) t} \<subseteq> {t. matches_form (matching_pattern outer) t}"
  have x: "x \<noteq> CHR ''*''" using assms(1) plain_not_space by auto
  then have "matches_form (matching_pattern inner) ?t" using glob_filled by (simp add: matches_form_glob)
  with sub in_form_filled [OF assms(1)] have "glob ?o ?t" by (auto simp: matches_form_glob)
  moreover have "x \<notin> set ?o" using form_glob_chars assms(2) x by blast
  ultimately have "glob ?o (map (\<lambda>c. if c = CHR ''*'' then CHR '' '' else c) ?i)" using glob_blind by fastforce
  then show "scope_within (scope_new (matching_pattern inner)) (scope_new (matching_pattern outer))" by (simp add: within_glob)
qed

lemma containment_is_inclusion_witness:
  "scope_within (scope_new (matching_pattern ''/page'')) (scope_new (matching_pattern ''/*''))
    \<longleftrightarrow> {t. in_form t \<and> matches_form (matching_pattern ''/page'') t} \<subseteq> {t. matches_form (matching_pattern ''/*'') t}"
  by (rule containment_is_inclusion [of "CHR ''x''"]) code_simp+

subsection \<open>URLs\<close>

text \<open>What is read of a parsed URL: its path and query, and all before the path in \<open>canonical_url\<close>'s form.\<close>

record parsed_page =
  pu_origin :: string
  pu_path :: string
  pu_query :: "string option"

definition url_target :: "parsed_page \<Rightarrow> string" where
  "url_target u = pu_path u @ (case pu_query u of Some q \<Rightarrow> ''?'' @ q | None \<Rightarrow> [])"

definition request_target :: "(string \<Rightarrow> parsed_page option) \<Rightarrow> string \<Rightarrow> string" where
  "request_target parse_url url = (case parse_url url of Some u \<Rightarrow> url_target u | None \<Rightarrow> ''/'')"

definition matching_url :: "parsed_page \<Rightarrow> string" where
  "matching_url u = pu_origin u @ matching_target (url_target u)"

definition matching_url_readings :: "(string \<Rightarrow> string) \<Rightarrow> parsed_page \<Rightarrow> (too_many_readings + string list) option" where
  "matching_url_readings resolve u =
     map_option (res_map (map (\<lambda>reading. pu_origin u @ reading))) (matching_target_readings resolve (url_target u))"

definition starts_with :: "string \<Rightarrow> string \<Rightarrow> bool" where
  "starts_with s p \<longleftrightarrow> strip_prefix p s \<noteq> None"

definition absolute_scope :: "(string \<Rightarrow> parsed_page option) \<Rightarrow> string \<Rightarrow> string option \<Rightarrow> string \<Rightarrow> string option option" where
  "absolute_scope parse_url pattern page page_url =
     (case parse_url pattern of
        Some u \<Rightarrow>
          (let scope = matching_url u
           in if (case page of Some p \<Rightarrow> starts_with p scope | None \<Rightarrow> starts_with page_url pattern)
              then Some (Some (matching_target (request_target parse_url scope))) else None)
      | None \<Rightarrow> if starts_with page_url pattern then Some None else None)"

subsection \<open>The entries that govern\<close>

datatype selection_unread = Over_budget | None_governs

definition unread_reason :: "selection_unread \<Rightarrow> agent_text" where
  "unread_reason e = (case e of
      Over_budget \<Rightarrow> fixed_text ''choosing among the <content> entries that match this page takes more work than this edge does for one page''
    | None_governs \<Rightarrow> fixed_text ''<content> entries match this page and none of them could be ruled the narrowest'')"

type_synonym scoped_entry = "rsl_content \<times> string \<times> (bool \<times> nat) option"

abbreviation selection_budget :: u64 where "selection_budget \<equiv> 64000000"
abbreviation test_work :: u64 where "test_work \<equiv> 64"

definition octets :: "nat \<Rightarrow> u64" where
  "octets n = (if n < 2 ^ 64 then of_nat n else max_value)"

definition selection_work :: "scoped_entry list \<Rightarrow> scope list \<Rightarrow> u64" where
  "selection_work scoped scopes =
     (let read = foldl saturating_add 0 (map (\<lambda>(_, form, _). octets (length form)) scoped);
          others = octets (length scopes - 1);
          compared = foldl saturating_add 0 (map (\<lambda>s. octets (length (sc_general s) + length (sc_form s))) scopes);
          tests = saturating_mul (octets (length scopes)) others
      in saturating_add (saturating_add read (saturating_mul others compared)) (saturating_mul tests test_work))"

text \<open>The table of the tests: a scope lies within itself, and strictly within what does not lie within it.\<close>

definition strictly_within :: "scope \<Rightarrow> scope \<Rightarrow> bool" where
  "strictly_within inner outer \<longleftrightarrow>
     (inner = outer \<or> scope_within inner outer) \<and> \<not> (inner = outer \<or> scope_within outer inner)"

definition governing_scopes :: "scope list \<Rightarrow> scope list" where
  "governing_scopes scopes = filter (\<lambda>outer. \<not> list_ex (\<lambda>inner. strictly_within inner outer) scopes) scopes"

definition governing_forms :: "scoped_entry list \<Rightarrow> selection_unread + string list" where
  "governing_forms scoped =
     (let scopes = map scope_new (remdups_adj (sort (map (\<lambda>(_, form, _). form) scoped)))
      in if selection_budget < selection_work scoped scopes then Inl Over_budget
         else let governing = map sc_form (governing_scopes scopes)
              in if governing = [] then Inl None_governs else Inr governing)"

definition scoped_of :: "(string \<Rightarrow> parsed_page option) \<Rightarrow> string \<Rightarrow> string option \<Rightarrow> string \<Rightarrow> rsl_content \<Rightarrow> scoped_entry option" where
  "scoped_of parse_url target page page_url content =
     (let pattern = co_url content
      in if pattern = [] then None
         else if starts_with pattern ''/''
         then (let form = matching_pattern pattern in if matches_form form target then Some (content, form, None) else None)
         else case absolute_scope parse_url pattern page page_url of
           Some (Some form) \<Rightarrow> Some (content, form, Some (starts_with page_url pattern, length pattern))
         | _ \<Rightarrow> None)"

definition unscoped_of :: "(string \<Rightarrow> parsed_page option) \<Rightarrow> string option \<Rightarrow> string \<Rightarrow> rsl_content \<Rightarrow> (rsl_content \<times> (bool \<times> nat)) option" where
  "unscoped_of parse_url page page_url content =
     (let pattern = co_url content
      in if pattern = [] then Some (content, (False, 0))
         else if starts_with pattern ''/'' then None
         else case absolute_scope parse_url pattern page page_url of
           Some None \<Rightarrow> Some (content, (True, length pattern))
         | _ \<Rightarrow> None)"

text \<open>Of the absolute scopes of one form, the greatest written-form order.\<close>

definition first_absolute :: "scoped_entry list \<Rightarrow> string \<Rightarrow> (bool \<times> nat) option" where
  "first_absolute scoped = foldl (\<lambda>first (_, form, order). case order of
      None \<Rightarrow> first
    | Some o' \<Rightarrow> first(form \<mapsto> (case first form of None \<Rightarrow> o' | Some f \<Rightarrow> max f o'))) Map.empty scoped"

definition selected_scoped :: "scoped_entry list \<Rightarrow> string list \<Rightarrow> rsl_content list" where
  "selected_scoped scoped governing = map fst (filter (\<lambda>(_, form, order). form \<in> set governing \<and>
     (order = None \<or> first_absolute scoped form = order)) scoped)"

definition combined :: "rsl_content \<Rightarrow> rsl_content list \<Rightarrow> rsl_content" where
  "combined first rest = foldl (\<lambda>c content. c\<lparr>co_server := (case co_server c of Some s \<Rightarrow> Some s | None \<Rightarrow> co_server content),
     co_licences := co_licences c @ co_licences content\<rparr>) first rest"

definition content_for_reading ::
  "(string \<Rightarrow> parsed_page option) \<Rightarrow> rsl_content list \<Rightarrow> string \<Rightarrow> string option \<Rightarrow> string \<Rightarrow> selection_unread + rsl_content option" where
  "content_for_reading parse_url contents target page page_url =
     (let scoped = List.map_filter (scoped_of parse_url target page page_url) contents;
          unscoped = List.map_filter (unscoped_of parse_url page page_url) contents
      in if scoped = [] \<and> unscoped = [] then Inr None
         else res_bind
           (if scoped = []
            then Inr (map fst (filter (\<lambda>(_, order). order = Max (set (map snd unscoped))) unscoped))
            else res_map (selected_scoped scoped) (governing_forms scoped))
           (\<lambda>selected. case selected of
              [] \<Rightarrow> Inl None_governs
            | first # rest \<Rightarrow> Inr (Some (combined first rest))))"

text \<open>The first reading that selects an entry, or that is unread.\<close>

fun first_selected :: "(nat \<Rightarrow> string \<Rightarrow> selection_unread + rsl_content option) \<Rightarrow> nat \<Rightarrow> string list \<Rightarrow> selection_unread + rsl_content option" where
  "first_selected select index [] = Inr None"
| "first_selected select index (target # targets) = (case select index target of
      Inr None \<Rightarrow> first_selected select (Suc index) targets
    | answer \<Rightarrow> answer)"

definition content_for ::
  "(string \<Rightarrow> string) \<Rightarrow> (string \<Rightarrow> parsed_page option) \<Rightarrow> rsl_content list \<Rightarrow> string \<Rightarrow> (selection_unread + rsl_content option) option" where
  "content_for resolve parse_url contents page_url =
     (let target = request_target parse_url page_url
      in case matching_target_readings resolve target of
           None \<Rightarrow> None
         | Some readings \<Rightarrow>
             (let targets = (case readings of Inl _ \<Rightarrow> [matching_target target] | Inr ts \<Rightarrow> ts);
                  pages = (case parse_url page_url of
                      None \<Rightarrow> []
                    | Some page \<Rightarrow> (case matching_url_readings resolve page of
                        Some (Inr ps) \<Rightarrow> ps | _ \<Rightarrow> [matching_url page]))
              in Some (first_selected (\<lambda>index target. content_for_reading parse_url contents target
                   (if index < length pages then Some (pages ! index) else None) page_url) 0 targets)))"

subsection \<open>Some entry governs\<close>

definition forms_of :: "scoped_entry list \<Rightarrow> string set" where
  "forms_of scoped = (\<lambda>(_, form, _). form) ` set scoped"

definition no_spaces :: "scoped_entry list \<Rightarrow> bool" where
  "no_spaces scoped \<longleftrightarrow> (\<forall>form \<in> forms_of scoped. CHR '' '' \<notin> set form)"

definition narrower :: "string \<Rightarrow> string \<Rightarrow> bool" where
  "narrower inner outer \<longleftrightarrow> scope_within (scope_new inner) (scope_new outer) \<and> \<not> scope_within (scope_new outer) (scope_new inner)"

lemma scope_new_eq: "scope_new a = scope_new b \<longleftrightarrow> a = b"
  by (metis form_of_scope)

lemma strictly_within_narrower: "strictly_within (scope_new a) (scope_new b) \<longleftrightarrow> narrower a b"
  using within_refl by (auto simp: strictly_within_def narrower_def scope_new_eq)

definition narrowest :: "scoped_entry list \<Rightarrow> string set" where
  "narrowest scoped = {form \<in> forms_of scoped. \<not> (\<exists>inner \<in> forms_of scoped. narrower inner form)}"

lemma narrowest_nonempty:
  assumes "no_spaces scoped" "scoped \<noteq> []"
  shows "narrowest scoped \<noteq> {}"
proof -
  let ?S = "forms_of scoped" and ?below = "\<lambda>f. {g \<in> forms_of scoped. scope_within (scope_new g) (scope_new f)}"
  have fin: "finite ?S" "?S \<noteq> {}" using assms(2) by (auto simp: forms_of_def)
  then obtain f where f: "f \<in> ?S" "\<And>g. g \<in> ?S \<Longrightarrow> card (?below f) \<le> card (?below g)"
    using ex_has_least_nat [of "\<lambda>f. f \<in> ?S" _ "\<lambda>f. card (?below f)"] by blast
  have "\<not> narrower g f" if g: "g \<in> ?S" for g
  proof
    assume n: "narrower g f"
    have "?below g \<subseteq> ?below f"
      using within_trans n f(1) assms(1) by (fastforce simp: narrower_def no_spaces_def)
    moreover have "f \<in> ?below f" "f \<notin> ?below g" using f(1) n within_refl by (auto simp: narrower_def)
    ultimately have "?below g \<subset> ?below f" by blast
    moreover have "finite (?below f)" using fin by simp
    ultimately have "card (?below g) < card (?below f)" by (rule psubset_card_mono [rotated])
    with f(2) [OF g] show False by simp
  qed
  with f(1) show ?thesis by (auto simp: narrowest_def)
qed

lemma filter_scopes:
  "set (map sc_form (governing_scopes (map scope_new fs))) = {f \<in> set fs. \<not> (\<exists>g \<in> set fs. narrower g f)}"
  by (simp add: governing_scopes_def filter_map list_ex_iff strictly_within_narrower o_def)

lemma governing_forms_narrowest:
  assumes "no_spaces scoped" "scoped \<noteq> []"
  shows "case governing_forms scoped of
      Inl e \<Rightarrow> e = Over_budget
    | Inr governing \<Rightarrow> set governing = narrowest scoped"
proof -
  let ?scopes = "map scope_new (remdups_adj (sort (map (\<lambda>(_, form, _). form) scoped)))"
  let ?g = "map sc_form (governing_scopes ?scopes)"
  have "set (remdups_adj (sort (map (\<lambda>(_, form, _). form) scoped))) = forms_of scoped" by (simp add: forms_of_def)
  then have "set ?g = narrowest scoped" unfolding filter_scopes by (simp add: narrowest_def)
  moreover from this have "?g \<noteq> []" using narrowest_nonempty [OF assms] by (metis list.set(1))
  ultimately show ?thesis unfolding governing_forms_def Let_def by simp
qed

lemma first_absolute_snoc: "first_absolute (scoped @ [(c, form, order)]) = (case order of
      None \<Rightarrow> first_absolute scoped
    | Some o' \<Rightarrow> (first_absolute scoped)(form \<mapsto> (case first_absolute scoped form of None \<Rightarrow> o' | Some f \<Rightarrow> max f o')))"
  by (simp add: first_absolute_def split: option.split)

lemma first_absolute_of: "first_absolute scoped form = Some o' \<Longrightarrow> \<exists>c. (c, form, Some o') \<in> set scoped"
proof (induction scoped arbitrary: o' rule: rev_induct)
  case (snoc x scoped)
  obtain c f order where x: "x = (c, f, order)" by (rule prod_cases3)
  show ?case
  proof (cases "order = None \<or> f \<noteq> form")
    case True
    with snoc x show ?thesis by (auto simp: first_absolute_snoc split: option.splits)
  next
    case False
    then obtain q where q: "order = Some q" "f = form" by auto
    show ?thesis
    proof (cases "first_absolute scoped form")
      case None
      with snoc.prems x q show ?thesis by (auto simp: first_absolute_snoc)
    next
      case (Some b)
      with snoc.prems x q have "o' = max b q" by (simp add: first_absolute_snoc)
      with snoc.IH [OF Some] x q show ?thesis by (auto simp: max_def)
    qed
  qed
qed (simp add: first_absolute_def)

lemma first_absolute_some: "(c, form, Some o') \<in> set scoped \<Longrightarrow> first_absolute scoped form \<noteq> None"
proof (induction scoped rule: rev_induct)
  case (snoc x scoped)
  obtain d f order where x: "x = (d, f, order)" by (rule prod_cases3)
  with snoc show ?case by (cases order) (auto simp: first_absolute_snoc)
qed simp

lemma selected_nonempty:
  assumes "form \<in> forms_of scoped" "form \<in> set governing"
  shows "selected_scoped scoped governing \<noteq> []"
proof -
  from assms(1) obtain c order where c: "(c, form, order) \<in> set scoped" by (auto simp: forms_of_def)
  have "\<exists>d q. (d, form, q) \<in> set scoped \<and> (q = None \<or> first_absolute scoped form = q)"
  proof (cases order)
    case None
    with c show ?thesis by auto
  next
    case (Some o')
    with c first_absolute_some obtain p where "first_absolute scoped form = Some p" by blast
    with first_absolute_of show ?thesis by metis
  qed
  with assms(2) show ?thesis by (auto simp: selected_scoped_def filter_empty_conv)
qed

lemma scoped_of_no_space: "scoped_of parse_url target page page_url content = Some (c, form, order) \<Longrightarrow> CHR '' '' \<notin> set form"
  using no_space_in_pattern in_form_chars [OF matching_target_in_form, of "CHR '' ''"]
  by (auto simp: scoped_of_def absolute_scope_def Let_def split: if_splits option.splits)

lemma map_filter_mem: "y \<in> set (List.map_filter f xs) \<longleftrightarrow> (\<exists>x \<in> set xs. f x = Some y)"
  by (force simp: List.map_filter_def)

lemma scoped_no_spaces: "no_spaces (List.map_filter (scoped_of parse_url target page page_url) contents)"
  using scoped_of_no_space by (fastforce simp: no_spaces_def forms_of_def map_filter_mem)

lemma content_for_reading_governs: "content_for_reading parse_url contents target page page_url \<noteq> Inl None_governs"
proof -
  let ?scoped = "List.map_filter (scoped_of parse_url target page page_url) contents"
  let ?unscoped = "List.map_filter (unscoped_of parse_url page page_url) contents"
  show ?thesis
  proof (cases "?scoped = []")
    case True
    have "filter (\<lambda>(_, order). order = Max (set (map snd ?unscoped))) ?unscoped \<noteq> []" if "?unscoped \<noteq> []"
    proof -
      from that have "Max (set (map snd ?unscoped)) \<in> set (map snd ?unscoped)" by (intro Max_in) simp_all
      then obtain c where "(c, Max (set (map snd ?unscoped))) \<in> set ?unscoped" by auto
      then show ?thesis by (auto simp: filter_empty_conv)
    qed
    with True show ?thesis by (auto simp: content_for_reading_def Let_def split: list.split)
  next
    case False
    note gf = governing_forms_narrowest [OF scoped_no_spaces False]
    show ?thesis
    proof (cases "governing_forms ?scoped")
      case (Inl e)
      with gf False show ?thesis by (simp add: content_for_reading_def Let_def)
    next
      case (Inr governing)
      with gf have g: "set governing = narrowest ?scoped" by simp
      obtain form where "form \<in> narrowest ?scoped" using narrowest_nonempty [OF scoped_no_spaces False] by blast
      with g have "selected_scoped ?scoped governing \<noteq> []"
        by (intro selected_nonempty [of form]) (auto simp: narrowest_def)
      with Inr False show ?thesis by (auto simp: content_for_reading_def Let_def split: list.split)
    qed
  qed
qed

lemma first_selected_governs: "(\<And>i t. select i t \<noteq> Inl None_governs) \<Longrightarrow> first_selected select index targets \<noteq> Inl None_governs"
proof (induction targets arbitrary: index)
  case (Cons t targets)
  then show ?case using Cons.prems [of index t] by (auto split: sum.split option.split)
qed simp


subsection \<open>A prohibition in a governing entry\<close>

lemma combined_licences: "co_licences (combined first rest) = concat (map co_licences (first # rest))"
proof -
  have "co_licences (foldl (\<lambda>c content. c\<lparr>co_server := (case co_server c of Some s \<Rightarrow> Some s | None \<Rightarrow> co_server content),
      co_licences := co_licences c @ co_licences content\<rparr>) c rest) = co_licences c @ concat (map co_licences rest)" for c
    by (induction rest arbitrary: c) simp_all
  then show ?thesis by (simp add: combined_def)
qed

lemma content_for_reading_selected:
  assumes "content_for_reading parse_url contents target page page_url = Inr (Some c)"
    and "entry \<in> set contents" "scoped_of parse_url target page page_url entry = Some (entry, form, None)"
    and "form \<in> narrowest (List.map_filter (scoped_of parse_url target page page_url) contents)"
  shows "set (co_licences entry) \<subseteq> set (co_licences c)"
proof -
  let ?scoped = "List.map_filter (scoped_of parse_url target page page_url) contents"
  have mem: "(entry, form, None) \<in> set ?scoped" using assms(2,3) by (auto simp: map_filter_mem)
  then have ne: "?scoped \<noteq> []" by auto
  from assms(1) ne obtain governing where g: "governing_forms ?scoped = Inr governing"
    by (cases "governing_forms ?scoped") (auto simp: content_for_reading_def Let_def)
  with governing_forms_narrowest [OF scoped_no_spaces ne] assms(4) have "form \<in> set governing" by simp
  with mem have sel: "entry \<in> set (selected_scoped ?scoped governing)" by (force simp: selected_scoped_def)
  then obtain d ds where ds: "selected_scoped ?scoped governing = d # ds" by (cases "selected_scoped ?scoped governing") auto
  with assms(1) ne g have "c = combined d ds" by (simp add: content_for_reading_def Let_def)
  with ds sel show ?thesis by (auto simp: combined_licences)
qed

text \<open>The narrowest matching scopes, by inclusion of patterns.\<close>

definition governs :: "(string \<Rightarrow> parsed_page option) \<Rightarrow> rsl_content list \<Rightarrow> string \<Rightarrow> string option \<Rightarrow> string \<Rightarrow> rsl_content \<Rightarrow> bool" where
  "governs parse_url contents target page page_url entry \<longleftrightarrow>
     (case scoped_of parse_url target page page_url entry of
        Some (_, form, None) \<Rightarrow> \<not> list_ex (\<lambda>other. case scoped_of parse_url target page page_url other of
            Some (_, inner, _) \<Rightarrow> narrower inner form | None \<Rightarrow> False) contents
      | _ \<Rightarrow> False)"

lemma governs_narrowest:
  assumes "entry \<in> set contents" "governs parse_url contents target page page_url entry"
  obtains form where "scoped_of parse_url target page page_url entry = Some (entry, form, None)"
    "form \<in> narrowest (List.map_filter (scoped_of parse_url target page page_url) contents)"
proof -
  from assms(2) obtain e form order where e: "scoped_of parse_url target page page_url entry = Some (e, form, order)"
    by (cases "scoped_of parse_url target page page_url entry") (auto simp: governs_def)
  with assms(2) have [simp]: "order = None" by (cases order) (auto simp: governs_def)
  from e assms(2) have no: "\<not> list_ex (\<lambda>other. case scoped_of parse_url target page page_url other of
      Some (_, inner, _) \<Rightarrow> narrower inner form | None \<Rightarrow> False) contents" by (simp add: governs_def)
  have own: "e = entry" using e by (auto simp: scoped_of_def Let_def split: if_splits option.splits)
  have "form \<in> narrowest (List.map_filter (scoped_of parse_url target page page_url) contents)"
    using e no assms(1) by (force simp: narrowest_def forms_of_def map_filter_mem list_ex_iff)
  with that [of form] e own show thesis by simp
qed

text \<open>
  C23. A prohibition is never lost in the selection: where an entry of the document written as a path governs a page,
  no matching entry lying strictly within it, and one of its licences prohibits AI input, the terms read for the page
  disallow AI input and take no offer, whatever the other entries and licences permit.
\<close>

theorem governing_prohibition_refuses:
  assumes "content_for_reading parse_url contents target page page_url = Inr (Some c)"
    and "entry \<in> set contents" "governs parse_url contents target page page_url entry"
    and "list_ex prohibits_ai_input (co_licences entry)"
  shows "stated (lt_statements (licence_terms c url)) Ai_input = Effective_disallow \<and> lt_offer (licence_terms c url) = None"
proof -
  obtain form where "scoped_of parse_url target page page_url entry = Some (entry, form, None)"
    "form \<in> narrowest (List.map_filter (scoped_of parse_url target page page_url) contents)"
    using governs_narrowest [OF assms(2,3)] by blast
  with assms(1,2) have "set (co_licences entry) \<subseteq> set (co_licences c)" by (intro content_for_reading_selected)
  with assms(4) have "list_ex prohibits_ai_input (co_licences c)" by (auto simp: list_ex_iff)
  then show ?thesis using licence_terms_answer [of c url] by (simp add: ai_input_answer_def)
qed

lemma governing_forms_example: "governing_forms [(c, ''/*'', None), (d, ''/p'', None)] = Inr [''/p'']"
proof -
  have "remdups_adj (sort [''/*'', ''/p'']) = [''/*'', ''/p'']" by code_simp
  moreover have "governing_scopes (map scope_new [''/*'', ''/p'']) = [scope_new ''/p'']" by code_simp
  moreover have "map scope_new [''/*'', ''/p''] = [\<lparr>sc_form = ''/*'', sc_general = ''/  ''\<rparr>, \<lparr>sc_form = ''/p'', sc_general = ''/p ''\<rparr>]" by code_simp
  then have "selection_work [(c, ''/*'', None), (d, ''/p'', None)] (map scope_new [''/*'', ''/p'']) = 142"
    by (simp add: selection_work_def octets_def saturating_add_def saturating_mul_def)
  ultimately show ?thesis by (simp add: governing_forms_def)
qed

definition catch_all_entry :: rsl_content where
  "catch_all_entry = \<lparr>co_url = ''/*'', co_server = None, co_licences = [default_licence\<lparr>li_permits_usage := Some [''ai-input'']\<rparr>]\<rparr>"

definition prohibiting_entry :: rsl_content where
  "prohibiting_entry = \<lparr>co_url = ''/p'', co_server = None, co_licences = [default_licence\<lparr>li_prohibits_usage := Some [''all'']\<rparr>]\<rparr>"

lemma governing_prohibition_refuses_witness:
  "\<exists>c. content_for_reading (\<lambda>_. None) [catch_all_entry, prohibiting_entry] ''/page'' None [] = Inr (Some c)
     \<and> stated (lt_statements (licence_terms c ''u'')) Ai_input = Effective_disallow"
proof -
  let ?cs = "[catch_all_entry, prohibiting_entry]"
  have "List.map_filter (scoped_of (\<lambda>_. None) ''/page'' None []) ?cs = [(catch_all_entry, ''/*'', None), (prohibiting_entry, ''/p'', None)]" by code_simp
  moreover have "selected_scoped [(catch_all_entry, ''/*'', None), (prohibiting_entry, ''/p'', None)] [''/p''] = [prohibiting_entry]" by code_simp
  ultimately have c: "content_for_reading (\<lambda>_. None) ?cs ''/page'' None [] = Inr (Some prohibiting_entry)"
    by (simp add: content_for_reading_def governing_forms_example combined_def)
  have g: "governs (\<lambda>_. None) ?cs ''/page'' None [] prohibiting_entry" by code_simp
  have p: "list_ex prohibits_ai_input (co_licences prohibiting_entry)" by code_simp
  from governing_prohibition_refuses [OF c _ g p] c show ?thesis by auto
qed

end
