(* ===== verification/Http.thy ===== *)
theory Http
  imports Robots Ruling
begin

section \<open>HTTP messages\<close>

text \<open>
  \<open>crates/commonmeasure-http/src/message.rs\<close>: header fields, the faults of a peer's bytes and how a model is told of
  them, the reader of requests and responses with its bounds, and the writer. A message is its bytes. A reader is the
  bytes that are still to come and how they end, at the end of the stream or in an error of the transport. The gzip
  decoder is the parameter \<open>unzip\<close>: what it gives out, and the fault it stops at if it stops at one.
\<close>

subsection \<open>Text\<close>

definition ascii :: "string \<Rightarrow> bool" where
  "ascii s \<longleftrightarrow> list_all (\<lambda>c. byte_of c < 128) s"

definition between :: "nat \<Rightarrow> char \<Rightarrow> nat \<Rightarrow> bool" where
  "between lo c hi \<longleftrightarrow> lo \<le> byte_of c \<and> byte_of c \<le> hi"

definition continuing :: "char \<Rightarrow> bool" where
  "continuing c \<longleftrightarrow> between 0x80 c 0xBF"

text \<open>The first character of well-formed UTF-8, and what follows it.\<close>

definition utf8_char :: "string \<Rightarrow> (string \<times> string) option" where
  "utf8_char s = (case s of
      [] \<Rightarrow> None
    | a # s1 \<Rightarrow>
        if byte_of a < 0x80 then Some ([a], s1)
        else (case s1 of
          [] \<Rightarrow> None
        | b # s2 \<Rightarrow>
            if between 0xC2 a 0xDF then (if continuing b then Some ([a, b], s2) else None)
            else (case s2 of
              [] \<Rightarrow> None
            | c # s3 \<Rightarrow>
                if between 0xE0 a 0xEF then
                  (if (if byte_of a = 0xE0 then between 0xA0 b 0xBF else if byte_of a = 0xED then between 0x80 b 0x9F else continuing b)
                      \<and> continuing c then Some ([a, b, c], s3) else None)
                else (case s3 of
                  [] \<Rightarrow> None
                | d # s4 \<Rightarrow>
                    if between 0xF0 a 0xF4 \<and>
                       (if byte_of a = 0xF0 then between 0x90 b 0xBF else if byte_of a = 0xF4 then between 0x80 b 0x8F else continuing b)
                       \<and> continuing c \<and> continuing d then Some ([a, b, c, d], s4) else None))))"

lemma utf8_char_append: "utf8_char s = Some (c, r) \<Longrightarrow> s = c @ r \<and> c \<noteq> []"
  by (auto simp: utf8_char_def split: list.splits if_splits)

lemma utf8_char_shorter: "utf8_char s = Some (c, r) \<Longrightarrow> length r < length s"
  by (drule utf8_char_append) auto

function utf8_chars :: "string \<Rightarrow> string list option" where
  "utf8_chars s = (if s = [] then Some [] else case utf8_char s of
      None \<Rightarrow> None
    | Some (c, r) \<Rightarrow> map_option (Cons c) (utf8_chars r))"
  by pat_completeness auto
termination
  by (relation "measure length") (auto dest: utf8_char_shorter)

declare utf8_chars.simps [simp del]

text \<open>\<open>std::str::from_utf8\<close> succeeds.\<close>

definition is_utf8 :: "string \<Rightarrow> bool" where
  "is_utf8 s \<longleftrightarrow> utf8_chars s \<noteq> None"

lemma ascii_utf8: "ascii s \<Longrightarrow> utf8_chars s = Some (map (\<lambda>c. [c]) s)"
  by (induction s) (subst utf8_chars.simps, simp add: ascii_def utf8_char_def)+

definition eq_ignore_case :: "string \<Rightarrow> string \<Rightarrow> bool" where
  "eq_ignore_case a b \<longleftrightarrow> to_lowercase a = to_lowercase b"

definition hex2 :: "nat \<Rightarrow> string" where
  "hex2 b = [hex_digit (b div 16), hex_digit (b mod 16)]"

abbreviation backslash :: char where "backslash \<equiv> CHR 0x5C"

definition render_opaque :: "string \<Rightarrow> string" where
  "render_opaque bytes = concat (map (\<lambda>c. if c = backslash then [backslash, backslash]
     else if 0x80 \<le> byte_of c then [backslash, CHR ''x'', hex_upper (byte_of c div 16), hex_upper (byte_of c mod 16)] else [c]) bytes)"

definition render_value :: "string \<Rightarrow> string \<times> bool" where
  "render_value bytes = (if is_utf8 bytes then (bytes, False) else (render_opaque bytes, True))"

abbreviation quoted_host_chars :: nat where "quoted_host_chars \<equiv> 64"

definition ellipsis :: string where
  "ellipsis = map char_of [0xE2, 0x80, 0xA6 :: nat]"

definition quoted_host :: "string \<Rightarrow> string" where
  "quoted_host host = (case utf8_chars host of
      Some cs \<Rightarrow> (if length cs \<le> quoted_host_chars then host else concat (take quoted_host_chars cs) @ ellipsis)
    | None \<Rightarrow> host)"

subsection \<open>Faults\<close>

datatype io_kind = Would_block | Timed_out | Connection_refused | Host_unreachable | Network_unreachable | Addr_not_available
  | Connection_reset | Connection_aborted | Broken_pipe | Unexpected_eof | Not_connected | Other_io

datatype tls_fault =
    Wrong_name "(string \<times> string list) option"
  | Untrusted
  | Other_tls

text \<open>An error is its chain of causes, the outermost first; each has the text it displays. A TLS fault is met as
  itself or inside an error of the transport.\<close>

datatype cause =
    Peer_error string string
  | Body_over_ceiling "nat option" bool
  | Opaque_value string
  | Io_error io_kind "tls_fault option" string
  | Tls_error tls_fault string
  | Said string

type_synonym http_error = "cause list"

definition max_header_bytes :: nat where "max_header_bytes = 64 * 1024"
definition max_body_bytes :: nat where "max_body_bytes = 32 * 1024 * 1024"

fun cause_text :: "cause \<Rightarrow> string" where
  "cause_text (Peer_error quoted named) = quoted"
| "cause_text (Body_over_ceiling declared decoded) =
     (if decoded then ''gzip body decodes past the size ceiling of '' @ show_nat max_body_bytes @ '' bytes''
      else case declared of
        Some n \<Rightarrow> ''body of '' @ show_nat n @ '' bytes exceeds size ceiling of '' @ show_nat max_body_bytes @ '' bytes; none of it was read''
      | None \<Rightarrow> ''body exceeds size ceiling of '' @ show_nat max_body_bytes @ '' bytes; reading stopped there'')"
| "cause_text (Opaque_value name) = ''the '' @ name @ '' header holds bytes that are not UTF-8 (obs-text), so its value is not read as text''"
| "cause_text (Io_error kind tls words) = words"
| "cause_text (Tls_error tls words) = words"
| "cause_text (Said words) = words"

fun cause_named :: "cause \<Rightarrow> string" where
  "cause_named (Peer_error quoted named) = named"
| "cause_named c = cause_text c"

definition named_chain :: "http_error \<Rightarrow> string" where
  "named_chain error = join_with '': '' (map cause_named error)"

definition error_text_full :: "http_error \<Rightarrow> string" where
  "error_text_full error = join_with '': '' (map cause_text error)"

fun tls_of :: "cause \<Rightarrow> tls_fault option" where
  "tls_of (Io_error kind tls words) = tls"
| "tls_of (Tls_error tls words) = Some tls"
| "tls_of _ = None"

datatype fault_kind = Fault_lookup | Fault_timeout | Fault_connect | Fault_closed | Fault_certificate_name
  | Fault_certificate_untrusted | Fault_tls | Fault_peer | Fault_body | Fault_other

fun fault_named :: "fault_kind \<Rightarrow> string" where
  "fault_named Fault_lookup = ''its name could not be resolved''"
| "fault_named Fault_timeout = ''it did not answer within the time allowed''"
| "fault_named Fault_connect = ''the connection was refused or could not be made''"
| "fault_named Fault_closed = ''the connection was closed before an answer was read''"
| "fault_named Fault_certificate_name = ''the certificate it presented is not valid for the name asked for''"
| "fault_named Fault_certificate_untrusted = ''the certificate it presented is not one this edge trusts''"
| "fault_named Fault_tls = ''the TLS session could not be started''"
| "fault_named Fault_peer = ''its answer could not be read as an HTTP response''"
| "fault_named Fault_body = ''its body could not be decoded''"
| "fault_named Fault_other = ''the request failed''"

fun io_fault_kind :: "io_kind \<Rightarrow> fault_kind" where
  "io_fault_kind Would_block = Fault_timeout"
| "io_fault_kind Timed_out = Fault_timeout"
| "io_fault_kind Connection_refused = Fault_connect"
| "io_fault_kind Host_unreachable = Fault_connect"
| "io_fault_kind Network_unreachable = Fault_connect"
| "io_fault_kind Addr_not_available = Fault_connect"
| "io_fault_kind Connection_reset = Fault_closed"
| "io_fault_kind Connection_aborted = Fault_closed"
| "io_fault_kind Broken_pipe = Fault_closed"
| "io_fault_kind Unexpected_eof = Fault_closed"
| "io_fault_kind Not_connected = Fault_closed"
| "io_fault_kind Other_io = Fault_other"

text \<open>The kind one cause settles, if it does.\<close>

fun cause_kind :: "cause \<Rightarrow> fault_kind option" where
  "cause_kind (Peer_error quoted named) = Some Fault_peer"
| "cause_kind c = (case tls_of c of
      Some (Wrong_name _) \<Rightarrow> Some Fault_certificate_name
    | Some Untrusted \<Rightarrow> Some Fault_certificate_untrusted
    | Some Other_tls \<Rightarrow> Some Fault_tls
    | None \<Rightarrow> (case c of Io_error kind _ _ \<Rightarrow> Some (io_fault_kind kind) | _ \<Rightarrow> None))"

text \<open>\<open>str::contains\<close>.\<close>

fun occurs_in :: "string \<Rightarrow> string \<Rightarrow> bool" where
  "occurs_in part [] = (part = [])"
| "occurs_in part (c # s) = (strip_prefix part (c # s) \<noteq> None \<or> occurs_in part s)"

definition text_kind :: "string \<Rightarrow> fault_kind" where
  "text_kind t =
     (if strip_prefix ''resolve '' t \<noteq> None \<or> occurs_in '' resolved to no addresses'' t then Fault_lookup
      else if occurs_in '' did not answer within the '' t \<or> occurs_in ''timed out before a connection was established'' t then Fault_timeout
      else if occurs_in ''no address to connect to'' t then Fault_connect
      else if occurs_in ''start tls session with '' t \<or> occurs_in ''is not a valid TLS server name'' t then Fault_tls
      else if occurs_in ''gzip body could not be decoded'' t \<or> occurs_in ''response content coding '' t then Fault_body
      else Fault_other)"

definition fault_kind_of :: "http_error \<Rightarrow> fault_kind" where
  "fault_kind_of error = (case List.map_filter cause_kind error of
      k # _ \<Rightarrow> k
    | [] \<Rightarrow> text_kind (error_text_full error))"

text \<open>\<open>str::replace\<close> of a text that is not empty.\<close>

function replace_all :: "string \<Rightarrow> string \<Rightarrow> string \<Rightarrow> string" where
  "replace_all from by [] = []"
| "replace_all from by (c # s) = (if from = [] then c # s else case strip_prefix from (c # s) of
      Some r \<Rightarrow> by @ replace_all from by r
    | None \<Rightarrow> c # replace_all from by s)"
  by pat_completeness auto
termination
  by (relation "measure (\<lambda>(f, b, s). length s)") (auto simp: strip_prefix_Some_iff dest: arg_cong [of _ _ length])

definition url_host_quoted :: "(string \<Rightarrow> string option) \<Rightarrow> string \<Rightarrow> string \<Rightarrow> string" where
  "url_host_quoted host_str text url = (case host_str url of
      None \<Rightarrow> text
    | Some host \<Rightarrow> (if quoted_host host = host then text else replace_all host (quoted_host host) text))"

definition certificate_name :: "string \<Rightarrow> string" where
  "certificate_name name =
     (let dns = (case strip_prefix ''DnsName(\"'' name of None \<Rightarrow> None | Some rest \<Rightarrow> strip_suffix ''\")'' rest);
          address = (case strip_prefix ''IpAddress('' name of None \<Rightarrow> None | Some rest \<Rightarrow> strip_suffix '')'' rest)
      in case dns of
           Some d \<Rightarrow> if d \<noteq> [] \<and> list_all (\<lambda>c. is_ascii_alphanumeric c \<or> c \<in> set ''.-_*'') d
             then ''DnsName(\"'' @ quoted_host d @ ''\")'' else ''a name of another kind''
         | None \<Rightarrow> (case address of
             Some a \<Rightarrow> if list_all (\<lambda>c. is_ascii_hexdigit c \<or> c \<in> set ''.:'') a then name else ''a name of another kind''
           | None \<Rightarrow> ''a name of another kind''))"

definition named_certificate :: "string \<Rightarrow> string list \<Rightarrow> string" where
  "named_certificate expected presented =
     (let names = map certificate_name presented;
          valid_for = (case names of
              [] \<Rightarrow> ''is not valid for any names (according to its subjectAltName extension)''
            | [one] \<Rightarrow> ''is only valid for '' @ one
            | _ \<Rightarrow> ''is only valid for '' @ join_with '', '' (butlast names) @ '' or '' @ last names)
      in ''certificate not valid for name \"'' @ quoted_host expected @ ''\"; certificate '' @ valid_for)"

text \<open>\<open>certificate_text\<close> is how the TLS library words a certificate that is not valid for a name.\<close>

definition named_fault :: "(string \<Rightarrow> string list \<Rightarrow> string) \<Rightarrow> (string \<Rightarrow> string option) \<Rightarrow> http_error \<Rightarrow> string \<Rightarrow> string" where
  "named_fault certificate_text host_str error url =
     url_host_quoted host_str (foldl (\<lambda>named c. case tls_of c of
         Some (Wrong_name (Some (expected, presented))) \<Rightarrow>
           replace_all (certificate_text expected presented) (named_certificate expected presented) named
       | _ \<Rightarrow> named) (named_chain error) error) url"

definition top_level_types :: "string list" where
  "top_level_types = [''application'', ''audio'', ''example'', ''font'', ''haptics'', ''image'', ''message'', ''model'',
     ''multipart'', ''text'', ''video'']"

definition known_codings :: "string list" where
  "known_codings = [''gzip'', ''x-gzip'', ''deflate'', ''compress'', ''x-compress'', ''br'', ''zstd'', ''dcb'']"

definition coding_named :: "string \<Rightarrow> string" where
  "coding_named coding = (case find (\<lambda>known. eq_ignore_case known coding) known_codings of
      Some known \<Rightarrow> known | None \<Rightarrow> ''an unrecognised coding'')"

definition media_type_named :: "string \<Rightarrow> string" where
  "media_type_named value = (case find (\<lambda>known. eq_ignore_case known (trim_text (hd (split_on (CHR ''/'') value)))) top_level_types of
      Some known \<Rightarrow> (if CHR ''/'' \<in> set value then known @ ''/'' @ ellipsis else ''an unrecognised media type'')
    | None \<Rightarrow> ''an unrecognised media type'')"

subsection \<open>Header fields\<close>

record header_field =
  hf_name :: string
  hf_value :: string
  hf_opaque :: "string option"

type_synonym headers = "header_field list"

definition text_field :: "string \<Rightarrow> string \<Rightarrow> header_field" where
  "text_field name value = \<lparr>hf_name = name, hf_value = value, hf_opaque = None\<rparr>"

definition named_field :: "string \<Rightarrow> header_field \<Rightarrow> bool" where
  "named_field name f \<longleftrightarrow> eq_ignore_case (hf_name f) name"

definition first_field :: "headers \<Rightarrow> string \<Rightarrow> header_field option" where
  "first_field hs name = find (named_field name) hs"

definition header_get :: "headers \<Rightarrow> string \<Rightarrow> string option" where
  "header_get hs name = map_option hf_value (first_field hs name)"

definition header_text :: "headers \<Rightarrow> string \<Rightarrow> http_error + string option" where
  "header_text hs name = (case first_field hs name of
      None \<Rightarrow> Inr None
    | Some f \<Rightarrow> (if hf_opaque f \<noteq> None then Inl [Opaque_value (hf_name f)] else Inr (Some (hf_value f))))"

definition field_bytes :: "header_field \<Rightarrow> string" where
  "field_bytes f = (case hf_opaque f of Some bytes \<Rightarrow> bytes | None \<Rightarrow> hf_value f)"

definition header_bytes :: "headers \<Rightarrow> string \<Rightarrow> string option" where
  "header_bytes hs name = map_option field_bytes (first_field hs name)"

definition header_all_bytes :: "headers \<Rightarrow> string \<Rightarrow> string list" where
  "header_all_bytes hs name = map field_bytes (filter (named_field name) hs)"

fun set_from :: "bool \<Rightarrow> string \<Rightarrow> string \<Rightarrow> headers \<Rightarrow> headers" where
  "set_from replaced name value [] = (if replaced then [] else [text_field name value])"
| "set_from replaced name value (f # hs) =
     (if \<not> named_field name f then f # set_from replaced name value hs
      else if replaced then set_from replaced name value hs
      else text_field name value # set_from True name value hs)"

definition header_set :: "headers \<Rightarrow> string \<Rightarrow> string \<Rightarrow> headers" where
  "header_set hs name value = set_from False name value hs"

definition header_append :: "headers \<Rightarrow> string \<Rightarrow> string \<Rightarrow> headers" where
  "header_append hs name value = hs @ [text_field name value]"

definition inbound_field :: "string \<Rightarrow> string \<Rightarrow> header_field" where
  "inbound_field name value = (if is_utf8 value then text_field name value
     else \<lparr>hf_name = name, hf_value = render_opaque value, hf_opaque = Some value\<rparr>)"

definition header_remove :: "headers \<Rightarrow> string \<Rightarrow> headers" where
  "header_remove hs name = filter (\<lambda>f. \<not> named_field name f) hs"

subsection \<open>Messages\<close>

record http_request =
  rq_method :: string
  rq_target :: string
  rq_headers :: headers
  rq_body :: string

record coded_body =
  cb_coding :: string
  cb_bytes :: string

record http_message =
  re_status :: u16
  re_reason :: string
  re_headers :: headers
  re_body :: string
  re_coded :: "coded_body option"

definition request_get :: "string \<Rightarrow> http_request" where
  "request_get target = \<lparr>rq_method = ''GET'', rq_target = target, rq_headers = [], rq_body = []\<rparr>"

definition request_post :: "string \<Rightarrow> string \<Rightarrow> string \<Rightarrow> http_request" where
  "request_post target body content_type =
     \<lparr>rq_method = ''POST'', rq_target = target, rq_headers = header_set [] ''Content-Type'' content_type, rq_body = body\<rparr>"

definition reason_for :: "u16 \<Rightarrow> string" where
  "reason_for status =
     (if status = 200 then ''OK'' else if status = 301 then ''Moved Permanently'' else if status = 302 then ''Found''
      else if status = 400 then ''Bad Request'' else if status = 402 then ''Payment Required'' else if status = 403 then ''Forbidden''
      else if status = 404 then ''Not Found'' else if status = 405 then ''Method Not Allowed'' else if status = 408 then ''Request Timeout''
      else if status = 409 then ''Conflict'' else if status = 422 then ''Unprocessable Content'' else if status = 500 then ''Internal Server Error''
      else if status = 502 then ''Bad Gateway'' else if status = 503 then ''Service Unavailable'' else [])"

definition response_new :: "u16 \<Rightarrow> string \<Rightarrow> http_message" where
  "response_new status body = \<lparr>re_status = status, re_reason = reason_for status, re_headers = [], re_body = body, re_coded = None\<rparr>"

definition response_text :: "u16 \<Rightarrow> string \<Rightarrow> http_message" where
  "response_text status body = (response_new status body)\<lparr>re_headers := header_set [] ''Content-Type'' ''text/plain; charset=utf-8''\<rparr>"

definition response_json :: "u16 \<Rightarrow> string \<Rightarrow> http_message" where
  "response_json status body = (response_new status body)\<lparr>re_headers := header_set [] ''Content-Type'' ''application/json''\<rparr>"

definition served_body :: "http_message \<Rightarrow> string" where
  "served_body r = (case re_coded r of Some c \<Rightarrow> cb_bytes c | None \<Rightarrow> re_body r)"

subsection \<open>Reading\<close>

definition with_context :: "string \<Rightarrow> http_error + 'a \<Rightarrow> http_error + 'a" where
  "with_context words r = (case r of Inl e \<Rightarrow> Inl (Said words # e) | Inr a \<Rightarrow> Inr a)"

text \<open>The end of a reader: the error it meets, or none at the end of the stream.\<close>

definition short_read :: "cause option \<Rightarrow> cause" where
  "short_read fin = (case fin of Some c \<Rightarrow> c | None \<Rightarrow> Io_error Unexpected_eof None ''failed to fill whole buffer'')"

definition read_exact :: "cause option \<Rightarrow> nat \<Rightarrow> string \<Rightarrow> http_error + string \<times> string" where
  "read_exact fin n s = (if n \<le> length s then Inr (take n s, drop n s) else Inl [short_read fin])"

abbreviation cr :: char where "cr \<equiv> CHR 0x0D"
abbreviation lf :: char where "lf \<equiv> CHR 0x0A"

fun line_from :: "cause option \<Rightarrow> nat \<Rightarrow> string \<Rightarrow> http_error + (string \<times> nat \<times> string)" where
  "line_from fin budget [] = Inl [Said ''read header byte'', short_read fin]"
| "line_from fin budget (c # s) = (case budget of
      0 \<Rightarrow> Inl [Said ''header block too large'']
    | Suc budget' \<Rightarrow> if c = lf then Inr ([], budget', s)
        else res_map (\<lambda>(line, b, r). (c # line, b, r)) (line_from fin budget' s))"

definition read_line_bounded :: "cause option \<Rightarrow> nat \<Rightarrow> string \<Rightarrow> http_error + (string \<times> nat \<times> string)" where
  "read_line_bounded fin budget s = res_map (\<lambda>(line, b, r). (if line \<noteq> [] \<and> last line = cr then butlast line else line, b, r))
     (line_from fin budget s)"

definition ascii_line :: "string \<Rightarrow> string \<Rightarrow> http_error + string" where
  "ascii_line line what = (if ascii line then Inr line
     else Inl [Peer_error (what @ '' '' @ debug_str (render_opaque line) @ '' is not ASCII'') (''the '' @ what @ '' is not ASCII'')])"

definition check_field_name :: "string \<Rightarrow> http_error + unit" where
  "check_field_name name = (if name = [] \<or> \<not> list_all is_tchar name
     then Inl [Peer_error (''header name '' @ debug_str name @ '' is not a token'') ''a header name is not a token''] else Inr ())"

text \<open>\<open>{byte:#04x}\<close>.\<close>

definition hex_byte :: "char \<Rightarrow> string" where
  "hex_byte c = ''0x'' @ hex2 (byte_of c)"

definition check_field :: "string \<Rightarrow> string \<Rightarrow> http_error + unit" where
  "check_field name value = res_bind (check_field_name name) (\<lambda>_.
     case find (\<lambda>c. byte_of c < 0x20 \<or> byte_of c = 0x7F) value of
       Some c \<Rightarrow> Inl [Said (''header '' @ name @ '' has control byte '' @ hex_byte c @ '' in its value'')]
     | None \<Rightarrow> Inr ())"

definition check_inbound_field :: "string \<Rightarrow> string \<Rightarrow> http_error + unit" where
  "check_inbound_field name value = res_bind (check_field_name name) (\<lambda>_.
     case find (\<lambda>c. byte_of c < 0x20 \<and> byte_of c \<noteq> 9 \<or> byte_of c = 0x7F) value of
       Some c \<Rightarrow> Inl [Peer_error (''header '' @ name @ '' has control byte '' @ hex_byte c @ '' in its value'')
           (''a header has control byte '' @ hex_byte c @ '' in its value'')]
     | None \<Rightarrow> Inr ())"

definition trim_ows :: "string \<Rightarrow> string" where
  "trim_ows value = rev (dropWhile sp_or_tab (rev (dropWhile sp_or_tab value)))"

definition header_line :: "string \<Rightarrow> http_error + header_field" where
  "header_line line = (case split_once (CHR '':'') line of
      None \<Rightarrow> Inl [Peer_error (''malformed header line '' @ debug_str (render_opaque line)) ''a header line has no colon'']
    | Some (name, value) \<Rightarrow>
        (if \<not> is_utf8 name
         then Inl [Peer_error (''header name '' @ debug_str (render_opaque name) @ '' is not a token'') ''a header name is not a token'']
         else res_map (\<lambda>_. inbound_field name (trim_ows value)) (check_inbound_field name (trim_ows value))))"

lemma line_from_shorter: "line_from fin budget s = Inr (l, b, r) \<Longrightarrow> length r < length s \<and> b < budget"
  by (induction fin budget s arbitrary: l b rule: line_from.induct)
    (auto simp: res_map_Inr_iff split: nat.splits if_splits, fastforce+)

lemma read_line_shorter: "read_line_bounded fin budget s = Inr (l, b, r) \<Longrightarrow> length r < length s \<and> b < budget"
  using line_from_shorter by (fastforce simp: read_line_bounded_def res_map_Inr_iff)

function read_headers :: "cause option \<Rightarrow> nat \<Rightarrow> headers \<Rightarrow> string \<Rightarrow> http_error + (headers \<times> nat \<times> string)" where
  "read_headers fin budget hs s = (case read_line_bounded fin budget s of
      Inl e \<Rightarrow> Inl e
    | Inr (line, budget', r) \<Rightarrow>
        (if line = [] then Inr (hs, budget', r)
         else case header_line line of
           Inl e \<Rightarrow> Inl e
         | Inr f \<Rightarrow> read_headers fin budget' (hs @ [f]) r))"
  by pat_completeness auto
termination
  by (relation "measure (\<lambda>(fin, b, hs, s). length s)") (auto dest: read_line_shorter)

declare read_headers.simps [simp del]

definition too_large_number :: cause where
  "too_large_number = Said ''number too large to fit in target type''"

text \<open>Every declared length must be the first one again.\<close>

fun declared_length :: "string option \<Rightarrow> string list \<Rightarrow> http_error + string option" where
  "declared_length declared [] = Inr declared"
| "declared_length declared (value # values) =
     (if declared \<noteq> None \<and> declared \<noteq> Some value
      then Inl [Peer_error (''message declares content-length '' @ debug_str (the declared) @ '' and '' @ debug_str value)
             ''the message declares two different content-length values'']
      else declared_length (Some value) values)"

definition values_of :: "headers \<Rightarrow> string \<Rightarrow> string list" where
  "values_of hs name = map hf_value (filter (named_field name) hs)"

definition content_length :: "headers \<Rightarrow> http_error + nat option" where
  "content_length hs = res_bind (declared_length None (values_of hs ''content-length'')) (\<lambda>declared. case declared of
      None \<Rightarrow> Inr None
    | Some value \<Rightarrow>
        (if value = [] \<or> \<not> all_digits value
         then Inl [Peer_error (''content-length '' @ debug_str value @ '' is not a decimal number'') ''the content-length is not a decimal number'']
         else if digits_val value < 2 ^ 64 then Inr (Some (digits_val value))
         else Inl [Said ''parse content-length'', too_large_number]))"

datatype coded = Coded_request | Coded_response bool

definition is_gzip :: "string \<Rightarrow> bool" where
  "is_gzip coding \<longleftrightarrow> eq_ignore_case coding ''gzip'' \<or> eq_ignore_case coding ''x-gzip''"

definition codings_of :: "headers \<Rightarrow> string list" where
  "codings_of hs = filter (\<lambda>coding. coding \<noteq> [] \<and> \<not> eq_ignore_case coding ''identity'')
     (map trim_ows (concat (map (split_on (CHR '','')) (values_of hs ''content-encoding''))))"

definition content_coding :: "headers \<Rightarrow> coded \<Rightarrow> http_error + string option" where
  "content_coding hs reading =
     (let codings = codings_of hs; named = (\<lambda>cs. join_with '', '' (map coding_named cs))
      in case reading of
           Coded_request \<Rightarrow>
             (if codings = [] then Inr None
              else Inl [Peer_error (''unsupported content encoding '' @ join_with '', '' codings)
                     (''unsupported content encoding '' @ named codings)])
         | Coded_response gzip_requested \<Rightarrow>
             (let unrequested = filter (\<lambda>coding. \<not> (gzip_requested \<and> is_gzip coding)) codings;
                  accepted = (if gzip_requested then ''gzip'' else ''identity'')
              in if codings = [] then Inr None
                 else if unrequested = [] then
                   (if length codings = 1 then Inr (Some ''gzip'')
                    else Inl [Peer_error (''response content coding '' @ join_with '', '' codings
                                @ '' applies gzip more than once, and this edge removes one gzip coding only'')
                             ''response content coding applies gzip more than once, and this edge removes one gzip coding only''])
                 else Inl [Peer_error
                        (''response content coding '' @ join_with '', '' unrequested @ '' was not requested: the request accepted '' @ accepted @ '' only'')
                        (''response content coding '' @ named unrequested @ '' was not requested: the request accepted '' @ accepted @ '' only'')]))"

definition over_ceiling :: "nat option \<Rightarrow> http_error" where
  "over_ceiling declared = [Body_over_ceiling declared False]"

type_synonym unzip = "string \<Rightarrow> string \<times> string option"

definition gunzip :: "unzip \<Rightarrow> string \<Rightarrow> http_error + string" where
  "gunzip unzip served = (case unzip served of
      (out, fault) \<Rightarrow>
        (if max_body_bytes < length out then Inl [Body_over_ceiling None True]
         else case fault of
           Some words \<Rightarrow> Inl [Said (''gzip body could not be decoded: '' @ words)]
         | None \<Rightarrow> Inr out))"

definition hex_digits_val :: "string \<Rightarrow> nat" where
  "hex_digits_val s = foldl (\<lambda>a c. 16 * a + hex_value c) 0 s"

text \<open>A chunk size line: its size, or why it has none.\<close>

definition chunk_size :: "string \<Rightarrow> http_error + nat" where
  "chunk_size size_line =
     (let size_hex = hd (split_on (CHR '';'') size_line)
      in if size_hex = [] \<or> \<not> list_all is_ascii_hexdigit size_hex
         then Inl [Peer_error (''chunk size '' @ debug_str (render_opaque size_line) @ '' is not hexadecimal'') ''a chunk size is not hexadecimal'']
         else if hex_digits_val size_hex < 2 ^ 64 then Inr (hex_digits_val size_hex)
         else Inl [Said (''parse chunk size '' @ debug_str size_hex), too_large_number])"

text \<open>The trailer, to its empty line.\<close>

function skip_trailer :: "cause option \<Rightarrow> nat \<Rightarrow> string \<Rightarrow> http_error + string" where
  "skip_trailer fin budget s = (case read_line_bounded fin budget s of
      Inl e \<Rightarrow> Inl e
    | Inr (line, budget', r) \<Rightarrow> (if line = [] then Inr r else skip_trailer fin budget' r))"
  by pat_completeness auto
termination
  by (relation "measure (\<lambda>(fin, b, s). length s)") (auto dest: read_line_shorter)

definition chunk_data :: "cause option \<Rightarrow> nat \<Rightarrow> string \<Rightarrow> http_error + string \<times> string" where
  "chunk_data fin n s = res_bind (with_context ''read chunk'' (read_exact fin n s)) (\<lambda>(chunk, r).
     res_bind (with_context ''read chunk terminator'' (read_exact fin 2 r)) (\<lambda>(crlf, r').
       if crlf = [cr, lf] then Inr (chunk, r') else Inl [Said ''chunk data is not terminated by CRLF'']))"

lemma read_exact_ok: "read_exact fin n s = Inr (a, r) \<longleftrightarrow> s = a @ r \<and> length a = n"
  by (auto simp: read_exact_def)

lemma with_context_ok [simp]: "with_context words m = Inr a \<longleftrightarrow> m = Inr a"
  by (cases m) (auto simp: with_context_def)

lemma chunk_data_ok: "chunk_data fin n s = Inr (chunk, r) \<longleftrightarrow> s = chunk @ [cr, lf] @ r \<and> length chunk = n"
  by (auto simp: chunk_data_def res_bind_Inr_iff read_exact_ok split: if_splits)

text \<open>\<open>body.len() + size\<close> past a \<open>usize\<close> is past the ceiling as well.\<close>

function read_chunked :: "cause option \<Rightarrow> nat \<Rightarrow> string \<Rightarrow> string \<Rightarrow> http_error + string \<times> string" where
  "read_chunked fin budget body s = (case read_line_bounded fin budget s of
      Inl e \<Rightarrow> Inl e
    | Inr (size_line, budget', r) \<Rightarrow>
        (case chunk_size size_line of
           Inl e \<Rightarrow> Inl e
         | Inr n \<Rightarrow>
             (if max_body_bytes < length body + n then Inl (over_ceiling None)
              else if n = 0 then res_map (Pair body) (skip_trailer fin budget' r)
              else case chunk_data fin n r of
                Inl e \<Rightarrow> Inl e
              | Inr (chunk, r') \<Rightarrow> read_chunked fin budget' (body @ chunk) r')))"
  by pat_completeness auto
termination
  by (relation "measure (\<lambda>(fin, b, body, s). length s)") (auto dest!: read_line_shorter simp: chunk_data_ok)

declare skip_trailer.simps [simp del] read_chunked.simps [simp del]

definition read_body :: "cause option \<Rightarrow> headers \<Rightarrow> bool \<Rightarrow> string \<Rightarrow> http_error + string \<times> string" where
  "read_body fin hs allow_eof_delimited s = res_bind (content_length hs) (\<lambda>declared.
     case header_get hs ''Transfer-Encoding'' of
       Some te \<Rightarrow>
         (if declared \<noteq> None then Inl [Said ''message declares both Content-Length and Transfer-Encoding'']
          else if eq_ignore_case te ''chunked'' then read_chunked fin max_header_bytes [] s
          else Inl [Peer_error (''unsupported transfer encoding '' @ te) ''unsupported transfer encoding: only chunked is read''])
     | None \<Rightarrow>
         (case declared of
            Some len \<Rightarrow> (if max_body_bytes < len then Inl (over_ceiling (Some len))
              else with_context ''read body'' (read_exact fin len s))
          | None \<Rightarrow>
              (if allow_eof_delimited then
                 (if max_body_bytes < length s then Inl (over_ceiling None)
                  else case fin of
                    Some c \<Rightarrow> Inl [Said ''read body to eof'', c]
                  | None \<Rightarrow> Inr (s, []))
               else Inr ([], s))))"

definition check_version :: "string \<Rightarrow> http_error + unit" where
  "check_version version = (if version \<noteq> ''HTTP/1.1'' \<and> version \<noteq> ''HTTP/1.0''
     then Inl [Peer_error (''unsupported version '' @ version) ''unsupported version: only HTTP/1.1 and HTTP/1.0 are spoken'']
     else Inr ())"

text \<open>\<open>splitn(3, ' ')\<close>.\<close>

definition split3 :: "string \<Rightarrow> string \<times> string option \<times> string option" where
  "split3 s = (case split_once (CHR '' '') s of
      None \<Rightarrow> (s, None, None)
    | Some (a, r) \<Rightarrow> (case split_once (CHR '' '') r of
        None \<Rightarrow> (a, Some r, None)
      | Some (b, c) \<Rightarrow> (a, Some b, Some c)))"

definition missing :: "string \<Rightarrow> 'a option \<Rightarrow> http_error + 'a" where
  "missing words a = (case a of None \<Rightarrow> Inl [Said words] | Some b \<Rightarrow> Inr b)"

definition read_request :: "cause option \<Rightarrow> string \<Rightarrow> http_error + http_request \<times> string" where
  "read_request fin s =
     res_bind (read_line_bounded fin max_header_bytes s) (\<lambda>(line, budget, s1).
     res_bind (ascii_line line ''request line'') (\<lambda>request_line.
     case split3 request_line of (method, target, version) \<Rightarrow>
     res_bind (missing ''missing target'' target) (\<lambda>target.
     res_bind (missing ''missing version'' version) (\<lambda>version.
     res_bind (check_version version) (\<lambda>_.
     res_bind (read_headers fin budget [] s1) (\<lambda>(hs, _, s2).
     res_bind (content_coding hs Coded_request) (\<lambda>_.
     res_map (\<lambda>(body, s3). (\<lparr>rq_method = method, rq_target = target, rq_headers = hs, rq_body = body\<rparr>, s3))
       (read_body fin hs False s2))))))))"

definition no_body_status :: "u16 \<Rightarrow> bool" where
  "no_body_status status \<longleftrightarrow> 100 \<le> status \<and> status < 200 \<or> status = 204 \<or> status = 304"

text \<open>Why \<open>parse::<u16>\<close> refuses digits: the first that is none, or at which the value no longer fits.\<close>

fun digits_fault :: "nat \<Rightarrow> string \<Rightarrow> string" where
  "digits_fault acc [] = ''invalid digit found in string''"
| "digits_fault acc (c # s) =
     (if \<not> is_ascii_digit c then ''invalid digit found in string''
      else if 2 ^ 16 \<le> 10 * acc + digit_val c then ''number too large to fit in target type''
      else digits_fault (10 * acc + digit_val c) s)"

definition parse_status :: "string \<Rightarrow> http_error + u16" where
  "parse_status t = (case parse_uint t of
      Some status \<Rightarrow> Inr status
    | None \<Rightarrow> Inl [Said ''parse status'', Said (if t = [] then ''cannot parse integer from empty string''
        else digits_fault 0 (if hd t = CHR ''+'' then tl t else t))])"

definition decode_served :: "unzip \<Rightarrow> string option \<Rightarrow> string \<Rightarrow> http_error + string \<times> coded_body option" where
  "decode_served unzip coding served = (case coding of
      Some c \<Rightarrow> (if served = [] then Inr (served, None)
        else res_map (\<lambda>body. (body, Some \<lparr>cb_coding = c, cb_bytes = served\<rparr>)) (gunzip unzip served))
    | None \<Rightarrow> Inr (served, None))"

definition read_response_to :: "unzip \<Rightarrow> cause option \<Rightarrow> bool \<Rightarrow> string \<Rightarrow> http_error + http_message \<times> string" where
  "read_response_to unzip fin gzip_requested s =
     res_bind (read_line_bounded fin max_header_bytes s) (\<lambda>(status_line, budget, s1).
     case split3 status_line of (version, status, reason) \<Rightarrow>
     res_bind (ascii_line version ''status line'') (\<lambda>version.
     res_bind (check_version version) (\<lambda>_.
     res_bind (missing ''missing status'' status) (\<lambda>status.
     res_bind (ascii_line status ''status line'') (\<lambda>status.
     res_bind (parse_status status) (\<lambda>status.
     res_bind (read_headers fin budget [] s1) (\<lambda>(hs, _, s2).
     res_bind (content_coding hs (Coded_response gzip_requested)) (\<lambda>coding.
     res_bind (if no_body_status status then Inr ([], s2) else read_body fin hs True s2) (\<lambda>(served, s3).
     res_map (\<lambda>(body, coded). (\<lparr>re_status = status,
          re_reason = (case reason of None \<Rightarrow> [] | Some r \<Rightarrow> if is_utf8 r then r else render_opaque r),
          re_headers = hs, re_body = body, re_coded = coded\<rparr>, s3))
       (decode_served unzip coding served))))))))))"

definition read_response :: "unzip \<Rightarrow> cause option \<Rightarrow> string \<Rightarrow> http_error + http_message \<times> string" where
  "read_response unzip fin s = read_response_to unzip fin True s"

subsection \<open>Writing\<close>

text \<open>What goes out is one text, or an error before the first byte of it.\<close>

definition crlf :: string where "crlf = [cr, lf]"

definition field_line :: "header_field \<Rightarrow> string" where
  "field_line f = hf_name f @ '': '' @ hf_value f @ crlf"

definition check_fields :: "headers \<Rightarrow> http_error + unit" where
  "check_fields hs = res_map (\<lambda>_. ()) (traverse (\<lambda>f. check_field (hf_name f) (hf_value f)) hs)"

definition write_request :: "http_request \<Rightarrow> http_error + string" where
  "write_request req = res_map (\<lambda>_.
     rq_method req @ '' '' @ rq_target req @ '' HTTP/1.1'' @ crlf
       @ concat (map field_line (rq_headers req))
       @ (if rq_body req \<noteq> [] \<and> \<not> list_ex (named_field ''content-length'') (rq_headers req)
          then ''Content-Length: '' @ show_nat (length (rq_body req)) @ crlf else [])
       @ crlf @ rq_body req) (check_fields (rq_headers req))"

definition framing_field :: "header_field \<Rightarrow> bool" where
  "framing_field f \<longleftrightarrow> named_field ''content-length'' f \<or> named_field ''transfer-encoding'' f \<or> named_field ''connection'' f"

definition write_response :: "http_message \<Rightarrow> http_error + string" where
  "write_response resp = res_map (\<lambda>_.
     ''HTTP/1.1 '' @ show_nat (unat (re_status resp)) @ '' '' @ re_reason resp @ crlf
       @ concat (map field_line (filter (\<lambda>f. \<not> framing_field f) (re_headers resp)))
       @ ''Content-Length: '' @ show_nat (length (served_body resp)) @ crlf
       @ ''Connection: close'' @ crlf @ crlf @ served_body resp) (check_fields (re_headers resp))"

subsection \<open>Bounds\<close>

lemma line_from_budget: "line_from fin budget s = Inr (l, b, r) \<Longrightarrow> s = l @ lf # r \<and> lf \<notin> set l \<and> b + length l + 1 = budget"
proof (induction fin budget s arbitrary: l b rule: line_from.induct)
  case (2 fin budget c s)
  then obtain budget' where [simp]: "budget = Suc budget'" by (cases budget) auto
  show ?case
  proof (cases "c = lf")
    case False
    with "2.prems" obtain l' where "line_from fin budget' s = Inr (l', b, r)" "l = c # l'" by (auto simp: res_map_Inr_iff)
    with "2.IH" [of budget' l' b] False show ?thesis by auto
  qed (use "2.prems" in auto)
qed simp

lemma line_from_line: "lf \<notin> set l \<Longrightarrow> length l < budget \<Longrightarrow> line_from fin budget (l @ lf # r) = Inr (l, budget - length l - 1, r)"
  by (induction l arbitrary: budget) (auto split: nat.split)

lemma read_line_budget: "read_line_bounded fin budget s = Inr (l, b, r) \<Longrightarrow> b + length l + 1 \<le> budget"
  by (auto simp: read_line_bounded_def res_map_Inr_iff dest!: line_from_budget)

lemma read_line_crlf:
  "lf \<notin> set l \<Longrightarrow> length l + 1 < budget \<Longrightarrow> read_line_bounded fin budget (l @ crlf @ r) = Inr (l, budget - length l - 2, r)"
  using line_from_line [of "l @ [cr]" budget fin r] by (simp add: read_line_bounded_def crlf_def)

definition field_size :: "header_field \<Rightarrow> nat" where
  "field_size f = length (hf_name f) + length (field_bytes f)"

lemma trim_ows_le: "length (trim_ows s) \<le> length s"
  by (simp add: trim_ows_def) (metis length_dropWhile_le length_rev order_trans)

lemma header_line_size: "header_line line = Inr f \<Longrightarrow> field_size f \<le> length line"
  using trim_ows_le
  by (fastforce simp: header_line_def inbound_field_def text_field_def field_size_def field_bytes_def res_map_Inr_iff
      split: option.splits if_splits dest!: split_once_Some intro: le_SucI)

lemma read_headers_size: "read_headers fin budget hs s = Inr (hs', b, r)
    \<Longrightarrow> sum_list (map field_size hs') + b \<le> sum_list (map field_size hs) + budget"
proof (induction fin budget hs s rule: read_headers.induct)
  case (1 fin budget hs s)
  then obtain line budget' r' where l: "read_line_bounded fin budget s = Inr (line, budget', r')"
    by (subst (asm) (2) read_headers.simps) (auto split: sum.splits)
  note lb = read_line_budget [OF l]
  show ?case
  proof (cases "line = []")
    case True
    with 1(2) l lb show ?thesis by (subst (asm) read_headers.simps) simp
  next
    case False
    with 1(2) l obtain f where f: "header_line line = Inr f" "read_headers fin budget' (hs @ [f]) r' = Inr (hs', b, r)"
      by (subst (asm) read_headers.simps) (auto split: sum.splits)
    from 1(1) [OF l refl refl False f] header_line_size [OF f(1)] lb show ?thesis by simp
  qed
qed

lemma read_chunked_size: "read_chunked fin budget body s = Inr (b, r) \<Longrightarrow> length b \<le> max_body_bytes"
proof (induction fin budget body s rule: read_chunked.induct)
  case (1 fin budget body s)
  then obtain line budget' r' n where l: "read_line_bounded fin budget s = Inr (line, budget', r')" "chunk_size line = Inr n"
    by (subst (asm) (2) read_chunked.simps) (auto split: sum.splits)
  have n: "\<not> max_body_bytes < length body + n" using 1(2) l by (subst (asm) read_chunked.simps) (auto split: if_splits)
  show ?case
  proof (cases "n = 0")
    case True
    with 1(2) l n show ?thesis by (subst (asm) read_chunked.simps) (auto simp: res_map_Inr_iff)
  next
    case False
    with 1(2) l n obtain chunk r'' where c: "chunk_data fin n r' = Inr (chunk, r'')" "read_chunked fin budget' (body @ chunk) r'' = Inr (b, r)"
      by (subst (asm) read_chunked.simps) (auto split: sum.splits)
    from 1(1) [OF l(1) refl refl l(2) n False c(1) refl c(2)] show ?thesis .
  qed
qed

lemma read_body_size: "read_body fin hs eof s = Inr (b, r) \<Longrightarrow> length b \<le> max_body_bytes"
  by (auto simp: read_body_def res_bind_Inr_iff read_exact_ok dest: read_chunked_size split: option.splits if_splits)

lemma gunzip_size: "gunzip unzip served = Inr b \<Longrightarrow> length b \<le> max_body_bytes"
  by (auto simp: gunzip_def split: prod.splits if_splits option.splits)

lemma decode_served_ok: "decode_served unzip coding served = Inr (body, coded)
    \<Longrightarrow> (case coded of None \<Rightarrow> body = served | Some c \<Rightarrow> cb_bytes c = served \<and> gunzip unzip served = Inr body)"
  by (auto simp: decode_served_def res_map_Inr_iff split: option.splits if_splits)

lemma read_response_parts:
  assumes "read_response_to unzip fin gz s = Inr (m, rest)"
  obtains line budget s1 budget' s2 coding where
    "read_line_bounded fin max_header_bytes s = Inr (line, budget, s1)"
    "read_headers fin budget [] s1 = Inr (re_headers m, budget', s2)"
    "(if no_body_status (re_status m) then Inr ([], s2) else read_body fin (re_headers m) True s2) = Inr (served_body m, rest)"
    "content_coding (re_headers m) (Coded_response gz) = Inr coding"
    "decode_served unzip coding (served_body m) = Inr (re_body m, re_coded m)"
proof -
  note thesis = that
  show thesis
    using assms unfolding read_response_to_def
  proof (elim res_bindE res_mapE pair_caseE, goal_cases)
    case (1 l line r budget s1 version x status reason version' u status' status'' st h hs r2 b s2 coding q served s3 z body coded)
    then have m: "m = \<lparr>re_status = st, re_reason = (case reason of None \<Rightarrow> [] | Some r \<Rightarrow> if is_utf8 r then r else render_opaque r),
          re_headers = hs, re_body = body, re_coded = coded\<rparr>" "rest = s3" by simp_all
    have served: "served_body m = served" using 1 decode_served_ok [of unzip coding served body coded]
      by (simp add: m served_body_def split: option.splits)
    show ?case by (rule thesis) (use 1 served in \<open>simp_all add: m split: if_splits\<close>)
  qed
qed

text \<open>
  C35. Whatever a peer sends and whatever the decoder gives out, a response that is read holds no more than the ceiling:
  its body, the bytes served and, of the head, the names and values of its fields.
\<close>

theorem response_is_bounded:
  "case read_response_to unzip fin gz s of
     Inl _ \<Rightarrow> True
   | Inr (m, _) \<Rightarrow> length (re_body m) \<le> max_body_bytes \<and> length (served_body m) \<le> max_body_bytes
       \<and> sum_list (map field_size (re_headers m)) \<le> max_header_bytes"
proof (cases "read_response_to unzip fin gz s")
  case (Inr mr)
  obtain m rest where mr: "mr = (m, rest)" by (rule prod.exhaust)
  from Inr mr have got: "read_response_to unzip fin gz s = Inr (m, rest)" by simp
  show ?thesis
  proof (rule read_response_parts [OF got])
    fix line budget s1 budget' s2 coding
    assume l: "read_line_bounded fin max_header_bytes s = Inr (line, budget, s1)"
      and h: "read_headers fin budget [] s1 = Inr (re_headers m, budget', s2)"
      and b: "(if no_body_status (re_status m) then Inr ([], s2) else read_body fin (re_headers m) True s2) = Inr (served_body m, rest)"
      and d: "decode_served unzip coding (served_body m) = Inr (re_body m, re_coded m)"
    have "sum_list (map field_size (re_headers m)) \<le> max_header_bytes"
      using read_line_budget [OF l] read_headers_size [OF h] by simp
    moreover have served: "length (served_body m) \<le> max_body_bytes"
      using b read_body_size by (cases "no_body_status (re_status m)") auto
    moreover have "length (re_body m) \<le> max_body_bytes"
      using decode_served_ok [OF d] served gunzip_size by (cases "re_coded m") auto
    ultimately show ?thesis using got by simp
  qed
qed simp

end
