(* ===== verification/Http_Round.thy ===== *)
theory Http_Round
  imports Http
begin

section \<open>Writing a message and reading it\<close>

text \<open>
  What \<open>write_request\<close> and \<open>write_response\<close> put out, the readers of the same file take in again: the fields that were
  written, the body of the length that was declared, and the bytes that follow left where they are.
\<close>

subsection \<open>One field\<close>

text \<open>A field as it comes back: its text, no longer the bytes it stood for.\<close>

definition resent :: "header_field \<Rightarrow> header_field" where
  "resent f = text_field (hf_name f) (hf_value f)"

text \<open>A value that is text (every \<open>String\<close> is), with no white space around it that a reader would take off.\<close>

definition plain_value :: "header_field \<Rightarrow> bool" where
  "plain_value f \<longleftrightarrow> is_utf8 (hf_value f) \<and> trim_ows (hf_value f) = hf_value f"

lemma is_tchar_facts: "is_tchar c \<Longrightarrow> byte_of c < 128 \<and> c \<noteq> CHR '':'' \<and> c \<noteq> lf"
  by (auto simp: is_tchar_def is_ascii_alphanumeric_def is_ascii_digit_def is_ascii_upper_def is_ascii_lower_def byte_of_def)

lemma find_none: "find P xs = None \<longleftrightarrow> list_all (\<lambda>x. \<not> P x) xs"
  by (auto simp: find_None_iff list_all_iff)

lemma check_name_ok: "check_field_name name = Inr u \<longleftrightarrow> name \<noteq> [] \<and> list_all is_tchar name"
  by (auto simp: check_field_name_def)

lemma check_field_ok: "check_field name value = Inr u
    \<longleftrightarrow> name \<noteq> [] \<and> list_all is_tchar name \<and> list_all (\<lambda>c. 0x20 \<le> byte_of c \<and> byte_of c \<noteq> 0x7F) value"
proof -
  have "check_field name value = Inr u \<longleftrightarrow>
    check_field_name name = Inr () \<and> find (\<lambda>c. byte_of c < 0x20 \<or> byte_of c = 0x7F) value = None"
    by (auto simp: check_field_def res_bind_Inr_iff split: option.splits)
  then show ?thesis by (simp add: check_name_ok find_none not_less)
qed

lemma check_inbound_ok: "check_field name value = Inr u \<Longrightarrow> check_inbound_field name value = Inr ()"
proof -
  assume "check_field name value = Inr u"
  then have ok: "name \<noteq> []" "list_all is_tchar name" "list_all (\<lambda>c. 0x20 \<le> byte_of c \<and> byte_of c \<noteq> 0x7F) value"
    by (simp_all add: check_field_ok)
  then have "find (\<lambda>c. byte_of c < 0x20 \<and> byte_of c \<noteq> 9 \<or> byte_of c = 0x7F) value = None"
    by (fastforce simp: find_none list_all_iff)
  with ok show ?thesis by (simp add: check_inbound_field_def check_field_name_def)
qed

lemma tchars_ascii: "list_all is_tchar name \<Longrightarrow> ascii name"
  using is_tchar_facts by (fastforce simp: ascii_def list_all_iff)

lemma header_line_read:
  assumes "check_field (hf_name f) (hf_value f) = Inr u" "plain_value f"
  shows "header_line (hf_name f @ '': '' @ hf_value f) = Inr (resent f)"
proof -
  have n: "list_all is_tchar (hf_name f)" using assms(1) by (simp add: check_field_ok)
  then have "CHR '':'' \<notin> set (hf_name f)" using is_tchar_facts by (auto simp: list_all_iff)
  from split_once_append [OF this] have "split_once (CHR '':'') (hf_name f @ '': '' @ hf_value f) = Some (hf_name f, CHR '' '' # hf_value f)"
    by simp
  moreover have "trim_ows (CHR '' '' # hf_value f) = hf_value f"
    using assms(2) by (simp add: plain_value_def trim_ows_def sp_or_tab_def byte_of_def)
  moreover have "is_utf8 (hf_name f)" using n by (simp add: is_utf8_def ascii_utf8 tchars_ascii)
  ultimately show ?thesis
    using check_inbound_ok [OF assms(1)] assms(2) by (simp add: header_line_def inbound_field_def resent_def plain_value_def)
qed

lemma field_no_lf: "check_field (hf_name f) (hf_value f) = Inr u \<Longrightarrow> lf \<notin> set (hf_name f @ '': '' @ hf_value f)"
  using is_tchar_facts by (auto simp: check_field_ok list_all_iff byte_of_def)

subsection \<open>The fields\<close>

lemma check_fields_ok: "check_fields hs = Inr u \<longleftrightarrow> list_all (\<lambda>f. check_field (hf_name f) (hf_value f) = Inr ()) hs"
  by (induction hs) (auto simp: check_fields_def res_bind_Inr_iff res_map_Inr_iff)

lemma headers_read:
  assumes "list_all (\<lambda>f. check_field (hf_name f) (hf_value f) = Inr ()) hs" "list_all plain_value hs"
    and "length (concat (map field_line hs)) + 2 \<le> budget"
  shows "read_headers fin budget acc (concat (map field_line hs) @ crlf @ r)
    = Inr (acc @ map resent hs, budget - length (concat (map field_line hs)) - 2, r)"
  using assms
proof (induction hs arbitrary: acc budget)
  case Nil
  then show ?case using read_line_crlf [of "[]" budget fin r] by (subst read_headers.simps) simp
next
  case (Cons f hs)
  let ?l = "hf_name f @ '': '' @ hf_value f" and ?r = "concat (map field_line hs) @ crlf @ r"
  have ok: "check_field (hf_name f) (hf_value f) = Inr ()" "plain_value f" using Cons.prems by simp_all
  have len: "length (field_line f) = length ?l + 2" by (simp add: field_line_def crlf_def)
  have fl: "field_line f @ ?r = ?l @ crlf @ ?r" by (simp add: field_line_def)
  have "read_line_bounded fin budget (field_line f @ ?r) = Inr (?l, budget - length ?l - 2, ?r)"
    unfolding fl using Cons.prems(3) len by (intro read_line_crlf field_no_lf [OF ok(1)]) simp
  then have "read_headers fin budget acc (field_line f @ ?r) = read_headers fin (budget - length ?l - 2) (acc @ [resent f]) ?r"
    using header_line_read [OF ok] by (subst read_headers.simps) simp
  also have "\<dots> = Inr ((acc @ [resent f]) @ map resent hs, budget - length ?l - 2 - length (concat (map field_line hs)) - 2, r)"
    using Cons.prems len by (intro Cons.IH) simp_all
  finally show ?case using len by simp
qed

lemma named_resent [simp]: "named_field name (resent f) = named_field name f"
  by (simp add: named_field_def resent_def text_field_def)

lemma values_resent [simp]: "values_of (map resent hs) name = values_of hs name"
  by (induction hs) (simp_all add: values_of_def, simp add: resent_def text_field_def)

lemma values_Nil [simp]: "values_of [] name = []"
  by (simp add: values_of_def)

lemma values_append [simp]: "values_of (hs @ hs') name = values_of hs name @ values_of hs' name"
  by (simp add: values_of_def)

lemma values_unframed: "name = ''content-encoding'' \<Longrightarrow> values_of (filter (\<lambda>f. \<not> framing_field f) hs) name = values_of hs name"
  by (induction hs) (auto simp: values_of_def framing_field_def named_field_def eq_ignore_case_def to_lowercase_def)

lemma find_append: "find P (xs @ ys) = (case find P xs of None \<Rightarrow> find P ys | Some x \<Rightarrow> Some x)"
  by (induction xs) simp_all

subsection \<open>A response\<close>

lemma digits_ascii: "all_digits s \<Longrightarrow> ascii s"
  by (auto simp: all_digits_def ascii_def list_all_iff is_ascii_digit_def)

lemma digits_bare: "all_digits s \<Longrightarrow> trim_ows s = s"
proof -
  assume s: "all_digits s"
  then have bare: "\<forall>c \<in> set s. \<not> sp_or_tab c" by (auto simp: all_digits_def list_all_iff is_ascii_digit_def sp_or_tab_def)
  then have "dropWhile sp_or_tab s = s" by (cases s) auto
  moreover have "dropWhile sp_or_tab (rev s) = rev s" using bare by (cases "rev s") (auto dest: arg_cong [of _ _ set])
  ultimately show ?thesis by (simp add: trim_ows_def)
qed

definition length_field :: "nat \<Rightarrow> header_field" where
  "length_field n = text_field ''Content-Length'' (show_nat n)"

definition closing_field :: header_field where
  "closing_field = text_field ''Connection'' ''close''"

text \<open>The fields of a response as its reader holds them: the framing is the writer's own.\<close>

definition answered_fields :: "http_message \<Rightarrow> headers" where
  "answered_fields resp = map resent (filter (\<lambda>f. \<not> framing_field f) (re_headers resp))
     @ [length_field (length (served_body resp)), closing_field]"

lemma length_field_ok: "check_field (hf_name (length_field n)) (hf_value (length_field n)) = Inr ()" "plain_value (length_field n)"
proof -
  have "list_all (\<lambda>c. 0x20 \<le> byte_of c \<and> byte_of c \<noteq> 0x7F) (show_nat n)"
    using show_nat_digits [of n] by (auto simp: all_digits_def list_all_iff is_ascii_digit_def)
  then show "check_field (hf_name (length_field n)) (hf_value (length_field n)) = Inr ()"
    by (simp add: check_field_ok length_field_def text_field_def) (simp add: is_tchar_def is_ascii_alphanumeric_def is_ascii_upper_def
      is_ascii_lower_def byte_of_def)
  show "plain_value (length_field n)"
    by (simp add: plain_value_def length_field_def text_field_def is_utf8_def ascii_utf8 digits_ascii digits_bare show_nat_digits)
qed

lemma closing_field_ok: "check_field (hf_name closing_field) (hf_value closing_field) = Inr ()" "plain_value closing_field"
  by (code_simp, code_simp)

lemma resent_framing: "resent (length_field n) = length_field n" "resent closing_field = closing_field"
  by (simp_all add: resent_def length_field_def closing_field_def text_field_def)

lemma length_name: "to_lowercase ''Content-Length'' = to_lowercase ''content-length''"
  by code_simp

lemma content_length_answered: "n \<le> max_body_bytes \<Longrightarrow>
    content_length (map resent (filter (\<lambda>f. \<not> framing_field f) hs) @ [length_field n, closing_field]) = Inr (Some n)"
proof -
  assume n: "n \<le> max_body_bytes"
  have "named_field ''content-length'' (length_field n)" "\<not> named_field ''content-length'' closing_field"
    by (simp add: named_field_def eq_ignore_case_def length_field_def text_field_def length_name, code_simp)
  then have "values_of [length_field n, closing_field] ''content-length'' = [show_nat n]"
    by (simp add: values_of_def length_field_def text_field_def)
  moreover have "values_of (filter (\<lambda>f. \<not> framing_field f) hs) ''content-length'' = []"
    by (induction hs) (auto simp: values_of_def framing_field_def)
  moreover have "n < 2 ^ 64" using n by (simp add: max_body_bytes_def)
  ultimately show ?thesis by (simp add: content_length_def show_nat_digits)
qed

lemma answered_not_chunked: "header_get (map resent (filter (\<lambda>f. \<not> framing_field f) hs) @ [length_field n, closing_field]) ''Transfer-Encoding'' = None"
proof -
  have low: "to_lowercase ''Transfer-Encoding'' = to_lowercase ''transfer-encoding''" by code_simp
  have "find (named_field ''Transfer-Encoding'') (map resent (filter (\<lambda>f. \<not> framing_field f) hs)) = None"
    by (auto simp: find_none list_all_iff framing_field_def) (simp add: named_field_def eq_ignore_case_def low)
  moreover have "find (named_field ''Transfer-Encoding'') [length_field n, closing_field] = None"
    by (simp add: length_field_def closing_field_def text_field_def named_field_def eq_ignore_case_def) (simp add: to_lowercase_def lower_char_def is_ascii_upper_def byte_of_def)
  ultimately show ?thesis by (simp add: header_get_def first_field_def find_append)
qed

lemma answered_coding: "content_coding (map resent (filter (\<lambda>f. \<not> framing_field f) hs) @ [length_field n, closing_field]) reading
    = content_coding hs reading"
proof -
  have "values_of [length_field n, closing_field] ''content-encoding'' = []"
    by (simp add: values_of_def length_field_def closing_field_def text_field_def named_field_def eq_ignore_case_def) (simp add: to_lowercase_def lower_char_def is_ascii_upper_def byte_of_def)
  then show ?thesis by (simp add: content_coding_def codings_of_def values_unframed)
qed

lemma status_line_read: "split3 (''HTTP/1.1 '' @ show_nat n @ '' '' @ reason) = (''HTTP/1.1'', Some (show_nat n), Some reason)"
proof -
  have "CHR '' '' \<notin> set (show_nat n)"
    using show_nat_digits [of n] by (auto simp: all_digits_def list_all_iff is_ascii_digit_def byte_of_def)
  then show ?thesis
    using split_once_append [of "CHR '' ''" "''HTTP/1.1''" "show_nat n @ '' '' @ reason"] split_once_append [of "CHR '' ''" "show_nat n" reason]
    by (simp add: split3_def)
qed

lemma parse_status_show: "parse_status (show_nat (unat st)) = Inr st"
proof -
  have "(parse_uint (show_nat (unat st)) :: u16 option) = Some st"
    using parse_uint_digits [of "show_nat (unat st)", where 'a = 16] show_nat_digits [of "unat st"] unsigned_less [of st, where 'a = nat] by simp
  then show ?thesis by (simp add: parse_status_def)
qed

text \<open>
  C32. A response that is written is read again as itself, but for its fields. Their values come back, the framing is the
  writer's own, and the bytes that follow the body are left. What it needs: values without white space around them, a
  reason on one line, a status that may have a body, a head and a body within the reader's bounds, and content codings
  that the reader takes off to the body the response has.
\<close>

theorem written_response_is_read:
  assumes "write_response resp = Inr bytes" "list_all plain_value (re_headers resp)"
    and "is_utf8 (re_reason resp)" "lf \<notin> set (re_reason resp)" "\<not> no_body_status (re_status resp)"
    and "length bytes \<le> max_header_bytes + length (served_body resp)" "length (served_body resp) \<le> max_body_bytes"
    and "res_bind (content_coding (re_headers resp) (Coded_response gz)) (\<lambda>c. decode_served unzip c (served_body resp))
      = Inr (re_body resp, re_coded resp)"
  shows "read_response_to unzip fin gz (bytes @ rest) = Inr (resp\<lparr>re_headers := answered_fields resp\<rparr>, rest)"
proof -
  let ?n = "length (served_body resp)"
  let ?sent = "filter (\<lambda>f. \<not> framing_field f) (re_headers resp)"
  let ?fs = "?sent @ [length_field ?n, closing_field]"
  let ?line = "''HTTP/1.1 '' @ show_nat (unat (re_status resp)) @ '' '' @ re_reason resp"
  let ?body = "served_body resp @ rest"
  have af: "map resent ?fs = answered_fields resp" by (simp add: answered_fields_def resent_framing)
  have checked: "list_all (\<lambda>f. check_field (hf_name f) (hf_value f) = Inr ()) (re_headers resp)"
    and bytes: "bytes = ?line @ crlf @ concat (map field_line ?fs) @ crlf @ served_body resp"
    using assms(1) by (auto simp: write_response_def res_map_Inr_iff check_fields_ok field_line_def length_field_def closing_field_def text_field_def)
  have ok: "list_all (\<lambda>f. check_field (hf_name f) (hf_value f) = Inr ()) ?fs" "list_all plain_value ?fs"
    using checked assms(2) length_field_ok closing_field_ok by (auto simp: list_all_iff)
  have size: "length ?line + 2 + (length (concat (map field_line ?fs)) + 2) \<le> max_header_bytes"
    using assms(6) by (simp add: bytes crlf_def)
  have noline: "lf \<notin> set ?line"
    using assms(4) show_nat_digits [of "unat (re_status resp)"] by (auto simp: all_digits_def list_all_iff is_ascii_digit_def byte_of_def)
  have line: "read_line_bounded fin max_header_bytes (bytes @ rest)
      = Inr (?line, max_header_bytes - length ?line - 2, concat (map field_line ?fs) @ crlf @ ?body)"
    using read_line_crlf [OF noline, of max_header_bytes fin "concat (map field_line ?fs) @ crlf @ ?body"] size by (simp add: bytes)
  have heads: "read_headers fin (max_header_bytes - length ?line - 2) [] (concat (map field_line ?fs) @ crlf @ ?body)
      = Inr (answered_fields resp, max_header_bytes - length ?line - 2 - length (concat (map field_line ?fs)) - 2, ?body)"
    using headers_read [OF ok, of "max_header_bytes - length ?line - 2" fin "[]" ?body] size by (simp only: af append_Nil)
  from assms(8) obtain c where coding: "content_coding (re_headers resp) (Coded_response gz) = Inr c"
    "decode_served unzip c (served_body resp) = Inr (re_body resp, re_coded resp)" by (auto simp: res_bind_Inr_iff)
  have body: "read_body fin (answered_fields resp) True ?body = Inr (served_body resp, rest)"
    using content_length_answered [OF assms(7), of "re_headers resp"] answered_not_chunked assms(7)
    by (simp add: read_body_def answered_fields_def read_exact_def)
  have "ascii (show_nat (unat (re_status resp)))" "ascii ''HTTP/1.1''" by (simp add: digits_ascii show_nat_digits, code_simp)
  then show ?thesis
    using line heads coding body assms(3,5) status_line_read parse_status_show answered_coding [of "re_headers resp" ?n]
    by (simp add: read_response_to_def ascii_line_def missing_def check_version_def) (simp add: answered_fields_def)
qed

lemma written_response_witness:
  "\<exists>bytes. write_response (response_json 200 ''{}'') = Inr bytes
    \<and> read_response_to (\<lambda>s. (s, None)) None True (bytes @ ''more'')
      = Inr ((response_json 200 ''{}'')\<lparr>re_headers :=
          [text_field ''Content-Type'' ''application/json'', text_field ''Content-Length'' ''2'', text_field ''Connection'' ''close'']\<rparr>, ''more'')"
proof -
  have w: "write_response (response_json 200 ''{}'') = Inr (''HTTP/1.1 200 OK'' @ crlf @ ''Content-Type: application/json'' @ crlf
      @ ''Content-Length: 2'' @ crlf @ ''Connection: close'' @ crlf @ crlf @ ''{}'')" (is "_ = Inr ?bytes")
    by code_simp
  have "answered_fields (response_json 200 ''{}'')
      = [text_field ''Content-Type'' ''application/json'', text_field ''Content-Length'' ''2'', text_field ''Connection'' ''close'']"
    by code_simp
  moreover have "read_response_to (\<lambda>s. (s, None)) None True (?bytes @ ''more'')
      = Inr ((response_json 200 ''{}'')\<lparr>re_headers := answered_fields (response_json 200 ''{}'')\<rparr>, ''more'')"
  proof (rule written_response_is_read [OF w])
    show "list_all plain_value (re_headers (response_json 200 ''{}''))" by code_simp
    show "is_utf8 (re_reason (response_json 200 ''{}''))" by code_simp
    show "lf \<notin> set (re_reason (response_json 200 ''{}''))" by code_simp
    show "\<not> no_body_status (re_status (response_json 200 ''{}''))" by code_simp
    show "length ?bytes \<le> max_header_bytes + length (served_body (response_json 200 ''{}''))"
      by (simp add: max_header_bytes_def crlf_def)
    show "length (served_body (response_json 200 ''{}'')) \<le> max_body_bytes"
      by (simp add: max_body_bytes_def served_body_def response_json_def response_new_def)
    show "res_bind (content_coding (re_headers (response_json 200 ''{}'')) (Coded_response True))
        (\<lambda>c. decode_served (\<lambda>s. (s, None)) c (served_body (response_json 200 ''{}'')))
      = Inr (re_body (response_json 200 ''{}''), re_coded (response_json 200 ''{}''))" by code_simp
  qed
  ultimately show ?thesis using w by auto
qed

subsection \<open>A request\<close>

text \<open>The fields of a request as its reader holds them: a length is added where there is a body and none was given.\<close>

definition asked_fields :: "http_request \<Rightarrow> headers" where
  "asked_fields req = map resent (rq_headers req)
     @ (if rq_body req \<noteq> [] \<and> \<not> list_ex (named_field ''content-length'') (rq_headers req)
        then [length_field (length (rq_body req))] else [])"

lemma request_line_read:
  "CHR '' '' \<notin> set verb \<Longrightarrow> CHR '' '' \<notin> set target \<Longrightarrow> split3 (verb @ '' '' @ target @ '' HTTP/1.1'') = (verb, Some target, Some ''HTTP/1.1'')"
  using split_once_append [of "CHR '' ''" verb "target @ '' HTTP/1.1''"] split_once_append [of "CHR '' ''" target "''HTTP/1.1''"]
  by (simp add: split3_def)

lemma declared_same: "list_all (\<lambda>value. value = v) vs \<Longrightarrow> declared_length (Some v) vs = Inr (Some v)"
  by (induction vs) auto

lemma declared_once: "list_all (\<lambda>value. value = v) vs \<Longrightarrow> declared_length None vs = Inr (if vs = [] then None else Some v)"
  by (cases vs) (auto simp: declared_same)

lemma content_length_same:
  "list_all (\<lambda>value. value = show_nat n) (values_of hs ''content-length'') \<Longrightarrow> n \<le> max_body_bytes
    \<Longrightarrow> content_length hs = Inr (if values_of hs ''content-length'' = [] then None else Some n)"
  by (simp add: content_length_def declared_once show_nat_digits max_body_bytes_def)

lemma no_values: "values_of hs name = [] \<longleftrightarrow> \<not> list_ex (named_field name) hs"
  by (induction hs) (auto simp: values_of_def)

lemma values_length_field: "values_of [length_field n] ''content-length'' = [show_nat n]"
  "values_of [length_field n] ''content-encoding'' = []" "named_field ''transfer-encoding'' (length_field n) = False"
  "named_field ''content-length'' (length_field n)"
proof -
  have "\<not> named_field ''content-encoding'' (length_field n)" "\<not> named_field ''transfer-encoding'' (length_field n)"
    by (simp_all add: named_field_def eq_ignore_case_def length_field_def text_field_def) code_simp+
  moreover have "named_field ''content-length'' (length_field n)"
    by (simp add: named_field_def eq_ignore_case_def length_field_def text_field_def length_name)
  ultimately show "values_of [length_field n] ''content-length'' = [show_nat n]" "values_of [length_field n] ''content-encoding'' = []"
    "named_field ''transfer-encoding'' (length_field n) = False" "named_field ''content-length'' (length_field n)"
    by (simp_all add: values_of_def length_field_def text_field_def)
qed

lemma find_resent: "find (named_field name) (map resent hs) = map_option resent (find (named_field name) hs)"
  by (induction hs) simp_all

text \<open>
  C33. A request that is written is read again as itself, but for its fields: their values come back, with the length of
  the body where the writer adds it, and the bytes that follow are left. It needs a method and a target of ASCII without
  spaces, values without white space around them, no coding of content or transfer, a length that is the body's where
  one is given, and a head and a body within the reader's bounds.
\<close>

theorem written_request_is_read:
  assumes "write_request req = Inr bytes" "list_all plain_value (rq_headers req)"
    and "list_all (\<lambda>t. ascii t \<and> CHR '' '' \<notin> set t \<and> lf \<notin> set t) [rq_method req, rq_target req]"
    and "length bytes \<le> max_header_bytes + length (rq_body req)" "length (rq_body req) \<le> max_body_bytes"
    and "header_get (rq_headers req) ''transfer-encoding'' = None" "content_coding (rq_headers req) Coded_request = Inr None"
    and "list_all (\<lambda>value. value = show_nat (length (rq_body req))) (values_of (rq_headers req) ''content-length'')"
  shows "read_request fin (bytes @ rest) = Inr (req\<lparr>rq_headers := asked_fields req\<rparr>, rest)"
proof -
  let ?n = "length (rq_body req)"
  let ?fs = "rq_headers req @ (if rq_body req \<noteq> [] \<and> \<not> list_ex (named_field ''content-length'') (rq_headers req) then [length_field ?n] else [])"
  let ?line = "rq_method req @ '' '' @ rq_target req @ '' HTTP/1.1''"
  let ?body = "rq_body req @ rest"
  have af: "map resent ?fs = asked_fields req" by (simp add: asked_fields_def resent_framing)
  have checked: "list_all (\<lambda>f. check_field (hf_name f) (hf_value f) = Inr ()) (rq_headers req)"
    and bytes: "bytes = ?line @ crlf @ concat (map field_line ?fs) @ crlf @ rq_body req"
    using assms(1) by (auto simp: write_request_def res_map_Inr_iff check_fields_ok field_line_def length_field_def text_field_def)
  have ok: "list_all (\<lambda>f. check_field (hf_name f) (hf_value f) = Inr ()) ?fs" "list_all plain_value ?fs"
    using checked assms(2) length_field_ok by (auto simp: list_all_iff)
  have size: "length ?line + 2 + (length (concat (map field_line ?fs)) + 2) \<le> max_header_bytes"
    using assms(4) unfolding bytes by (simp add: crlf_def)
  have noline: "lf \<notin> set ?line" using assms(3) by simp
  have line: "read_line_bounded fin max_header_bytes (bytes @ rest)
      = Inr (?line, max_header_bytes - length ?line - 2, concat (map field_line ?fs) @ crlf @ ?body)"
    using read_line_crlf [OF noline, of max_header_bytes fin "concat (map field_line ?fs) @ crlf @ ?body"] size unfolding bytes by simp
  have heads: "read_headers fin (max_header_bytes - length ?line - 2) [] (concat (map field_line ?fs) @ crlf @ ?body)
      = Inr (asked_fields req, max_header_bytes - length ?line - 2 - length (concat (map field_line ?fs)) - 2, ?body)"
    using headers_read [OF ok, of "max_header_bytes - length ?line - 2" fin "[]" ?body] size by (simp only: af append_Nil)
  have "list_all (\<lambda>value. value = show_nat ?n) (values_of (asked_fields req) ''content-length'')"
    using assms(8) by (simp add: asked_fields_def values_length_field)
  moreover have "values_of (asked_fields req) ''content-length'' = [] \<longrightarrow> rq_body req = []"
    by (simp add: asked_fields_def values_length_field no_values)
  moreover have "named_field ''Transfer-Encoding'' = named_field ''transfer-encoding''"
  proof -
    have "to_lowercase ''Transfer-Encoding'' = to_lowercase ''transfer-encoding''" by code_simp
    then show ?thesis by (simp add: fun_eq_iff named_field_def eq_ignore_case_def)
  qed
  then have "header_get (asked_fields req) ''Transfer-Encoding'' = None"
    using assms(6) by (simp add: header_get_def first_field_def asked_fields_def find_append find_resent values_length_field)
  ultimately have body: "read_body fin (asked_fields req) False ?body = Inr (rq_body req, rest)"
    using content_length_same [of ?n "asked_fields req"] assms(5) by (auto simp: read_body_def read_exact_def)
  have coding: "content_coding (asked_fields req) Coded_request = Inr None"
    using assms(7) by (simp add: content_coding_def codings_of_def asked_fields_def values_length_field)
  have split: "split3 ?line = (rq_method req, Some (rq_target req), Some ''HTTP/1.1'')"
    using assms(3) by (intro request_line_read) simp_all
  have "ascii '' HTTP/1.1''" "ascii '' ''" by (code_simp, code_simp)
  then have ascii: "ascii ?line" using assms(3) by (simp add: ascii_def)
  show ?thesis
    unfolding read_request_def line
    by (simp only: res_bind_simps prod.case ascii_line_def ascii if_True split)
      (use heads coding body in \<open>simp add: missing_def check_version_def\<close>)
qed

lemma written_request_witness:
  "\<exists>bytes. write_request (request_post ''/v1/relay'' ''{}'' ''application/json'') = Inr bytes
    \<and> read_request None (bytes @ ''more'') = Inr ((request_post ''/v1/relay'' ''{}'' ''application/json'')\<lparr>rq_headers :=
          [text_field ''Content-Type'' ''application/json'', text_field ''Content-Length'' ''2'']\<rparr>, ''more'')"
proof -
  let ?req = "request_post ''/v1/relay'' ''{}'' ''application/json''"
  have w: "write_request ?req = Inr (''POST /v1/relay HTTP/1.1'' @ crlf @ ''Content-Type: application/json'' @ crlf
      @ ''Content-Length: 2'' @ crlf @ crlf @ ''{}'')" (is "_ = Inr ?bytes")
    by code_simp
  have "asked_fields ?req = [text_field ''Content-Type'' ''application/json'', text_field ''Content-Length'' ''2'']"
    by code_simp
  moreover have "read_request None (?bytes @ ''more'') = Inr (?req\<lparr>rq_headers := asked_fields ?req\<rparr>, ''more'')"
  proof (rule written_request_is_read [OF w])
    show "list_all plain_value (rq_headers ?req)" by code_simp
    show "list_all (\<lambda>t. ascii t \<and> CHR '' '' \<notin> set t \<and> lf \<notin> set t) [rq_method ?req, rq_target ?req]" by code_simp
    show "length ?bytes \<le> max_header_bytes + length (rq_body ?req)" by (simp add: max_header_bytes_def crlf_def)
    show "length (rq_body ?req) \<le> max_body_bytes" by (simp add: max_body_bytes_def request_post_def)
    show "header_get (rq_headers ?req) ''transfer-encoding'' = None" by code_simp
    show "content_coding (rq_headers ?req) Coded_request = Inr None" by code_simp
    show "list_all (\<lambda>value. value = show_nat (length (rq_body ?req))) (values_of (rq_headers ?req) ''content-length'')" by code_simp
  qed
  ultimately show ?thesis using w by auto
qed

subsection \<open>A chunked body\<close>

definition chunk_text :: "(string \<times> string) list \<Rightarrow> string" where
  "chunk_text chunks = concat (map (\<lambda>(line, chunk). line @ crlf @ chunk @ crlf) chunks)"

definition lines_text :: "string list \<Rightarrow> string" where
  "lines_text lines = concat (map (\<lambda>line. line @ crlf) lines)"

lemma skip_trailer_lines:
  "list_all (\<lambda>line. line \<noteq> [] \<and> lf \<notin> set line) trailer \<Longrightarrow> length (lines_text trailer) + 2 \<le> budget
    \<Longrightarrow> skip_trailer fin budget (lines_text trailer @ crlf @ r) = Inr r"
proof (induction trailer arbitrary: budget)
  case Nil
  then show ?case using read_line_crlf [of "[]" budget fin r] by (subst skip_trailer.simps) (simp add: lines_text_def)
next
  case (Cons line trailer)
  have "read_line_bounded fin budget (line @ crlf @ lines_text trailer @ crlf @ r)
      = Inr (line, budget - length line - 2, lines_text trailer @ crlf @ r)"
    using Cons.prems by (intro read_line_crlf) (simp_all add: lines_text_def crlf_def)
  moreover have "skip_trailer fin (budget - length line - 2) (lines_text trailer @ crlf @ r) = Inr r"
    using Cons.prems by (intro Cons.IH) (simp_all add: lines_text_def crlf_def)
  ultimately show ?case using Cons.prems by (subst skip_trailer.simps) (simp add: lines_text_def)
qed

lemma read_chunks:
  assumes "list_all (\<lambda>(line, chunk). lf \<notin> set line \<and> chunk \<noteq> [] \<and> chunk_size line = Inr (length chunk)) chunks"
    and "lf \<notin> set final" "chunk_size final = Inr 0" "list_all (\<lambda>line. line \<noteq> [] \<and> lf \<notin> set line) trailer"
    and "length (lines_text (map fst chunks @ final # trailer)) + 2 \<le> budget"
    and "length body + length (concat (map snd chunks)) \<le> max_body_bytes"
  shows "read_chunked fin budget body (chunk_text chunks @ final @ crlf @ lines_text trailer @ crlf @ r) = Inr (body @ concat (map snd chunks), r)"
  using assms
proof (induction chunks arbitrary: budget body)
  case Nil
  have "read_line_bounded fin budget (final @ crlf @ lines_text trailer @ crlf @ r) = Inr (final, budget - length final - 2, lines_text trailer @ crlf @ r)"
    using Nil by (intro read_line_crlf) (simp_all add: lines_text_def crlf_def)
  moreover have "skip_trailer fin (budget - length final - 2) (lines_text trailer @ crlf @ r) = Inr r"
    using Nil by (intro skip_trailer_lines) (simp_all add: lines_text_def crlf_def)
  ultimately show ?case using Nil by (subst read_chunked.simps) (simp add: chunk_text_def)
next
  case (Cons c chunks)
  obtain line chunk where c: "c = (line, chunk)" by (cases c)
  let ?r = "chunk_text chunks @ final @ crlf @ lines_text trailer @ crlf @ r"
  have s: "chunk_text (c # chunks) @ final @ crlf @ lines_text trailer @ crlf @ r = line @ crlf @ chunk @ [cr, lf] @ ?r"
    by (simp add: chunk_text_def c crlf_def)
  have "read_line_bounded fin budget (line @ crlf @ chunk @ [cr, lf] @ ?r) = Inr (line, budget - length line - 2, chunk @ [cr, lf] @ ?r)"
    using Cons.prems by (intro read_line_crlf) (simp_all add: lines_text_def crlf_def c)
  moreover have "chunk_data fin (length chunk) (chunk @ [cr, lf] @ ?r) = Inr (chunk, ?r)" by (simp add: chunk_data_ok)
  moreover have "read_chunked fin (budget - length line - 2) (body @ chunk) ?r = Inr ((body @ chunk) @ concat (map snd chunks), r)"
    using Cons.prems by (intro Cons.IH) (simp_all add: lines_text_def crlf_def c)
  ultimately show ?case using Cons.prems unfolding s by (subst read_chunked.simps) (simp add: c)
qed

text \<open>
  C34. A chunked body is its chunks joined. However its size lines are written, with extensions or not, and whatever
  trailer follows, the reader gives the chunks in their order and leaves what comes after the trailer, so long as the
  size and trailer lines and the body are within its bounds.
\<close>

theorem chunked_body_is_joined:
  assumes "list_all (\<lambda>(line, chunk). lf \<notin> set line \<and> chunk \<noteq> [] \<and> chunk_size line = Inr (length chunk)) chunks"
    and "lf \<notin> set final" "chunk_size final = Inr 0" "list_all (\<lambda>line. line \<noteq> [] \<and> lf \<notin> set line) trailer"
    and "length (lines_text (map fst chunks @ final # trailer)) + 2 \<le> max_header_bytes"
    and "length (concat (map snd chunks)) \<le> max_body_bytes"
    and "content_length hs = Inr None" "header_get hs ''Transfer-Encoding'' = Some te" "eq_ignore_case te ''chunked''"
  shows "read_body fin hs eof (chunk_text chunks @ final @ crlf @ lines_text trailer @ crlf @ r) = Inr (concat (map snd chunks), r)"
  using read_chunks [OF assms(1-5), of "[]"] assms(6-9) by (simp add: read_body_def)

lemma chunked_body_witness:
  "read_body None [text_field ''transfer-encoding'' ''Chunked''] False
     (''3;name=a'' @ crlf @ ''one'' @ crlf @ ''00A'' @ crlf @ ''two lines.'' @ crlf @ ''0'' @ crlf @ ''Digest: x'' @ crlf @ crlf @ ''GET'')
   = Inr (''onetwo lines.'', ''GET'')"
proof -
  have t: "''3;name=a'' @ crlf @ ''one'' @ crlf @ ''00A'' @ crlf @ ''two lines.'' @ crlf @ ''0'' @ crlf @ ''Digest: x'' @ crlf @ crlf @ ''GET''
    = chunk_text [(''3;name=a'', ''one''), (''00A'', ''two lines.'')] @ ''0'' @ crlf @ lines_text [''Digest: x''] @ crlf @ ''GET''"
    by code_simp
  have "read_body None [text_field ''transfer-encoding'' ''Chunked''] False
     (chunk_text [(''3;name=a'', ''one''), (''00A'', ''two lines.'')] @ ''0'' @ crlf @ lines_text [''Digest: x''] @ crlf @ ''GET'')
    = Inr (concat (map snd [(''3;name=a'', ''one''), (''00A'', ''two lines.'')]), ''GET'')"
  proof (rule chunked_body_is_joined)
    have sizes: "hd (split_on (CHR '';'') ''3;name=a'') = ''3''" "hd (split_on (CHR '';'') ''00A'') = ''00A''" "hd (split_on (CHR '';'') ''0'') = ''0''"
      "list_all is_ascii_hexdigit ''3''" "list_all is_ascii_hexdigit ''00A''" "list_all is_ascii_hexdigit ''0''"
      "hex_digits_val ''3'' = 3" "hex_digits_val ''00A'' = 10" "hex_digits_val ''0'' = 0"
      by code_simp+
    then have chunk_sizes: "chunk_size ''3;name=a'' = Inr 3" "chunk_size ''00A'' = Inr 10" "chunk_size ''0'' = Inr 0"
      by (simp_all add: chunk_size_def Let_def del: list.pred_inject)
    then show "list_all (\<lambda>(line, chunk). lf \<notin> set line \<and> chunk \<noteq> [] \<and> chunk_size line = Inr (length chunk))
        [(''3;name=a'', ''one''), (''00A'', ''two lines.'')]" "chunk_size ''0'' = Inr 0" by simp_all
    show "length (lines_text (map fst [(''3;name=a'', ''one''), (''00A'', ''two lines.'')] @ ''0'' # [''Digest: x''])) + 2 \<le> max_header_bytes"
      by (simp add: lines_text_def crlf_def max_header_bytes_def)
    show "length (concat (map snd [(''3;name=a'', ''one''), (''00A'', ''two lines.'')])) \<le> max_body_bytes" by (simp add: max_body_bytes_def)
    show "content_length [text_field ''transfer-encoding'' ''Chunked''] = Inr None" by code_simp
    show "header_get [text_field ''transfer-encoding'' ''Chunked''] ''Transfer-Encoding'' = Some ''Chunked''" by code_simp
    show "eq_ignore_case ''Chunked'' ''chunked''" by code_simp
  qed simp_all
  then show ?thesis unfolding t by simp
qed

subsection \<open>What is told of a fault\<close>

text \<open>A chunk size too large for its type is quoted where faults are named: the digits are the peer's.\<close>

lemma long_chunk_size_is_quoted:
  assumes "list_all is_ascii_hexdigit digits" "2 ^ 64 \<le> hex_digits_val digits" "digits \<noteq> []"
  obtains e where "chunk_size digits = Inl e"
    "named_chain e = ''parse chunk size '' @ debug_str digits @ '': number too large to fit in target type''"
proof -
  have "CHR '';'' \<notin> set digits"
    using assms(1) by (auto simp: list_all_iff is_ascii_hexdigit_def is_ascii_digit_def byte_of_def)
  then have "split_on (CHR '';'') digits = [digits]" by (induction digits) auto
  with assms show thesis
    by (intro that) (auto simp: chunk_size_def named_chain_def too_large_number_def)
qed

end
