(* ===== verification/Selection.thy ===== *)
theory Selection
  imports Job "HOL-Library.Char_ord"
begin

section \<open>Selection of a plan\<close>

text \<open>
  \<open>crates/commonmeasure-runtime/src/selection.rs\<close>: which plan the objective of a job picks from what the run
  measured, and when it abstains. The arithmetic of doubles is that of IEEE 754 on their bits: every finite double is a
  multiple of \<open>2 ^ -1074\<close>, sums and products are rounded to the nearest. A step that would panic is no selection.
\<close>

subsection \<open>Doubles\<close>

abbreviation exponent_max :: nat where "exponent_max \<equiv> 2047 * 2 ^ 52"

definition f64_sign :: "f64 \<Rightarrow> bool" where
  "f64_sign w \<longleftrightarrow> 2 ^ 63 \<le> unat w"

definition f64_bits :: "f64 \<Rightarrow> nat" where
  "f64_bits w = unat w mod 2 ^ 63"

definition f64_nan :: "f64 \<Rightarrow> bool" where
  "f64_nan w \<longleftrightarrow> exponent_max < f64_bits w"

definition f64_infinite :: "f64 \<Rightarrow> bool" where
  "f64_infinite w \<longleftrightarrow> f64_bits w = exponent_max"

definition f64_zero :: "f64 \<Rightarrow> bool" where
  "f64_zero w \<longleftrightarrow> f64_bits w = 0"

text \<open>The magnitude in units of \<open>2 ^ -1074\<close>; an infinity's is past every finite one.\<close>

definition f64_magnitude :: "f64 \<Rightarrow> nat" where
  "f64_magnitude w = (let e = f64_bits w div 2 ^ 52; f = f64_bits w mod 2 ^ 52 in if e = 0 then f else (2 ^ 52 + f) * 2 ^ (e - 1))"

definition f64_units :: "f64 \<Rightarrow> int" where
  "f64_units w = (if f64_sign w then - int (f64_magnitude w) else int (f64_magnitude w))"

text \<open>\<open>partial_cmp\<close> and \<open>==\<close>.\<close>

definition f64_cmp :: "f64 \<Rightarrow> f64 \<Rightarrow> ordering option" where
  "f64_cmp a b = (if f64_nan a \<or> f64_nan b then None
     else Some (if f64_units a < f64_units b then Ord_Less else if f64_units a = f64_units b then Ord_Equal else Ord_Greater))"

definition f64_equal :: "f64 \<Rightarrow> f64 \<Rightarrow> bool" where
  "f64_equal a b \<longleftrightarrow> f64_cmp a b = Some Ord_Equal"

text \<open>The binary digits of a number, sixty-four at a time.\<close>

function bit_count :: "nat \<Rightarrow> nat" where
  "bit_count n = (if n = 0 then 0 else if 2 ^ 64 \<le> n then 64 + bit_count (n div 2 ^ 64) else Suc (bit_count (n div 2)))"
  by pat_completeness auto
termination
  by (relation "measure (\<lambda>n. n)") (auto intro: div_less_dividend)

declare bit_count.simps [simp del]

text \<open>The double nearest to \<open>n / 2 ^ k\<close> units, halves to even, past the largest the infinity.\<close>

definition f64_rounded :: "bool \<Rightarrow> nat \<Rightarrow> nat \<Rightarrow> f64" where
  "f64_rounded negative n k =
     (let t = bit_count (n div 2 ^ k) - 53; r = half_even n (2 ^ (k + t)); bits = min (t * 2 ^ 52 + r) exponent_max
      in of_nat (if negative then 2 ^ 63 + bits else bits))"

definition f64_quiet :: f64 where
  "f64_quiet = of_nat (exponent_max + 2 ^ 51)"

definition f64_mul :: "f64 \<Rightarrow> f64 \<Rightarrow> f64" where
  "f64_mul a b =
     (let negative = (f64_sign a \<noteq> f64_sign b)
      in if f64_nan a \<or> f64_nan b \<or> f64_infinite a \<and> f64_zero b \<or> f64_zero a \<and> f64_infinite b then f64_quiet
         else if f64_infinite a \<or> f64_infinite b then of_nat (if negative then 2 ^ 63 + exponent_max else exponent_max)
         else f64_rounded negative (f64_magnitude a * f64_magnitude b) 1074)"

definition f64_add :: "f64 \<Rightarrow> f64 \<Rightarrow> f64" where
  "f64_add a b =
     (if f64_nan a \<or> f64_nan b \<or> f64_infinite a \<and> f64_infinite b \<and> f64_sign a \<noteq> f64_sign b then f64_quiet
      else if f64_infinite a then a else if f64_infinite b then b
      else let s = f64_units a + f64_units b
           in f64_rounded (if s = 0 then f64_sign a \<and> f64_sign b else s < 0) (nat \<bar>s\<bar>) 0)"

text \<open>\<open>{:.2}\<close>.\<close>

definition f64_text2 :: "f64 \<Rightarrow> string" where
  "f64_text2 w =
     (if f64_nan w then ''NaN''
      else (if f64_sign w then ''-'' else []) @
        (if f64_infinite w then ''inf''
         else let hundredths = half_even (f64_magnitude w * 100) (2 ^ 1074)
              in show_nat (hundredths div 100) @ ''.'' @ pad_zeros 2 (show_nat (hundredths mod 100))))"

text \<open>A number that is no NaN and not below zero; an ordinary one is not infinite either.\<close>

definition f64_tame :: "f64 \<Rightarrow> bool" where
  "f64_tame w \<longleftrightarrow> \<not> f64_nan w \<and> (f64_zero w \<or> \<not> f64_sign w)"

definition f64_ordinary :: "f64 \<Rightarrow> bool" where
  "f64_ordinary w \<longleftrightarrow> f64_tame w \<and> \<not> f64_infinite w"

lemma unat_of_bits: "bits \<le> exponent_max \<Longrightarrow> unat (of_nat (if negative then 2 ^ 63 + bits else bits) :: f64) = (if negative then 2 ^ 63 + bits else bits)"
  by (subst unat_of_nat_exact) auto

lemma bits_of_bits: "bits \<le> exponent_max \<Longrightarrow> f64_bits (of_nat (if negative then 2 ^ 63 + bits else bits)) = bits
    \<and> f64_sign (of_nat (if negative then 2 ^ 63 + bits else bits)) = negative"
  by (simp only: f64_bits_def f64_sign_def unat_of_bits) auto

lemma magnitude_zero: "f64_zero w \<Longrightarrow> f64_magnitude w = 0"
  by (simp add: f64_zero_def f64_magnitude_def)

lemma tame_rounded: "n = 0 \<or> \<not> negative \<Longrightarrow> f64_tame (f64_rounded negative n k)"
proof -
  assume n: "n = 0 \<or> \<not> negative"
  define t where "t = bit_count (n div 2 ^ k) - 53"
  define bits where "bits = min (t * 2 ^ 52 + half_even n (2 ^ (k + t))) exponent_max"
  have b: "bits \<le> exponent_max" by (simp add: bits_def)
  have w: "f64_rounded negative n k = of_nat (if negative then 2 ^ 63 + bits else bits)"
    by (simp add: f64_rounded_def Let_def t_def bits_def)
  have "bits = 0" if "n = 0" using that by (simp add: bits_def t_def half_even_def bit_count.simps)
  then show ?thesis using n bits_of_bits [OF b, of negative] b unfolding w f64_tame_def f64_nan_def f64_zero_def by auto
qed

lemma tame_mul: "f64_ordinary a \<Longrightarrow> f64_ordinary b \<Longrightarrow> f64_tame (f64_mul a b)"
  by (auto simp: f64_mul_def Let_def f64_ordinary_def f64_tame_def [of a] f64_tame_def [of b] magnitude_zero intro!: tame_rounded)

lemma tame_add: "f64_tame a \<Longrightarrow> f64_tame b \<Longrightarrow> f64_tame (f64_add a b)"
proof -
  assume t: "f64_tame a" "f64_tame b"
  have inf: "f64_infinite w \<Longrightarrow> \<not> f64_zero w" for w by (simp add: f64_infinite_def f64_zero_def)
  have units: "0 \<le> f64_units w" if "f64_tame w" for w using that by (auto simp: f64_tame_def f64_units_def magnitude_zero)
  have "\<not> (f64_nan a \<or> f64_nan b \<or> f64_infinite a \<and> f64_infinite b \<and> f64_sign a \<noteq> f64_sign b)"
    using t inf by (auto simp: f64_tame_def)
  then have "f64_add a b = (if f64_infinite a then a else if f64_infinite b then b
      else f64_rounded (if f64_units a + f64_units b = 0 then f64_sign a \<and> f64_sign b else f64_units a + f64_units b < 0)
        (nat \<bar>f64_units a + f64_units b\<bar>) 0)" by (simp add: f64_add_def Let_def)
  then show ?thesis using t units [OF t(1)] units [OF t(2)] by (auto intro: tame_rounded)
qed

subsection \<open>What the router sees\<close>

record measured_coverage =
  mc_fraction :: f64
  mc_rubric :: string

record candidate =
  ca_plan_id :: string
  ca_completed :: bool
  ca_latency_ms :: "u64 option"
  ca_observed_cost :: "money option"
  ca_coverage :: "measured_coverage option"
  ca_freshness :: "f64 option"

record selection =
  sl_plan_id :: "string option"
  sl_method :: string
  sl_explanation :: string
  sl_unavailable_inputs :: "string list"

definition abstain :: "string \<Rightarrow> string \<Rightarrow> string list \<Rightarrow> selection" where
  "abstain way explanation unavailable =
     \<lparr>sl_plan_id = None, sl_method = way, sl_explanation = explanation, sl_unavailable_inputs = unavailable\<rparr>"

definition no_candidates :: selection where
  "no_candidates = \<lparr>sl_plan_id = None, sl_method = ''no-candidates'',
     sl_explanation = ''No plan completed, so there was nothing to choose between.'', sl_unavailable_inputs = []\<rparr>"

definition chosen :: "string \<Rightarrow> string \<Rightarrow> string \<Rightarrow> selection" where
  "chosen plan way explanation =
     \<lparr>sl_plan_id = Some plan, sl_method = way, sl_explanation = explanation, sl_unavailable_inputs = []\<rparr>"

definition without_measure :: "(candidate \<Rightarrow> bool) \<Rightarrow> candidate list \<Rightarrow> string list" where
  "without_measure has cs = map ca_plan_id (filter (\<lambda>c. \<not> has c) cs)"

definition carries :: "nat \<Rightarrow> string" where
  "carries count = (if count = 1 then ''ies'' else ''y'')"

definition dash :: string where
  "dash = map char_of [0xE2, 0x80, 0x94 :: nat]"

subsection \<open>Latency and cost\<close>

definition pair_le :: "u64 \<times> string \<Rightarrow> u64 \<times> string \<Rightarrow> bool" where
  "pair_le x y \<longleftrightarrow> fst x < fst y \<or> fst x = fst y \<and> snd x \<le> snd y"

text \<open>\<open>iter().min()\<close> of figures with the plan they are of.\<close>

fun least_pair :: "(u64 \<times> string) list \<Rightarrow> (u64 \<times> string) option" where
  "least_pair [] = None"
| "least_pair (x # xs) = (case least_pair xs of None \<Rightarrow> Some x | Some y \<Rightarrow> Some (if pair_le x y then x else y))"

text \<open>\<open>collect::<Option<Vec<_>>>()\<close>.\<close>

fun all_some :: "'a option list \<Rightarrow> 'a list option" where
  "all_some [] = Some []"
| "all_some (None # xs) = None"
| "all_some (Some x # xs) = map_option (Cons x) (all_some xs)"

definition select_on_latency :: "candidate list \<Rightarrow> bool \<Rightarrow> selection" where
  "select_on_latency cs replayed =
     (let finished = filter ca_completed cs
      in if replayed then abstain ''minimum observed latency''
             (''A replayed exchange's latency times the loopback origin serving the recording, not the recorded provider, ''
               @ ''so a replay run has no latency measurement of the providers to rank on.'') [''latency'']
         else if finished = [] then no_candidates
         else case Option.bind (all_some (map (\<lambda>c. map_option (\<lambda>ms. (ms, ca_plan_id c)) (ca_latency_ms c)) finished)) least_pair of
           Some (_, plan) \<Rightarrow> chosen plan ''minimum observed latency''
             (''Latency is measured by this runtime around each exchange, so the objective is computable from observed ''
               @ ''evidence alone.'')
         | None \<Rightarrow> abstain ''minimum observed latency'' ''At least one completed plan reported no latency.'' [''latency''])"

definition select_on_cost :: "candidate list \<Rightarrow> selection" where
  "select_on_cost cs =
     (let finished = filter ca_completed cs; currencies = map currency (List.map_filter ca_observed_cost finished)
      in if finished = [] then no_candidates
         else if length currencies \<noteq> length finished then abstain ''minimum observed cost''
             (join_with '', '' (map ca_plan_id (filter (\<lambda>c. ca_observed_cost c = None) finished))
               @ '' reported no charge, and an unreported charge is unknown rather than free.'') [''observed_cost'']
         else if list_ex (\<lambda>(a, b). a \<noteq> b) (zip currencies (tl currencies)) then abstain ''minimum observed cost''
             (''Completed plans reported charges in different currencies and this runtime holds no rate source.'')
             [''currency_conversion'']
         else case least_pair (List.map_filter (\<lambda>c. map_option (\<lambda>m. (micros m, ca_plan_id c)) (ca_observed_cost c)) finished) of
           Some (_, plan) \<Rightarrow> chosen plan ''minimum observed cost''
             (''Every completed plan reported a charge in the same currency, so the objective is computable from ''
               @ ''observed evidence alone.'')
         | None \<Rightarrow> abstain ''minimum observed cost'' ''No completed plan reported a charge.'' [''observed_cost''])"

subsection \<open>Measured fractions\<close>

text \<open>One candidate's score; an \<open>expect\<close> that is not met is none.\<close>

definition score_of :: "f64 \<Rightarrow> f64 \<Rightarrow> candidate \<Rightarrow> f64 option" where
  "score_of coverage freshness c =
     Option.bind (if f64_zero coverage then Some 0
       else map_option (\<lambda>m. f64_add 0 (f64_mul coverage (mc_fraction m))) (ca_coverage c)) (\<lambda>score.
     if f64_zero freshness then Some score
     else map_option (\<lambda>fraction. f64_add score (f64_mul freshness fraction)) (ca_freshness c))"

text \<open>The order of the ranking: the score descending, then the plan id. Scores that do not compare are equal.\<close>

definition ranks :: "f64 \<times> candidate \<Rightarrow> f64 \<times> candidate \<Rightarrow> bool" where
  "ranks x y = (case f64_cmp (fst y) (fst x) of
      Some Ord_Less \<Rightarrow> True
    | Some Ord_Greater \<Rightarrow> False
    | _ \<Rightarrow> ca_plan_id (snd x) \<le> ca_plan_id (snd y))"

text \<open>\<open>sort_by\<close>, which is stable.\<close>

fun rank_in :: "f64 \<times> candidate \<Rightarrow> (f64 \<times> candidate) list \<Rightarrow> (f64 \<times> candidate) list" where
  "rank_in x [] = [x]"
| "rank_in x (y # ys) = (if ranks x y then x # y # ys else y # rank_in x ys)"

definition ranked :: "(f64 \<times> candidate) list \<Rightarrow> (f64 \<times> candidate) list" where
  "ranked scored = foldr rank_in scored []"

definition rubric_of :: "candidate \<Rightarrow> string" where
  "rubric_of c = (case ca_coverage c of Some m \<Rightarrow> mc_rubric m | None \<Rightarrow> ''unknown'')"

definition figures_of :: "f64 \<Rightarrow> f64 \<Rightarrow> candidate \<Rightarrow> string list" where
  "figures_of coverage freshness c =
     (case ca_coverage c of Some m \<Rightarrow> if f64_zero coverage then [] else [''coverage '' @ f64_text2 (mc_fraction m)] | None \<Rightarrow> [])
     @ (case ca_freshness c of Some fraction \<Rightarrow> if f64_zero freshness then [] else [''freshness '' @ f64_text2 fraction] | None \<Rightarrow> [])"

definition tie_text :: "f64 \<Rightarrow> (f64 \<times> candidate) list \<Rightarrow> string" where
  "tie_text best scored =
     (let tied = map (\<lambda>(_, c). ca_plan_id c) (filter (\<lambda>(score, _). f64_equal score best) scored)
      in if 1 < length tied then '' '' @ join_with '', '' tied @ '' tie at '' @ f64_text2 best
           @ ''; the tie resolves to the first plan id in lexical order, a deterministic rule rather than a measured preference.''
         else [])"

definition mixed_rubrics :: "string list \<Rightarrow> selection" where
  "mixed_rubrics rubrics = abstain ''weighted utility''
     (''The candidates' coverage was measured against different rubrics ('' @ join_with '', '' rubrics
       @ ''), and fractions of different rubrics are not one scale.'') [''coverage'']"

definition fractions_method :: "f64 \<Rightarrow> f64 \<Rightarrow> string" where
  "fractions_method coverage freshness = ''maximum weighted utility over measured ''
     @ join_with '' and '' ((if f64_zero coverage then [] else [''coverage'']) @ (if f64_zero freshness then [] else [''freshness'']))"

definition fractions_basis :: "f64 \<Rightarrow> f64 \<Rightarrow> candidate \<Rightarrow> string" where
  "fractions_basis coverage freshness winner =
     (if \<not> f64_zero coverage \<and> \<not> f64_zero freshness
      then ''coverage against rubric '' @ rubric_of winner @ '' and freshness against the suite's as_of date''
      else if \<not> f64_zero coverage then ''coverage against rubric '' @ rubric_of winner
      else ''freshness against the suite's as_of date'')"

definition ranking_words :: "f64 \<Rightarrow> f64 \<Rightarrow> (f64 \<times> candidate) list \<Rightarrow> string" where
  "ranking_words coverage freshness scored = join_with ''; '' (map (\<lambda>(score, c). ca_plan_id c @ '' '' @ f64_text2 score @ '' (''
     @ join_with '', '' (figures_of coverage freshness c) @ '')'') scored)"

definition fractions_words :: "f64 \<Rightarrow> f64 \<Rightarrow> (f64 \<times> candidate) list \<Rightarrow> string" where
  "fractions_words coverage freshness scored =
     ''Every candidate's admitted window is measured this run '' @ dash @ '' '' @ fractions_basis coverage freshness (snd (hd scored))
       @ '' '' @ dash @ '' and '' @ (if \<not> f64_zero coverage \<and> \<not> f64_zero freshness then ''both terms are'' else ''that term is a'')
       @ '' unitless fraction'' @ (if \<not> f64_zero coverage \<and> \<not> f64_zero freshness then ''s'' else [])
       @ '', so the objective is arithmetic on the declared weights: '' @ ranking_words coverage freshness scored
       @ ''. The ranking reads the evaluation records of the admitted windows, not the answers.''
       @ tie_text (fst (hd scored)) scored"

definition rank_on_fractions :: "candidate list \<Rightarrow> f64 \<Rightarrow> f64 \<Rightarrow> selection option" where
  "rank_on_fractions cs coverage freshness =
     (let rubrics = remdups_adj (sort (map mc_rubric (List.map_filter ca_coverage cs)))
      in if \<not> f64_zero coverage \<and> 1 < length rubrics then Some (mixed_rubrics rubrics)
         else case all_some (map (\<lambda>c. map_option (\<lambda>score. (score, c)) (score_of coverage freshness c)) cs) of
           None \<Rightarrow> None
         | Some scores \<Rightarrow> (case ranked scores of
             [] \<Rightarrow> None
           | (best, winner) # rest \<Rightarrow> Some (chosen (ca_plan_id winner) (fractions_method coverage freshness)
               (fractions_words coverage freshness ((best, winner) # rest)))))"

subsection \<open>The objective\<close>

text \<open>The weighted measurements that are missing, each with the words of its absence.\<close>

definition unmeasured :: "string \<Rightarrow> string \<Rightarrow> (candidate \<Rightarrow> bool) \<Rightarrow> candidate list \<Rightarrow> (string \<times> string) list" where
  "unmeasured name how has cs =
     (let withheld = without_measure has cs
      in if withheld = [] then []
         else [(name, join_with '', '' withheld @ '' carr'' @ carries (length withheld) @ '' no measured '' @ name @ '' ('' @ name @ how @ '')'')])"

definition missing_terms :: "f64 \<Rightarrow> f64 \<Rightarrow> f64 \<Rightarrow> f64 \<Rightarrow> candidate list \<Rightarrow> (string \<times> string) list" where
  "missing_terms quality coverage freshness policy_risk cs =
     (if f64_zero quality then [] else [(''quality'', ''quality is a judgment that needs a judge, and this runtime seals none ''
        @ ''(the installed evaluators measure citation support, rubric coverage and declared-date freshness, none of which is quality)'')])
     @ (if f64_zero coverage then [] else unmeasured ''coverage''
         '' is measured only against a suite-declared coverage_rubric, over an assembled window'' (\<lambda>c. ca_coverage c \<noteq> None) cs)
     @ (if f64_zero freshness then [] else unmeasured ''freshness''
         '' is measured only against a suite-declared as_of date, over dated window parts'' (\<lambda>c. ca_freshness c \<noteq> None) cs)
     @ (if f64_zero policy_risk then [] else [(''policy_risk'', ''policy risk has no measure beyond the recorded gaps'')])"

definition quality_unmeasured :: selection where
  "quality_unmeasured = abstain ''maximum measured quality''
     (''Quality of the answer is a judgment, and every installed evaluator measures something narrower: grounding measures ''
       @ ''citation support, and '' @ dash @ '' where the suite declares a rubric and an as-of date '' @ dash
       @ '' coverage and freshness measure the admitted window. None of those is a quality figure, and mapping one onto ''
       @ ''quality would publish a verdict the run did not measure.'') [''quality'']"

definition terms_missing :: "(string \<times> string) list \<Rightarrow> selection" where
  "terms_missing missing = abstain ''weighted utility''
     (''The objective puts weight on measurements this run did not obtain: '' @ join_with ''; '' (map snd missing)
       @ ''. Substituting the terms the run does have would publish a verdict it did not measure.'') (map fst missing)"

definition no_common_unit :: "f64 \<Rightarrow> f64 \<Rightarrow> selection" where
  "no_common_unit cost latency = abstain ''weighted utility''
     (''Coverage and freshness are measured this run as unitless fractions, and the objective also weights cost or ''
       @ ''latency; a fraction has no price and no duration, and this runtime holds no recorded exchange rate between them.'')
     ((if f64_zero cost then [] else [''fraction_cost_exchange_rate''])
       @ (if f64_zero latency then [] else [''fraction_latency_exchange_rate'']))"

definition no_exchange_rate :: selection where
  "no_exchange_rate = abstain ''weighted utility''
     (''Cost and latency are weighted together and this runtime has no recorded exchange rate between a currency and ''
       @ ''a millisecond.'') [''cost_latency_exchange_rate'']"

definition no_weight :: selection where
  "no_weight = abstain ''weighted utility''
     (''No term in this objective carries weight, so it expresses no preference between the completed plans.'') []"

fun select_plan :: "objective \<Rightarrow> candidate list \<Rightarrow> bool \<Rightarrow> selection option" where
  "select_plan objective [] replayed = Some no_candidates"
| "select_plan MinimiseLatency cs replayed = Some (select_on_latency cs replayed)"
| "select_plan MinimiseCost cs replayed = Some (select_on_cost cs)"
| "select_plan MaximiseQuality cs replayed = Some quality_unmeasured"
| "select_plan (Weighted quality coverage freshness cost latency policy_risk) cs replayed =
     (let missing = missing_terms quality coverage freshness policy_risk cs;
          fraction_terms = (\<not> f64_zero coverage \<or> \<not> f64_zero freshness);
          observed_terms = (\<not> f64_zero cost \<or> \<not> f64_zero latency)
      in if missing \<noteq> [] then Some (terms_missing missing)
         else if fraction_terms \<and> observed_terms then Some (no_common_unit cost latency)
         else if fraction_terms then rank_on_fractions cs coverage freshness
         else if \<not> observed_terms then Some no_weight
         else if f64_zero latency then Some (select_on_cost cs)
         else if f64_zero cost then Some (select_on_latency cs replayed)
         else Some no_exchange_rate)"

subsection \<open>Lists of figures\<close>

lemma all_some_iff: "all_some xs = Some ys \<longleftrightarrow> xs = map Some ys"
  by (induction xs arbitrary: ys rule: all_some.induct) auto

lemma all_some_None: "all_some xs = None \<longleftrightarrow> None \<in> set xs"
  by (induction xs rule: all_some.induct) auto

lemma pair_le_refl [simp]: "pair_le x x"
  by (simp add: pair_le_def)

lemma pair_le_total: "pair_le x y \<or> pair_le y x"
  by (auto simp: pair_le_def)

lemma pair_le_trans: "pair_le x y \<Longrightarrow> pair_le y z \<Longrightarrow> pair_le x z"
  by (auto simp: pair_le_def)

lemma pair_le_antisym: "pair_le x y \<Longrightarrow> pair_le y x \<Longrightarrow> x = y"
  by (auto simp: pair_le_def prod_eq_iff)

lemma least_pair_None: "least_pair xs = None \<longleftrightarrow> xs = []"
  by (cases xs) (auto split: option.splits)

lemma least_pair_iff: "least_pair xs = Some x \<longleftrightarrow> x \<in> set xs \<and> (\<forall>y \<in> set xs. pair_le x y)"
proof -
  have least: "least_pair xs = Some x \<Longrightarrow> x \<in> set xs \<and> (\<forall>y \<in> set xs. pair_le x y)" for x
  proof (induction xs arbitrary: x)
    case (Cons z zs)
    show ?case
    proof (cases "least_pair zs")
      case None
      then have "zs = []" by (cases zs) (auto split: option.splits)
      with Cons.prems show ?thesis using pair_le_total by auto
    next
      case (Some y)
      note y = Cons.IH [OF Some]
      show ?thesis
      proof (cases "pair_le z y")
        case True
        with Some Cons.prems have "x = z" by simp
        then show ?thesis using y True pair_le_trans pair_le_total by auto
      next
        case False
        with Some Cons.prems have "x = y" by simp
        then show ?thesis using y False pair_le_total [of z y] by auto
      qed
    qed
  qed simp
  show ?thesis
  proof
    assume x: "x \<in> set xs \<and> (\<forall>y \<in> set xs. pair_le x y)"
    then obtain y where y: "least_pair xs = Some y" using least_pair_None [of xs] by (cases "least_pair xs") auto
    from least [OF y] x have "x = y" by (auto intro: pair_le_antisym)
    with y show "least_pair xs = Some x" by simp
  qed (rule least)
qed

lemma least_pair_set: "set xs = set ys \<Longrightarrow> least_pair xs = least_pair ys"
proof -
  assume "set xs = set ys"
  then have "least_pair xs = Some z \<longleftrightarrow> least_pair ys = Some z" for z by (simp add: least_pair_iff)
  then show ?thesis by (metis option.exhaust)
qed

lemma zip_tl_same: "\<not> list_ex (\<lambda>(a, b). a \<noteq> b) (zip xs (tl xs)) \<longleftrightarrow> list_all (\<lambda>x. x = hd xs) xs"
  by (induction xs rule: induct_list012) auto

subsection \<open>The least latency and the least cost\<close>

text \<open>What a pick on latency and one on cost state of the plans that completed.\<close>

definition least_latency :: "string \<Rightarrow> candidate list \<Rightarrow> bool" where
  "least_latency plan cs = (let finished = filter ca_completed cs
     in list_all (\<lambda>c. ca_latency_ms c \<noteq> None) finished
        \<and> list_ex (\<lambda>c. ca_plan_id c = plan \<and> list_all (\<lambda>d. pair_le (the (ca_latency_ms c), plan) (the (ca_latency_ms d), ca_plan_id d)) finished) finished)"

definition least_cost :: "string \<Rightarrow> candidate list \<Rightarrow> bool" where
  "least_cost plan cs = (let finished = filter ca_completed cs
     in list_all (\<lambda>c. ca_observed_cost c \<noteq> None) finished
        \<and> list_ex (\<lambda>c. ca_plan_id c = plan \<and> list_all (\<lambda>d. currency (the (ca_observed_cost c)) = currency (the (ca_observed_cost d))
            \<and> pair_le (micros (the (ca_observed_cost c)), plan) (micros (the (ca_observed_cost d)), ca_plan_id d)) finished) finished)"

lemma latency_pick: "sl_plan_id (select_on_latency cs replayed) = Some plan \<longleftrightarrow> \<not> replayed \<and> least_latency plan cs"
proof -
  let ?f = "filter ca_completed cs" and ?pair = "\<lambda>c. map_option (\<lambda>ms. (ms, ca_plan_id c)) (ca_latency_ms c)"
  show ?thesis
  proof (cases "list_all (\<lambda>c. ca_latency_ms c \<noteq> None) ?f")
    case True
    let ?ps = "map (\<lambda>c. (the (ca_latency_ms c), ca_plan_id c)) ?f"
    have "map ?pair ?f = map Some ?ps" using True by (auto simp: list_all_iff)
    then have ps: "all_some (map ?pair ?f) = Some ?ps" by (simp only: all_some_iff)
    have "(\<exists>ms. least_pair ?ps = Some (ms, plan)) \<longleftrightarrow> least_latency plan cs"
      using True by (auto simp: least_pair_iff least_latency_def Let_def list_all_iff list_ex_iff)
    moreover have "least_pair ?ps = None \<longleftrightarrow> ?f = []" by (simp add: least_pair_None)
    ultimately show ?thesis using ps
      by (auto simp: select_on_latency_def Let_def abstain_def no_candidates_def chosen_def split: option.splits)
  next
    case False
    then have "all_some (map ?pair ?f) = None" by (force simp: all_some_None list_all_iff)
    with False show ?thesis
      by (auto simp: select_on_latency_def Let_def abstain_def no_candidates_def chosen_def least_latency_def)
  qed
qed

lemma map_filter_total: "\<forall>x \<in> set xs. f x \<noteq> None \<Longrightarrow> List.map_filter f xs = map (\<lambda>x. the (f x)) xs"
  by (induction xs) (auto simp: map_filter_def)

lemma cost_pick: "sl_plan_id (select_on_cost cs) = Some plan \<longleftrightarrow> least_cost plan cs"
proof -
  let ?f = "filter ca_completed cs"
  let ?cost = "\<lambda>c :: candidate. the (ca_observed_cost c)"
  show ?thesis
  proof (cases "list_all (\<lambda>c. ca_observed_cost c \<noteq> None) ?f")
    case True
    let ?ps = "map (\<lambda>c. (micros (?cost c), ca_plan_id c)) ?f" and ?cur = "map (\<lambda>c. currency (?cost c)) ?f"
    have cur: "map currency (List.map_filter ca_observed_cost ?f) = ?cur"
      using True by (simp add: map_filter_total list_all_iff)
    have ps: "List.map_filter (\<lambda>c. map_option (\<lambda>m. (micros m, ca_plan_id c)) (ca_observed_cost c)) ?f = ?ps"
      using True by (subst map_filter_total) (auto simp: list_all_iff)
    have least: "least_pair ?ps = None \<longleftrightarrow> ?f = []" by (simp add: least_pair_None)
    show ?thesis
    proof (cases "list_all (\<lambda>x. x = hd ?cur) ?cur")
      case same: True
      then have one: "\<forall>c \<in> set ?f. \<forall>d \<in> set ?f. currency (?cost c) = currency (?cost d)" by (auto simp: list_all_iff)
      have "least_cost plan cs \<longleftrightarrow> (\<exists>c \<in> set ?f. ca_plan_id c = plan
          \<and> (\<forall>d \<in> set ?f. pair_le (micros (?cost c), plan) (micros (?cost d), ca_plan_id d)))"
        unfolding least_cost_def Let_def list_all_iff list_ex_iff using True [unfolded list_all_iff] one by blast
      also have "\<dots> \<longleftrightarrow> (\<exists>m. least_pair ?ps = Some (m, plan))"
        unfolding least_pair_iff by auto
      finally have "(\<exists>m. least_pair ?ps = Some (m, plan)) \<longleftrightarrow> least_cost plan cs" by simp
      then show ?thesis using same least unfolding select_on_cost_def Let_def cur ps zip_tl_same [symmetric]
        by (auto simp: abstain_def no_candidates_def chosen_def split: option.splits)
    next
      case False
      then have some: "?f \<noteq> []" by auto
      have two: "\<not> least_cost plan cs"
      proof
        assume "least_cost plan cs"
        then have "\<exists>c. \<forall>d \<in> set ?f. currency (?cost c) = currency (?cost d)"
          unfolding least_cost_def Let_def list_all_iff list_ex_iff by (elim conjE bexE) (rule exI, blast)
        then obtain c where c: "\<forall>d \<in> set ?f. currency (?cost c) = currency (?cost d)" by (rule exE)
        then have "\<forall>d \<in> set ?f. currency (?cost d) = currency (?cost (hd ?f))" using hd_in_set [OF some] by metis
        moreover have "hd ?cur = currency (?cost (hd ?f))" using some by (rule hd_map)
        ultimately have "list_all (\<lambda>x. x = hd ?cur) ?cur" by (simp only: list_all_iff set_map ball_simps)
        with False show False by simp
      qed
      with False two some show ?thesis unfolding select_on_cost_def Let_def cur ps zip_tl_same [symmetric]
        by (auto simp: abstain_def)
    qed
  next
    case False
    then obtain c where "c \<in> set ?f" "\<not> ca_observed_cost c \<noteq> None" by (auto simp: list_all_iff)
    then have "length (map currency (List.map_filter ca_observed_cost ?f)) < length ?f"
      unfolding map_filter_def length_map by (rule length_filter_less)
    with False show ?thesis
      by (auto simp: select_on_cost_def Let_def abstain_def no_candidates_def least_cost_def)
  qed
qed

subsection \<open>The ranking\<close>

lemma ranks_total: "ranks x y \<or> ranks y x"
  by (auto simp: ranks_def f64_cmp_def)

lemma ranks_numbers: "\<not> f64_nan (fst x) \<Longrightarrow> \<not> f64_nan (fst y) \<Longrightarrow>
    ranks x y \<longleftrightarrow> f64_units (fst y) < f64_units (fst x) \<or> f64_units (fst x) = f64_units (fst y) \<and> ca_plan_id (snd x) \<le> ca_plan_id (snd y)"
  by (auto simp: ranks_def f64_cmp_def)

lemma ranks_trans: "ranks x y \<Longrightarrow> ranks y z \<Longrightarrow> \<not> f64_nan (fst x) \<Longrightarrow> \<not> f64_nan (fst y) \<Longrightarrow> \<not> f64_nan (fst z) \<Longrightarrow> ranks x z"
  by (auto simp: ranks_numbers)

lemma set_rank_in [simp]: "set (rank_in x ys) = insert x (set ys)"
  by (induction ys) auto

lemma set_ranked [simp]: "set (ranked xs) = set xs"
  by (induction xs) (simp_all add: ranked_def)

lemma ranked_Nil [simp]: "ranked xs = [] \<longleftrightarrow> xs = []"
  by (metis set_empty set_ranked)

lemma hd_rank_in: "hd (rank_in x ys) = (if ys = [] \<or> ranks x (hd ys) then x else hd ys)"
  by (cases ys) auto

lemma ranked_first:
  assumes "xs \<noteq> []" "list_all (\<lambda>x. \<not> f64_nan (fst x)) xs"
  shows "list_all (ranks (hd (ranked xs))) xs"
  using assms
proof (induction xs)
  case (Cons x xs)
  have refl: "ranks y y" for y using ranks_total by blast
  show ?case
  proof (cases "xs = []")
    case False
    let ?h = "hd (ranked xs)"
    have "ranked xs \<noteq> []" using False by (metis set_empty set_ranked)
    have h: "?h \<in> set xs" using \<open>ranked xs \<noteq> []\<close> by (metis hd_in_set set_ranked)
    have best: "\<forall>y \<in> set xs. ranks ?h y" using Cons False by (simp add: list_all_iff)
    have num: "\<not> f64_nan (fst x)" "\<forall>y \<in> set xs. \<not> f64_nan (fst y)" using Cons.prems by (auto simp: list_all_iff)
    have hd: "hd (ranked (x # xs)) = (if ranks x ?h then x else ?h)"
      using \<open>ranked xs \<noteq> []\<close> by (simp add: ranked_def hd_rank_in)
    show ?thesis
    proof (cases "ranks x ?h")
      case True
      have "ranks x y" if "y \<in> set xs" for y
      proof -
        from that best num h have "ranks ?h y" "\<not> f64_nan (fst y)" "\<not> f64_nan (fst ?h)" by auto
        then show ?thesis using True num(1) ranks_trans by blast
      qed
      then show ?thesis using hd True refl by (simp add: list_all_iff)
    next
      case False
      then show ?thesis using hd best ranks_total [of x ?h] by (simp add: list_all_iff)
    qed
  qed (simp add: ranked_def refl)
qed simp

text \<open>What a pick on the measured fractions states: the plan has the highest score and, of those, the first plan id.\<close>

definition best_score :: "f64 \<Rightarrow> f64 \<Rightarrow> string \<Rightarrow> candidate list \<Rightarrow> bool" where
  "best_score coverage freshness plan cs =
     list_ex (\<lambda>c. ca_plan_id c = plan \<and> list_all (\<lambda>d. let mine = f64_units (the (score_of coverage freshness c));
           other = f64_units (the (score_of coverage freshness d))
         in other < mine \<or> other = mine \<and> plan \<le> ca_plan_id d) cs) cs"

definition one_rubric :: "candidate list \<Rightarrow> bool" where
  "one_rubric cs \<longleftrightarrow> list_all (\<lambda>c. list_all (\<lambda>d. mc_rubric (the (ca_coverage c)) = mc_rubric (the (ca_coverage d))) cs) cs"

definition measured_on :: "f64 \<Rightarrow> f64 \<Rightarrow> candidate list \<Rightarrow> bool" where
  "measured_on coverage freshness cs \<longleftrightarrow> (f64_zero coverage \<or> list_all (\<lambda>c. ca_coverage c \<noteq> None) cs)
     \<and> (f64_zero freshness \<or> list_all (\<lambda>c. ca_freshness c \<noteq> None) cs)"

lemma missing_none: "missing_terms quality coverage freshness policy_risk cs = []
    \<longleftrightarrow> f64_zero quality \<and> f64_zero policy_risk \<and> measured_on coverage freshness cs"
  by (auto simp: missing_terms_def unmeasured_def without_measure_def Let_def measured_on_def list_all_iff filter_empty_conv)

lemma score_measured: "measured_on coverage freshness cs \<Longrightarrow> c \<in> set cs \<Longrightarrow> score_of coverage freshness c \<noteq> None"
  by (auto simp: measured_on_def score_of_def list_all_iff)

lemma sorted_distinct: "sorted xs \<Longrightarrow> distinct (remdups_adj xs)"
proof (induction xs rule: remdups_adj.induct)
  case (3 x y xs)
  show ?case
  proof (cases "x = y")
    case False
    with 3 have "x \<notin> set (y # xs)" by auto
    then have "x \<notin> set (remdups_adj (y # xs))" by simp
    with 3 False show ?thesis by simp
  qed (use 3 in simp)
qed simp_all

lemma one_rubric_iff: "measured_on coverage freshness cs \<Longrightarrow> \<not> f64_zero coverage \<Longrightarrow>
    one_rubric cs \<longleftrightarrow> \<not> 1 < length (remdups_adj (sort (map mc_rubric (List.map_filter ca_coverage cs))))"
proof -
  assume m: "measured_on coverage freshness cs" "\<not> f64_zero coverage"
  let ?rs = "map (\<lambda>c. mc_rubric (the (ca_coverage c))) cs"
  have rs: "map mc_rubric (List.map_filter ca_coverage cs) = ?rs"
    using m by (simp add: map_filter_total measured_on_def list_all_iff)
  have "length (remdups_adj (sort ?rs)) = card (set (sort ?rs))"
    using distinct_card [OF sorted_distinct [OF sorted_sort [of ?rs]]] by simp
  also have "set (sort ?rs) = set ?rs" by simp
  finally have "\<not> 1 < length (remdups_adj (sort ?rs)) \<longleftrightarrow> card (set ?rs) \<le> 1" by auto
  also have "\<dots> \<longleftrightarrow> one_rubric cs"
    by (auto simp: card_le_Suc0_iff_eq one_rubric_def list_all_iff)
  finally show ?thesis unfolding rs by simp
qed

definition pick_of :: "selection option \<Rightarrow> string option" where
  "pick_of s = Option.bind s sl_plan_id"

lemma abstain_picks_none [simp]: "sl_plan_id (abstain way explanation unavailable) = None"
  by (simp add: abstain_def)

lemma mixed_picks_none [simp]: "sl_plan_id (mixed_rubrics rubrics) = None"
  by (simp only: mixed_rubrics_def abstain_picks_none)

lemma fraction_pick:
  assumes "measured_on coverage freshness cs" "cs \<noteq> []"
    and "list_all (\<lambda>c. case score_of coverage freshness c of None \<Rightarrow> True | Some s \<Rightarrow> \<not> f64_nan s) cs"
  obtains s where "rank_on_fractions cs coverage freshness = Some s"
    "sl_plan_id s = Some plan \<longleftrightarrow> (f64_zero coverage \<or> one_rubric cs) \<and> best_score coverage freshness plan cs"
proof (cases "\<not> f64_zero coverage \<and> \<not> one_rubric cs")
  case True
  then have "1 < length (remdups_adj (sort (map mc_rubric (List.map_filter ca_coverage cs))))"
    using one_rubric_iff [OF assms(1)] by simp
  then have "rank_on_fractions cs coverage freshness
      = Some (mixed_rubrics (remdups_adj (sort (map mc_rubric (List.map_filter ca_coverage cs)))))"
    using True by (simp add: rank_on_fractions_def)
  then show thesis by (rule that) (use True in simp)
next
  case False
  let ?score = "\<lambda>c. the (score_of coverage freshness c)"
  let ?ps = "map (\<lambda>c. (?score c, c)) cs"
  have "map (\<lambda>c. map_option (\<lambda>score. (score, c)) (score_of coverage freshness c)) cs = map Some ?ps"
    using score_measured [OF assms(1)] by auto
  then have ps: "all_some (map (\<lambda>c. map_option (\<lambda>score. (score, c)) (score_of coverage freshness c)) cs) = Some ?ps"
    by (simp only: all_some_iff)
  have "ranked ?ps \<noteq> []" using assms(2) by simp
  then obtain x rest where x: "ranked ?ps = x # rest" by (cases "ranked ?ps") auto
  obtain best winner where r: "ranked ?ps = (best, winner) # rest" using x by (cases x) auto
  have "(best, winner) \<in> set (ranked ?ps)" unfolding r by simp
  then have "(best, winner) \<in> set ?ps" by (simp only: set_ranked)
  then have w: "winner \<in> set cs" "best = ?score winner" by auto
  have num: "\<forall>c \<in> set cs. \<not> f64_nan (?score c)"
  proof
    fix c assume c: "c \<in> set cs"
    with score_measured [OF assms(1)] obtain s where "score_of coverage freshness c = Some s" by blast
    then show "\<not> f64_nan (?score c)" using assms(3) c by (auto simp: list_all_iff)
  qed
  then have "list_all (ranks (hd (ranked ?ps))) ?ps" using assms(2) by (intro ranked_first) (auto simp: list_all_iff)
  then have top: "\<forall>d \<in> set cs. ranks (?score winner, winner) (?score d, d)" using w by (simp add: r list_all_iff)
  have above: "\<forall>d \<in> set cs. f64_units (?score d) < f64_units (?score winner)
      \<or> f64_units (?score d) = f64_units (?score winner) \<and> ca_plan_id winner \<le> ca_plan_id d"
  proof
    fix d assume d: "d \<in> set cs"
    show "f64_units (?score d) < f64_units (?score winner) \<or> f64_units (?score d) = f64_units (?score winner) \<and> ca_plan_id winner \<le> ca_plan_id d"
      using bspec [OF top d] bspec [OF num d] bspec [OF num w(1)] ranks_numbers [of "(?score winner, winner)" "(?score d, d)"] by auto
  qed
  have iff: "best_score coverage freshness plan cs \<longleftrightarrow> ca_plan_id winner = plan"
  proof
    assume "best_score coverage freshness plan cs"
    then obtain c where c: "c \<in> set cs" "ca_plan_id c = plan" "\<forall>d \<in> set cs. f64_units (?score d) < f64_units (?score c)
        \<or> f64_units (?score d) = f64_units (?score c) \<and> plan \<le> ca_plan_id d"
      by (auto simp: best_score_def list_ex_iff list_all_iff Let_def)
    have "f64_units (?score c) < f64_units (?score winner) \<or> f64_units (?score c) = f64_units (?score winner) \<and> ca_plan_id winner \<le> ca_plan_id c"
      using above c(1) by blast
    then show "ca_plan_id winner = plan" using c(2) bspec [OF c(3) w(1)] by (elim disjE conjE) simp_all
  next
    assume plan: "ca_plan_id winner = plan"
    with above have "\<forall>d \<in> set cs. f64_units (?score d) < f64_units (?score winner) \<or> f64_units (?score d) = f64_units (?score winner) \<and> plan \<le> ca_plan_id d"
      by simp
    then show "best_score coverage freshness plan cs"
      using w(1) plan unfolding best_score_def Let_def list_ex_iff list_all_iff by blast
  qed
  have "\<not> (\<not> f64_zero coverage \<and> 1 < length (remdups_adj (sort (map mc_rubric (List.map_filter ca_coverage cs)))))"
    using False one_rubric_iff [OF assms(1)] by blast
  then have "rank_on_fractions cs coverage freshness = Some (chosen (ca_plan_id winner) (fractions_method coverage freshness)
      (fractions_words coverage freshness ((best, winner) # rest)))"
    unfolding rank_on_fractions_def Let_def ps by (simp only: if_False r option.case list.case prod.case)
  from this show thesis by (rule that) (use iff False in \<open>auto simp: chosen_def\<close>)
qed

subsection \<open>What the objective picks\<close>

text \<open>The plan an objective deserves, from the measurements alone.\<close>

fun deserves :: "objective \<Rightarrow> candidate list \<Rightarrow> bool \<Rightarrow> string \<Rightarrow> bool" where
  "deserves MaximiseQuality cs replayed plan = False"
| "deserves MinimiseCost cs replayed plan = least_cost plan cs"
| "deserves MinimiseLatency cs replayed plan = (\<not> replayed \<and> least_latency plan cs)"
| "deserves (Weighted quality coverage freshness cost latency policy_risk) cs replayed plan =
     (f64_zero quality \<and> f64_zero policy_risk \<and> measured_on coverage freshness cs
      \<and> (if \<not> f64_zero coverage \<or> \<not> f64_zero freshness
         then f64_zero cost \<and> f64_zero latency \<and> (f64_zero coverage \<or> one_rubric cs) \<and> best_score coverage freshness plan cs
         else if f64_zero latency then \<not> f64_zero cost \<and> least_cost plan cs
         else f64_zero cost \<and> \<not> replayed \<and> least_latency plan cs))"

text \<open>The figures an objective weighs are ordinary numbers, as those of a declared job and of an evaluation are.\<close>

definition ordinary_figures :: "f64 \<Rightarrow> f64 \<Rightarrow> candidate list \<Rightarrow> bool" where
  "ordinary_figures coverage freshness cs \<longleftrightarrow> f64_ordinary coverage \<and> f64_ordinary freshness
     \<and> list_all (\<lambda>c. (case ca_coverage c of None \<Rightarrow> True | Some m \<Rightarrow> f64_ordinary (mc_fraction m))
         \<and> (case ca_freshness c of None \<Rightarrow> True | Some fraction \<Rightarrow> f64_ordinary fraction)) cs"

fun comparable_scores :: "objective \<Rightarrow> candidate list \<Rightarrow> bool" where
  "comparable_scores (Weighted quality coverage freshness cost latency policy_risk) cs = ordinary_figures coverage freshness cs"
| "comparable_scores objective cs = True"

lemma scores_compare: "ordinary_figures coverage freshness cs
    \<Longrightarrow> list_all (\<lambda>c. case score_of coverage freshness c of None \<Rightarrow> True | Some s \<Rightarrow> \<not> f64_nan s) cs"
proof -
  assume f: "ordinary_figures coverage freshness cs"
  have "f64_tame s" if "c \<in> set cs" "score_of coverage freshness c = Some s" for c s
  proof -
    have "f64_tame 0" by (simp add: f64_tame_def f64_nan_def f64_zero_def f64_bits_def)
    moreover have "\<And>m. ca_coverage c = Some m \<Longrightarrow> f64_tame (f64_mul coverage (mc_fraction m))"
      "\<And>x. ca_freshness c = Some x \<Longrightarrow> f64_tame (f64_mul freshness x)"
      using f that(1) by (auto simp: ordinary_figures_def list_all_iff intro!: tame_mul)
    ultimately show ?thesis using that(2)
      by (cases "ca_coverage c"; cases "ca_freshness c") (auto simp: score_of_def split: if_splits intro!: tame_add)
  qed
  then show ?thesis by (auto simp: list_all_iff f64_tame_def split: option.splits)
qed

lemma deserves_Nil: "\<not> deserves objective [] replayed plan"
  by (cases objective) (auto simp: least_cost_def least_latency_def best_score_def)

lemma abstaining_picks_none [simp]: "sl_plan_id quality_unmeasured = None" "sl_plan_id (terms_missing missing) = None"
  "sl_plan_id (no_common_unit cost latency) = None" "sl_plan_id no_exchange_rate = None" "sl_plan_id no_weight = None"
  by (simp_all only: quality_unmeasured_def terms_missing_def no_common_unit_def no_exchange_rate_def no_weight_def abstain_picks_none)

lemma select_picks:
  assumes "comparable_scores objective cs"
  obtains s where "select_plan objective cs replayed = Some s" "sl_plan_id s = Some plan \<longleftrightarrow> deserves objective cs replayed plan"
proof (cases "cs = []")
  case True
  then show thesis using deserves_Nil by (intro that [of no_candidates]) (auto simp: no_candidates_def)
next
  case False
  then obtain c cs' where cs: "cs = c # cs'" by (cases cs) auto
  show thesis
  proof (cases objective)
    case (Weighted q cv f k l r)
    show ?thesis
    proof (cases "f64_zero q \<and> f64_zero r \<and> measured_on cv f cs")
      case unmeasured: False
      then have "missing_terms q cv f r cs \<noteq> []" by (simp add: missing_none)
      then show ?thesis using Weighted unmeasured by (intro that [of "terms_missing (missing_terms q cv f r cs)"]) (auto simp: cs)
    next
      case True
      then have none: "missing_terms q cv f r cs = []" by (simp add: missing_none)
      have comparable: "list_all (\<lambda>c. case score_of cv f c of None \<Rightarrow> True | Some s \<Rightarrow> \<not> f64_nan s) cs"
        using assms Weighted by (simp add: scores_compare)
      obtain s where s: "rank_on_fractions cs cv f = Some s"
        "sl_plan_id s = Some plan \<longleftrightarrow> (f64_zero cv \<or> one_rubric cs) \<and> best_score cv f plan cs"
        by (rule fraction_pick [OF _ False comparable]) (use True in auto)
      let ?s = "if \<not> f64_zero cv \<or> \<not> f64_zero f then if f64_zero k \<and> f64_zero l then s else no_common_unit k l
        else if f64_zero k \<and> f64_zero l then no_weight else if f64_zero l then select_on_cost cs
        else if f64_zero k then select_on_latency cs replayed else no_exchange_rate"
      have "select_plan objective cs replayed = Some ?s" using none s(1) unfolding Weighted by (simp add: cs)
      moreover have "sl_plan_id ?s = Some plan \<longleftrightarrow> deserves objective cs replayed plan"
        using True s(2) latency_pick [of cs replayed plan] cost_pick [of cs plan] unfolding Weighted by simp
      ultimately show ?thesis by (rule that)
    qed
  next
    case MaximiseQuality
    then show ?thesis by (intro that [of quality_unmeasured]) (simp_all add: cs)
  next
    case MinimiseCost
    then show ?thesis using cost_pick [of cs plan] by (intro that [of "select_on_cost cs"]) (simp_all add: cs)
  next
    case MinimiseLatency
    then show ?thesis using latency_pick [of cs replayed plan] by (intro that [of "select_on_latency cs replayed"]) (simp_all add: cs)
  qed
qed

subsection \<open>Properties\<close>

text \<open>
  C29. A plan is picked exactly when what the run measured decides for it. On latency and on cost every plan that
  completed has the figure, the charges are in one currency, and the plan has the least figure, the first of equal ones
  by its id; a replay never decides on latency. Weights decide only where no weight is on quality or policy risk, every
  weighted fraction is measured for every candidate against one rubric, and fractions, cost and latency are not traded
  against each other; then the plan has the highest score. In all other cases the selection abstains, and it never
  panics.
\<close>

theorem selection_is_measured:
  assumes "comparable_scores objective cs"
  shows "\<exists>s. select_plan objective cs replayed = Some s \<and> (sl_plan_id s = Some plan \<longleftrightarrow> deserves objective cs replayed plan)"
  by (rule select_picks [OF assms]) blast

definition sample_candidate :: "string \<Rightarrow> nat \<Rightarrow> candidate" where
  "sample_candidate name charge = \<lparr>ca_plan_id = name, ca_completed = True, ca_latency_ms = None,
     ca_observed_cost = Some \<lparr>currency = ''EUR'', micros = of_nat charge\<rparr>,
     ca_coverage = Some \<lparr>mc_fraction = 0x3FE0000000000000, mc_rubric = ''r/1''\<rparr>, ca_freshness = None\<rparr>"

lemma sample_ordinary: "comparable_scores (Weighted 0 0 0 0x3FF0000000000000 0 0) [sample_candidate ''b'' 7, sample_candidate ''a'' 7, sample_candidate ''c'' 9]"
  by (simp add: ordinary_figures_def sample_candidate_def f64_ordinary_def f64_tame_def f64_nan_def f64_infinite_def f64_zero_def f64_bits_def f64_sign_def)

lemma selection_is_measured_witness:
  "\<exists>s. select_plan (Weighted 0 0 0 0x3FF0000000000000 0 0) [sample_candidate ''b'' 7, sample_candidate ''a'' 7, sample_candidate ''c'' 9] False = Some s
    \<and> sl_plan_id s = Some ''a''"
proof -
  have "deserves (Weighted 0 0 0 0x3FF0000000000000 0 0) [sample_candidate ''b'' 7, sample_candidate ''a'' 7, sample_candidate ''c'' 9] False ''a''"
    by (simp add: sample_candidate_def least_cost_def measured_on_def f64_zero_def f64_bits_def pair_le_def less_eq_char_def less_char_def)
  then show ?thesis using selection_is_measured [OF sample_ordinary, of False "''a''"] by auto
qed

lemma deserves_set: "set cs = set cs' \<Longrightarrow> deserves objective cs replayed plan = deserves objective cs' replayed plan"
  by (cases objective) (auto simp: least_cost_def least_latency_def measured_on_def one_rubric_def best_score_def Let_def list_all_iff list_ex_iff)

lemma comparable_set: "set cs = set cs' \<Longrightarrow> comparable_scores objective cs = comparable_scores objective cs'"
  by (cases objective) (auto simp: ordinary_figures_def list_all_iff)

text \<open>
  C30. The order in which the candidates are listed, and how often, decides nothing: whatever order the plans ran in, the
  same plan is picked.
\<close>

theorem selection_ignores_order:
  assumes "comparable_scores objective cs" "set cs = set cs'"
  shows "\<exists>s s'. select_plan objective cs replayed = Some s \<and> select_plan objective cs' replayed = Some s' \<and> sl_plan_id s = sl_plan_id s'"
proof -
  have c': "comparable_scores objective cs'" using assms comparable_set by blast
  obtain s where s: "select_plan objective cs replayed = Some s" by (rule select_picks [OF assms(1)])
  obtain s' where s': "select_plan objective cs' replayed = Some s'" by (rule select_picks [OF c'])
  have "sl_plan_id s = Some plan \<longleftrightarrow> deserves objective cs replayed plan" for plan
    by (rule select_picks [OF assms(1), of replayed plan]) (use s in simp)
  moreover have "sl_plan_id s' = Some plan \<longleftrightarrow> deserves objective cs' replayed plan" for plan
    by (rule select_picks [OF c', of replayed plan]) (use s' in simp)
  ultimately have "sl_plan_id s = Some plan \<longleftrightarrow> sl_plan_id s' = Some plan" for plan using deserves_set [OF assms(2)] by simp
  then have "sl_plan_id s = sl_plan_id s'" by (metis option.exhaust)
  with s s' show ?thesis by blast
qed

lemma selection_ignores_order_witness:
  "\<exists>s s'. select_plan (Weighted 0 0 0 0x3FF0000000000000 0 0) [sample_candidate ''b'' 7, sample_candidate ''a'' 7, sample_candidate ''c'' 9] False = Some s
    \<and> select_plan (Weighted 0 0 0 0x3FF0000000000000 0 0) [sample_candidate ''c'' 9, sample_candidate ''a'' 7, sample_candidate ''b'' 7] False = Some s'
    \<and> sl_plan_id s = sl_plan_id s'"
  by (rule selection_ignores_order [OF sample_ordinary]) auto

subsection \<open>Replays\<close>

text \<open>Candidates that differ in their latencies alone.\<close>

definition timed :: "(candidate \<Rightarrow> u64 option) \<Rightarrow> candidate \<Rightarrow> candidate" where
  "timed f c = c\<lparr>ca_latency_ms := f c\<rparr>"

lemma timed_simps [simp]: "ca_plan_id (timed f c) = ca_plan_id c" "ca_completed (timed f c) = ca_completed c"
  "ca_observed_cost (timed f c) = ca_observed_cost c" "ca_coverage (timed f c) = ca_coverage c" "ca_freshness (timed f c) = ca_freshness c"
  by (simp_all add: timed_def)

definition retimed :: "(candidate \<Rightarrow> u64 option) \<Rightarrow> f64 \<times> candidate \<Rightarrow> f64 \<times> candidate" where
  "retimed f x = (fst x, timed f (snd x))"

lemma retimed_simps [simp]: "fst (retimed f x) = fst x" "snd (retimed f x) = timed f (snd x)" "retimed f (s, c) = (s, timed f c)"
  by (simp_all add: retimed_def)

lemma ranks_retimed: "ranks (retimed f x) (retimed f y) = ranks x y"
  by (cases x; cases y) (simp add: ranks_def split: option.splits ordering.splits)

lemma rank_in_retimed: "rank_in (retimed f x) (map (retimed f) ys) = map (retimed f) (rank_in x ys)"
  by (induction ys) (simp_all add: ranks_retimed)

lemma ranked_retimed: "ranked (map (retimed f) xs) = map (retimed f) (ranked xs)"
  by (induction xs) (simp_all add: ranked_def rank_in_retimed)

lemma map_filter_timed: "(\<And>c. g (timed f c) = g c) \<Longrightarrow> List.map_filter g (map (timed f) cs) = List.map_filter g cs"
  by (induction cs) (auto simp: map_filter_def)

lemma score_timed [simp]: "score_of coverage freshness (timed f c) = score_of coverage freshness c"
  by (simp add: score_of_def)

lemma scores_timed: "all_some (map (\<lambda>c. map_option (\<lambda>score. (score, c)) (score_of coverage freshness c)) (map (timed f) cs))
    = map_option (map (retimed f)) (all_some (map (\<lambda>c. map_option (\<lambda>score. (score, c)) (score_of coverage freshness c)) cs))"
proof (induction cs)
  case (Cons c cs)
  show ?case using Cons.IH by (cases "score_of coverage freshness c") (simp_all add: option.map_comp comp_def)
qed simp

lemma words_retimed: "fractions_words coverage freshness (map (retimed f) (x # xs)) = fractions_words coverage freshness (x # xs)"
proof -
  have "figures_of coverage freshness (timed f c) = figures_of coverage freshness c" for c by (simp add: figures_of_def)
  then have entry: "(\<lambda>(score, c). ca_plan_id c @ '' '' @ f64_text2 score @ '' ('' @ join_with '', '' (figures_of coverage freshness c) @ '')'') \<circ> retimed f
    = (\<lambda>(score, c). ca_plan_id c @ '' '' @ f64_text2 score @ '' ('' @ join_with '', '' (figures_of coverage freshness c) @ '')'')"
    by (auto simp: fun_eq_iff)
  then have "ranking_words coverage freshness (map (retimed f) ys) = ranking_words coverage freshness ys" for ys
    unfolding ranking_words_def map_map entry by simp
  moreover have "map (\<lambda>(_, c). ca_plan_id c) (filter (\<lambda>(score, _). f64_equal score s) (map (retimed f) ys))
      = map (\<lambda>(_, c). ca_plan_id c) (filter (\<lambda>(score, _). f64_equal score s) ys)" for s ys
    by (induction ys) auto
  then have "tie_text s (map (retimed f) ys) = tie_text s ys" for s ys
    unfolding tie_text_def by (simp only:)
  moreover have "fractions_basis coverage freshness (timed f c) = fractions_basis coverage freshness c" for c
    by (simp add: fractions_basis_def rubric_of_def)
  ultimately show ?thesis unfolding fractions_words_def by (simp only: list.map list.sel retimed_simps) (simp only: list.map [symmetric])
qed

lemma fractions_timed: "rank_on_fractions (map (timed f) cs) coverage freshness = rank_on_fractions cs coverage freshness"
proof -
  let ?scores = "all_some (map (\<lambda>c. map_option (\<lambda>score. (score, c)) (score_of coverage freshness c)) cs)"
  have choice: "(case ranked (map (retimed f) scores) of [] \<Rightarrow> None
      | (best, winner) # rest \<Rightarrow> Some (chosen (ca_plan_id winner) (fractions_method coverage freshness) (fractions_words coverage freshness ((best, winner) # rest))))
    = (case ranked scores of [] \<Rightarrow> None
      | (best, winner) # rest \<Rightarrow> Some (chosen (ca_plan_id winner) (fractions_method coverage freshness) (fractions_words coverage freshness ((best, winner) # rest))))"
    for scores
  proof (cases "ranked scores")
    case (Cons x xs)
    then show ?thesis using words_retimed [of coverage freshness f x xs] by (cases x) (simp add: ranked_retimed)
  qed (simp add: ranked_retimed)
  show ?thesis
    unfolding rank_on_fractions_def scores_timed map_filter_timed [of ca_coverage, OF timed_simps(4)]
    by (cases ?scores) (simp_all only: option.map option.case choice)
qed

lemma missing_timed: "missing_terms quality coverage freshness policy_risk (map (timed f) cs) = missing_terms quality coverage freshness policy_risk cs"
  by (simp add: missing_terms_def unmeasured_def without_measure_def filter_map comp_def)

lemma cost_timed: "select_on_cost (map (timed f) cs) = select_on_cost cs"
proof -
  have finished: "filter ca_completed (map (timed f) cs) = map (timed f) (filter ca_completed cs)" by (simp add: filter_map comp_def)
  have pairs: "List.map_filter (\<lambda>c. map_option (\<lambda>m. (micros m, ca_plan_id c)) (ca_observed_cost c)) (map (timed f) xs)
      = List.map_filter (\<lambda>c. map_option (\<lambda>m. (micros m, ca_plan_id c)) (ca_observed_cost c)) xs" for xs
    by (simp add: map_filter_timed)
  have costs: "List.map_filter ca_observed_cost (map (timed f) xs) = List.map_filter ca_observed_cost xs" for xs
    by (simp add: map_filter_timed)
  have silent: "map ca_plan_id (filter (\<lambda>c. ca_observed_cost c = None) (map (timed f) xs)) = map ca_plan_id (filter (\<lambda>c. ca_observed_cost c = None) xs)" for xs
    by (simp add: filter_map comp_def)
  show ?thesis
    by (simp only: select_on_cost_def Let_def finished pairs costs silent length_map map_is_Nil_conv)
qed

text \<open>
  C31. A replay does not read its clock. Of a run served from recordings the selection, its explanation included, is the
  same whatever latencies were measured, so two replays of one suite select alike.
\<close>

theorem replay_ignores_latency:
  "select_plan objective (map (timed f) cs) True = select_plan objective cs True"
proof (cases cs)
  case (Cons c cs')
  have "select_on_latency (map (timed f) cs) True = select_on_latency cs True" by (simp add: select_on_latency_def)
  then show ?thesis
    using missing_timed [of _ _ _ _ f cs] fractions_timed [of f cs] cost_timed [of f cs] unfolding Cons
    by (cases objective) (simp_all add: Let_def)
qed simp

end
