(* ===== verification/Spec2Isabelle.thy ===== *)
theory Spec2Isabelle
  imports Purchase Address Backoff Relay_Life Rsl Http_Round Selection
begin

section \<open>The verification development of commonmeasure\<close>

text \<open>
  Commonmeasure is an edge between an agent and the sources it reads. A job states an operator's policy; the runtime
  admits sources, buys context within the operator's allowance and records what it did; the harness fetches pages,
  keeping the pace and the declarations their publishers ask for; the relay delivers the records of consenting
  sessions to the parties entitled to them. This development models the parts that decide: every definition is the
  code's own function, with its guards, its order of effects and its error returns, and is executable. Each theory
  names the source file it models at its head; paths are under \<open>src/crates/\<close>.

  \<^bold>\<open>Prelude.\<close> \<open>CM_Prelude\<close> has machine integers as words with the checked and saturating operations, Rust's string
  functions on bytes, \<open>BTreeMap\<close>s as ordered association lists, and the computations that fail or change a state.
  \<open>Append_Log\<close> is a newline-delimited JSON file with the failure points of an append; its locale \<open>append_log\<close> states
  what an append may do to such a file and is interpreted for the bare file and for the allowance ledger.

  \<^bold>\<open>Amounts and policy.\<close> \<open>Money\<close> (\<open>types/money.rs\<close>): decimal text is read exactly, sums and comparisons never cross
  currencies. \<open>Ruling\<close> (\<open>runtime/agent_text.rs\<close> and the ruling of \<open>runtime/policy.rs\<close>): what may be told to an
  agent; its locales \<open>recorded_check\<close> and \<open>moded_check\<close> state what a policy check owes its caller. \<open>Job\<close>
  (\<open>types/job.rs\<close>): constraints, validation, host patterns. \<open>Policy\<close> (\<open>runtime/policy.rs\<close>): every decision, with the
  locales interpreted for each of them. \<open>Address\<close> (\<open>types/address.rs\<close>): the privacy floor, compared with the blocks
  of the address registries.

  \<^bold>\<open>Spending.\<close> \<open>Allowance\<close> (\<open>runtime/allowance.rs\<close>): the ledger file and the arithmetic of a period; \<open>Ledger_Runs\<close>:
  its operations by any number of processes, each holding the lock for a step; \<open>Allowance_Gate\<close>: reserving for a
  decision, settling against a receipt; \<open>Purchase\<close> (\<open>runtime/run.rs\<close>): quote, decide, buy, and the dispatch gate. The
  main results are that strict spending never exceeds a declared period, that what cannot be checked is refused, and
  that no purchase leaves a reservation unresolved without saying so.

  \<^bold>\<open>Delivery.\<close> \<open>Spool\<close> (\<open>relay/spool.rs\<close>): queue, snapshot, journal and marker as files that an operation may leave
  at any durable step; \<open>Spool_Runs\<close>: every operation refines an abstract outbox; \<open>Spool_Life\<close>: processes that open,
  call, die and open again. \<open>Outbox_Invariants\<close>: the locale \<open>outbox_invariant\<close>, by which a property of the abstract
  outbox is carried through the spool by its users; \<open>Relay\<close> (\<open>relay/lib.rs\<close>, \<open>state.rs\<close>, \<open>wire.rs\<close>, \<open>client.rs\<close>),
  \<open>Relay_Runs\<close> and \<open>Relay_Life\<close>: the delivery loop, and histories of runs any of which may be killed. The main
  results: no batch is lost before it was accepted, none is posted more than ten times, none under an agent other
  than the one pinned, and none beyond what consent permits at the post.

  \<^bold>\<open>Pace.\<close> \<open>Crawl_Delay\<close> and \<open>Backoff\<close> (\<open>harness/crawl_delay.rs\<close>, \<open>crawl_delay/backoff.rs\<close>): the turn of a host,
  the pause after a failure, and the waits of a call within its budget, against other processes on the same store.

  \<^bold>\<open>Declarations.\<close> \<open>Targets\<close> (\<open>types/job.rs\<close>): the one spelling of a request target, and the readings of a path.
  \<open>Robots\<close> and \<open>Rsl\<close> (\<open>harness/declarations.rs\<close>): what a publisher's \<open>robots.txt\<close> and licence documents say of a
  page. Pattern matching is compared with a reference matcher, containment of scopes with inclusion, and the decision
  on a page is stated without the code's loops.

  \<^bold>\<open>Messages.\<close> \<open>Http\<close> (\<open>http/message.rs\<close>): header fields, the faults of a peer and what is told of them, the
  bounded readers of requests and responses and the writers, a message being its bytes. \<open>Http_Round\<close>: what is written
  is read again as itself, a chunked body as its chunks joined; nothing read is larger than the ceilings.

  \<^bold>\<open>Selection.\<close> \<open>Selection\<close> (\<open>runtime/selection.rs\<close>): the plan an objective picks from the measurements of a run,
  characterised by them alone; doubles are their bits, with sums and products rounded as IEEE 754 has it.

  \<^bold>\<open>Bounds.\<close> Loops that end by their data are structural or have a measure. The search for the readings of a path is
  a partial function, shown to end within the cap of sixty-four paths. The loop of a send is given the other
  processes' moves as a list; its rounds are bounded by the budget and the length of that list, and this many are
  shown to be enough. Faults of the file system are lists of outcomes consumed in order; results about histories of
  the relay are for faults that end the process (\<open>only_dies\<close>), as a fault that the process survives stops the run with
  an error and is covered by the theorems about the spool. The two roundings of a crawl delay keep the 53 bits of a
  double and leave out its range, where the result is saturated or nothing either way.

  \<^bold>\<open>Parameters.\<close> Crates the source calls are arguments: the URL parser (parsed URLs as records of what is read of
  them, path setting as \<open>resolve\<close>), SHA-256, base64, the gzip decoder, JSON and XML readers (the events of the latter as a list),
  calendar arithmetic and date parsing, random identifiers, and the exchanges with suppliers and receivers. What is
  relied on of them is stated where it is used.

  \<^bold>\<open>Not modelled.\<close> The command line, the console, the MCP surface and the hook are parsing, printing and dispatch
  around the parts above. Suppliers, the inference client and enrolment are HTTP conversations. The processors read
  text, images and manifests through third-party formats. Evidence and artifact packaging is file layout. Discovery,
  sessions and the projection of session records to the wire are large and are left as the inputs of the parts
  modelled: the readings of a session, the batches a projection gives, the events of a document.
\<close>

end
